(* ===== verification/Prelude.thy ===== *)
theory Prelude
  imports Main "HOL-Library.Word"
begin

text \<open>
  What the components share: the types of file descriptors, object identities
  and byte strings, the assertion log, the arithmetic of \<^verbatim>\<open>size_t\<close>, and
  generic lemmas on lists and maps.

  Byte strings (\<^verbatim>\<open>std::string\<close>) are \<^typ>\<open>string\<close>: an Isabelle \<^typ>\<open>char\<close> is
  one 8-bit value. Objects reached through a pointer (connections, loops) are
  named by a natural number, and the world records that hold them map each name to the
  object's fields.
\<close>

unbundle bit_operations_syntax

section \<open>Types\<close>

type_synonym fd = int
type_synonym conn_id = nat
type_synonym loop_id = nat
type_synonym thread_id = nat
type_synonym bytes = string

text \<open>
  A channel belongs to one object, which holds it by a \<^verbatim>\<open>unique_ptr\<close>; it is named after
  that object. A connector makes a new channel for every attempt, so its channels are
  numbered.
\<close>

datatype chan_id =
    WakeupChan loop_id    \<comment> \<open>\<^verbatim>\<open>EventLoop::wakeupChannel_\<close>\<close>
  | AcceptChan nat        \<comment> \<open>\<^verbatim>\<open>Acceptor::acceptChannel_\<close>\<close>
  | ConnChan conn_id      \<comment> \<open>\<^verbatim>\<open>TCPConnection::channel_\<close>\<close>
  | ConnectChan nat       \<comment> \<open>\<^verbatim>\<open>Connector::connectChannel_\<close>\<close>
  | TimerChan int         \<comment> \<open>\<^verbatim>\<open>Timer::timerChannel_\<close>\<close>

section \<open>Collections of facts\<close>

named_theorems frame "which parts of a state an operation leaves alone"
named_theorems effect "what an operation does to the parts it changes"

section \<open>Assertions\<close>

text \<open>
  The default build defines \<^verbatim>\<open>NDEBUG\<close>, so a failing \<^verbatim>\<open>assert\<close> has no effect
  there; a debug build stops at the first one. The models run on, as the default
  build does, and log the place of every assertion that does not hold: a state
  whose log is empty is one that both builds reach.
\<close>

datatype assertion =
    ChannelNotNone     \<comment> \<open>Channel.cc:45\<close>
  | NewChannelKnown    \<comment> \<open>EventLoop.cc:150\<close>
  | OldChannelUnknown  \<comment> \<open>EventLoop.cc:155\<close>
  | RemoveUnknown      \<comment> \<open>EventLoop.cc:174\<close>
  | NotInLoopThread    \<comment> \<open>EventLoop.cc:74\<close>
  | NotRecving         \<comment> \<open>TCPConnection.cc:143\<close>
  | ChannelStillSet    \<comment> \<open>Connector.cc:86\<close>
  | LoopIndexRange     \<comment> \<open>\<^verbatim>\<open>loops_.at\<close> throws, EventLoopThreadPool.cc:40\<close>
  | WrongLoop          \<comment> \<open>TCPClient.cc:100\<close>
  | NullChannel        \<comment> \<open>a null \<^verbatim>\<open>connectChannel_\<close> dereferenced in Connector.cc:95\<close>

section \<open>\<open>size_t\<close>\<close>

text \<open>A 64-bit \<^verbatim>\<open>size_t\<close> as a natural number below \<open>2 ^ 64\<close>, wrap-around written out.\<close>

definition size_mod :: nat where
  "size_mod = 18446744073709551616"

definition npos :: nat where
  "npos = size_mod - 1"

definition sz_add :: "nat \<Rightarrow> nat \<Rightarrow> nat" where
  "sz_add a b = (a + b) mod size_mod"

definition sz_sub :: "nat \<Rightarrow> nat \<Rightarrow> nat" where
  "sz_sub a b = (a + (size_mod - b)) mod size_mod"

lemma sz_add_small: "a + b < size_mod \<Longrightarrow> sz_add a b = a + b"
  by (simp add: sz_add_def)

lemma sz_sub_small: "b \<le> a \<Longrightarrow> a < size_mod \<Longrightarrow> sz_sub a b = a - b"
proof -
  assume le: "b \<le> a" and lt: "a < size_mod"
  then have "(a + (size_mod - b)) mod size_mod = ((a - b) + size_mod) mod size_mod" by simp
  also have "\<dots> = a - b" using lt by simp
  finally show ?thesis by (simp only: sz_sub_def)
qed

lemma sz_add_npos_1: "sz_add npos (Suc 0) = 0"
  by (simp add: sz_add_def npos_def size_mod_def)

lemma npos_less: "npos < size_mod"
  by (simp add: npos_def size_mod_def)

section \<open>Lists\<close>

lemma fold_append_elem: "fold (\<lambda>x acc. acc @ [x]) xs ys = ys @ xs"
  by (induction xs arbitrary: ys) auto

lemma fold_append_concat: "fold (\<lambda>x acc. acc @ x) xs ys = ys @ concat xs"
  by (induction xs arbitrary: ys) auto

lemma distinct_remove1_notin: "distinct xs \<Longrightarrow> x \<notin> set (remove1 x xs)"
  by simp

lemma fold_appends: "fold (\<lambda>m as. as @ f m) ms as = as @ concat (map f ms)"
  by (induction ms arbitrary: as) simp_all

lemma fold_append_map: "fold (\<lambda>m as. as @ [f m]) ms as = as @ map f ms"
  by (induction ms arbitrary: as) simp_all

lemma fold_invariant:
  assumes "\<And>x s. x \<in> set xs \<Longrightarrow> P s \<Longrightarrow> P (f x s)" and "P s"
  shows "P (fold f xs s)"
  using assms by (induction xs arbitrary: s) auto

lemma fold_measure_eq:
  assumes "\<And>x s. x \<in> set xs \<Longrightarrow> g (f x s) = g s"
  shows "g (fold f xs s) = g s"
  using assms by (induction xs arbitrary: s) auto

end
