(* ===== verification/Channel.thy ===== *)
theory Channel
  imports Prelude
begin

text \<open>
  \<^verbatim>\<open>src/slite/Channel.h\<close> and \<^verbatim>\<open>Channel.cc\<close>: the data of a channel (a file
  descriptor and the epoll events it is interested in), the tests on its event
  mask, and the dispatch of received events to the callbacks. The operations that
  also talk to the event loop (\<^verbatim>\<open>update\<close>, \<^verbatim>\<open>enableSend\<close>, \<^verbatim>\<open>remove\<close>, ...) are
  in the theory \<^verbatim>\<open>EventLoop\<close>, whose state they change.
\<close>

section \<open>Event masks\<close>

definition EPOLLIN :: "32 word" where "EPOLLIN = 0x001"
definition EPOLLPRI :: "32 word" where "EPOLLPRI = 0x002"
definition EPOLLOUT :: "32 word" where "EPOLLOUT = 0x004"
definition EPOLLERR :: "32 word" where "EPOLLERR = 0x008"
definition EPOLLHUP :: "32 word" where "EPOLLHUP = 0x010"
definition EPOLLRDHUP :: "32 word" where "EPOLLRDHUP = 0x2000"

definition SendEvent :: "32 word" where "SendEvent = EPOLLOUT"
definition RecvEvent :: "32 word" where "RecvEvent = EPOLLIN"
definition NoneEvent :: "32 word" where "NoneEvent = 0"

lemmas event_defs = EPOLLIN_def EPOLLPRI_def EPOLLOUT_def EPOLLERR_def EPOLLHUP_def
  EPOLLRDHUP_def SendEvent_def RecvEvent_def NoneEvent_def

section \<open>The channel\<close>

datatype ChannelState = NEW | ADD | DELETE

text \<open>
  The owner that \<^verbatim>\<open>tie_\<close> points to is named by a number; \<open>ch_tied\<close> says whether
  \<^verbatim>\<open>tie()\<close> was called.
\<close>

record channel =
  ch_loop :: loop_id
  ch_fd :: fd
  ch_events :: "32 word"
  ch_revents :: "32 word"
  ch_tied :: bool
  ch_handling :: bool
  ch_state :: ChannelState
  ch_tie :: nat

definition Channel_ctor :: "loop_id \<Rightarrow> fd \<Rightarrow> channel" where
  "Channel_ctor l f = \<lparr>ch_loop = l, ch_fd = f, ch_events = NoneEvent, ch_revents = NoneEvent,
     ch_tied = False, ch_handling = False, ch_state = NEW, ch_tie = 0\<rparr>"

definition tie :: "nat \<Rightarrow> channel \<Rightarrow> channel" where
  "tie owner c = c\<lparr>ch_tie := owner, ch_tied := True\<rparr>"

definition isNoneEvent :: "channel \<Rightarrow> bool" where
  "isNoneEvent c \<longleftrightarrow> ch_events c = NoneEvent"

definition isSending :: "channel \<Rightarrow> bool" where
  "isSending c \<longleftrightarrow> ch_events c AND SendEvent \<noteq> 0"

definition isRecving :: "channel \<Rightarrow> bool" where
  "isRecving c \<longleftrightarrow> ch_events c AND RecvEvent \<noteq> 0"

text \<open>The bit tests of one mask after it is changed by another.\<close>

lemma events_bits [simp]:
  "(e OR SendEvent) AND SendEvent \<noteq> 0"
  "(e OR RecvEvent) AND RecvEvent \<noteq> 0"
  "(e AND NOT SendEvent) AND SendEvent = 0"
  "(e AND NOT RecvEvent) AND RecvEvent = 0"
proof -
  have "bit ((e OR SendEvent) AND SendEvent) 2"
    by (simp add: event_defs bit_simps)
  then show "(e OR SendEvent) AND SendEvent \<noteq> 0" by force
  have "bit ((e OR RecvEvent) AND RecvEvent) 0"
    by (simp add: event_defs bit_simps)
  then show "(e OR RecvEvent) AND RecvEvent \<noteq> 0" by force
  show "(e AND NOT SendEvent) AND SendEvent = 0"
    "(e AND NOT RecvEvent) AND RecvEvent = 0"
    by (simp_all add: bit_eq_iff bit_simps)
qed

lemma events_bits_other [simp]:
  "(e OR RecvEvent) AND SendEvent = e AND SendEvent"
  "(e OR SendEvent) AND RecvEvent = e AND RecvEvent"
  "(e AND NOT RecvEvent) AND SendEvent = e AND SendEvent"
  "(e AND NOT SendEvent) AND RecvEvent = e AND RecvEvent"
proof -
  have disj: "RecvEvent AND SendEvent = 0" "SendEvent AND RecvEvent = 0"
    "NOT RecvEvent AND SendEvent = SendEvent" "NOT SendEvent AND RecvEvent = RecvEvent"
    by (simp_all add: event_defs)
  show "(e OR RecvEvent) AND SendEvent = e AND SendEvent"
    "(e OR SendEvent) AND RecvEvent = e AND RecvEvent"
    by (simp_all add: bit.conj_disj_distrib2 disj)
  show "(e AND NOT RecvEvent) AND SendEvent = e AND SendEvent"
    "(e AND NOT SendEvent) AND RecvEvent = e AND RecvEvent"
    by (simp_all add: and.assoc disj)
qed

lemma NoneEvent_and [simp]: "NoneEvent AND x = 0"
  by (simp add: NoneEvent_def)

lemma isNone_not_sending: "isNoneEvent c \<Longrightarrow> \<not> isSending c \<and> \<not> isRecving c"
  by (simp add: isNoneEvent_def isSending_def isRecving_def)

end
