(* ===== verification/EventLoop.thy ===== *)
theory EventLoop
  imports Channel
begin

text \<open>
  \<^verbatim>\<open>src/slite/EventLoop.h\<close>, \<^verbatim>\<open>EventLoop.cc\<close> and the operations of \<^verbatim>\<open>Channel\<close>
  that change the loop it belongs to.

  The state is a record of the running thread, the event loops, the channels and the
  log of failed assertions. A functor of the task queue (\<^verbatim>\<open>std::function\<close>) is a
  value of a type \<^typ>\<open>'f\<close> that names the bound call; what a call does is an argument
  of the operations that make it. The kernel's part of a loop, the interest list of
  \<^verbatim>\<open>epollFd_\<close> and the counter of \<^verbatim>\<open>wakeupFd_\<close>, is in the record of the loop.
\<close>

section \<open>State\<close>

record 'f eventloop =
  quit :: bool
  doingTask :: bool
  threadId :: thread_id
  wakeupFd :: fd
  wakeupChannel :: chan_id
  wakeupCount :: nat
  eventsSize :: nat
  channels :: "fd \<rightharpoonup> chan_id"
  taskQueue :: "'f list"
  timers :: "int \<rightharpoonup> nat"
  epoll :: "fd \<rightharpoonup> 32 word \<times> chan_id"

record 'f ev_world =
  self :: thread_id
  loops :: "loop_id \<Rightarrow> 'f eventloop"
  chans :: "chan_id \<Rightarrow> channel"
  threadLoop :: "thread_id \<rightharpoonup> loop_id"
  violations :: "assertion list"

definition upd_loop ::
  "loop_id \<Rightarrow> ('f eventloop \<Rightarrow> 'f eventloop) \<Rightarrow> ('f, 'z) ev_world_scheme \<Rightarrow> ('f, 'z) ev_world_scheme" where
  "upd_loop l g w = w\<lparr>loops := (loops w)(l := g (loops w l))\<rparr>"

definition upd_chan ::
  "chan_id \<Rightarrow> (channel \<Rightarrow> channel) \<Rightarrow> ('f, 'z) ev_world_scheme \<Rightarrow> ('f, 'z) ev_world_scheme" where
  "upd_chan ch g w = w\<lparr>chans := (chans w)(ch := g (chans w ch))\<rparr>"

definition check :: "bool \<Rightarrow> assertion \<Rightarrow> ('f, 'z) ev_world_scheme \<Rightarrow> ('f, 'z) ev_world_scheme" where
  "check b a w = (if b then w else w\<lparr>violations := violations w @ [a]\<rparr>)"

lemma upd_loop_simps [simp]:
  "loops (upd_loop l g w) = (loops w)(l := g (loops w l))"
  "chans (upd_loop l g w) = chans w"
  "self (upd_loop l g w) = self w"
  "violations (upd_loop l g w) = violations w"
  "threadLoop (upd_loop l g w) = threadLoop w"
  "ev_world.more (upd_loop l g w) = ev_world.more w"
  by (simp_all add: upd_loop_def)

lemma upd_chan_simps [simp]:
  "loops (upd_chan ch h w) = loops w"
  "chans (upd_chan ch h w) = (chans w)(ch := h (chans w ch))"
  "self (upd_chan ch h w) = self w"
  "violations (upd_chan ch h w) = violations w"
  "threadLoop (upd_chan ch h w) = threadLoop w"
  "ev_world.more (upd_chan ch h w) = ev_world.more w"
  by (simp_all add: upd_chan_def)

lemma check_simps [simp]:
  "loops (check b a w) = loops w"
  "chans (check b a w) = chans w"
  "self (check b a w) = self w"
  "threadLoop (check b a w) = threadLoop w"
  "ev_world.more (check b a w) = ev_world.more w"
  "violations (check b a w) = (if b then violations w else violations w @ [a])"
  "check True a w = w"
  by (simp_all add: check_def)

text \<open>The state before any object is made, for a program running in thread \<open>t\<close>.\<close>

definition boot_loop :: "'f eventloop" where
  "boot_loop = \<lparr>quit = False, doingTask = False, threadId = 0, wakeupFd = 0, wakeupChannel = WakeupChan 0,
     wakeupCount = 0, eventsSize = 32, channels = Map.empty, taskQueue = [], timers = Map.empty,
     epoll = Map.empty\<rparr>"

definition boot_world :: "thread_id \<Rightarrow> 'f ev_world" where
  "boot_world t = \<lparr>self = t, loops = (\<lambda>_. boot_loop), chans = (\<lambda>_. Channel_ctor 0 0),
     threadLoop = Map.empty, violations = []\<rparr>"

section \<open>The kernel: epoll and the event descriptor\<close>

datatype ctl_op = CTL_ADD | CTL_MOD | CTL_DEL

text \<open>
  \<^verbatim>\<open>epoll_ctl\<close> fails on an \<open>ADD\<close> of a descriptor that is registered and on a
  \<open>MOD\<close> or \<open>DEL\<close> of one that is not; the code ignores the result, so a failing call
  is one that changes nothing.
\<close>

definition epoll_ctl ::
  "ctl_op \<Rightarrow> fd \<Rightarrow> 32 word \<times> chan_id \<Rightarrow> (fd \<rightharpoonup> 32 word \<times> chan_id) \<Rightarrow> (fd \<rightharpoonup> 32 word \<times> chan_id)" where
  "epoll_ctl op f ev m =
     (case op of
        CTL_ADD \<Rightarrow> if m f = None then m(f \<mapsto> ev) else m
      | CTL_MOD \<Rightarrow> if m f = None then m else m(f \<mapsto> ev)
      | CTL_DEL \<Rightarrow> m(f := None))"

text \<open>A write of 1 to an \<^verbatim>\<open>EFD_NONBLOCK\<close> event descriptor fails when the counter is full.\<close>

definition eventfd_max :: nat where
  "eventfd_max = 18446744073709551614"

section \<open>Threads\<close>

definition isInLoopThread :: "loop_id \<Rightarrow> ('f, 'z) ev_world_scheme \<Rightarrow> bool" where
  "isInLoopThread l w \<longleftrightarrow> threadId (loops w l) = self w"

definition assertInLoopThread :: "loop_id \<Rightarrow> ('f, 'z) ev_world_scheme \<Rightarrow> ('f, 'z) ev_world_scheme" where
  "assertInLoopThread l w = check (isInLoopThread l w) NotInLoopThread w"

section \<open>Waking the loop up, quitting it, queueing tasks\<close>

definition wakeup :: "loop_id \<Rightarrow> ('f, 'z) ev_world_scheme \<Rightarrow> ('f, 'z) ev_world_scheme" where
  "wakeup l w =
     (if wakeupCount (loops w l) < eventfd_max
      then upd_loop l (\<lambda>L. L\<lparr>wakeupCount := Suc (wakeupCount L)\<rparr>) w
      else w)"

definition handleRead :: "loop_id \<Rightarrow> ('f, 'z) ev_world_scheme \<Rightarrow> ('f, 'z) ev_world_scheme" where
  "handleRead l w = upd_loop l (\<lambda>L. L\<lparr>wakeupCount := 0\<rparr>) w"

text \<open>
  \<^verbatim>\<open>quit\<close> and \<^verbatim>\<open>pushTask\<close> may run in any thread: the write of the flag and the test that
  follows it are two steps, and so are the critical section of \<^verbatim>\<open>pushTask\<close> and the test behind it.
\<close>

definition quit_set :: "loop_id \<Rightarrow> ('f, 'z) ev_world_scheme \<Rightarrow> ('f, 'z) ev_world_scheme" where
  "quit_set l w = upd_loop l (\<lambda>L. L\<lparr>quit := True\<rparr>) w"

definition quit_wake :: "loop_id \<Rightarrow> ('f, 'z) ev_world_scheme \<Rightarrow> ('f, 'z) ev_world_scheme" where
  "quit_wake l w = (if \<not> doingTask (loops w l) then wakeup l w else w)"

definition quit_loop :: "loop_id \<Rightarrow> ('f, 'z) ev_world_scheme \<Rightarrow> ('f, 'z) ev_world_scheme" where
  "quit_loop l w = quit_wake l (quit_set l w)"

definition pushTask_locked :: "loop_id \<Rightarrow> 'f \<Rightarrow> ('f, 'z) ev_world_scheme \<Rightarrow> ('f, 'z) ev_world_scheme" where
  "pushTask_locked l cb w = upd_loop l (\<lambda>L. L\<lparr>taskQueue := taskQueue L @ [cb]\<rparr>) w"

definition pushTask_wake :: "loop_id \<Rightarrow> ('f, 'z) ev_world_scheme \<Rightarrow> ('f, 'z) ev_world_scheme" where
  "pushTask_wake l w = (if \<not> isInLoopThread l w \<or> doingTask (loops w l) then wakeup l w else w)"

definition pushTask :: "loop_id \<Rightarrow> 'f \<Rightarrow> ('f, 'z) ev_world_scheme \<Rightarrow> ('f, 'z) ev_world_scheme" where
  "pushTask l cb w = pushTask_wake l (pushTask_locked l cb w)"

lemmas quit_defs = quit_loop_def quit_wake_def quit_set_def

lemmas pushTask_defs = pushTask_def pushTask_wake_def pushTask_locked_def

text \<open>\<open>runTask l run cb\<close>: \<open>run\<close> is what calling \<open>cb\<close> does.\<close>

definition runTask ::
  "loop_id \<Rightarrow> (('f, 'z) ev_world_scheme \<Rightarrow> ('f, 'z) ev_world_scheme) \<Rightarrow> 'f \<Rightarrow>
   ('f, 'z) ev_world_scheme \<Rightarrow> ('f, 'z) ev_world_scheme" where
  "runTask l run cb w = (if isInLoopThread l w then run w else pushTask l cb w)"

text \<open>
  \<open>exec f\<close> is what calling the functor \<open>f\<close> does. The queue is swapped out under the
  lock first, so a task pushed by a running task is left for the next call.
\<close>

definition doTask_swap :: "loop_id \<Rightarrow> ('f, 'z) ev_world_scheme \<Rightarrow> 'f list \<times> ('f, 'z) ev_world_scheme" where
  "doTask_swap l w =
     (let w1 = upd_loop l (\<lambda>L. L\<lparr>doingTask := True\<rparr>) w;
          functors = taskQueue (loops w1 l)
      in (functors, upd_loop l (\<lambda>L. L\<lparr>taskQueue := []\<rparr>) w1))"

definition doTask_end :: "loop_id \<Rightarrow> ('f, 'z) ev_world_scheme \<Rightarrow> ('f, 'z) ev_world_scheme" where
  "doTask_end l w = upd_loop l (\<lambda>L. L\<lparr>doingTask := False\<rparr>) w"

definition doTask ::
  "('f \<Rightarrow> ('f, 'z) ev_world_scheme \<Rightarrow> ('f, 'z) ev_world_scheme) \<Rightarrow> loop_id \<Rightarrow>
   ('f, 'z) ev_world_scheme \<Rightarrow> ('f, 'z) ev_world_scheme" where
  "doTask exec l w = (case doTask_swap l w of (functors, w2) \<Rightarrow> doTask_end l (fold exec functors w2))"

lemmas doTask_defs = doTask_def doTask_swap_def doTask_end_def

section \<open>Registering channels\<close>

definition updateChannel :: "chan_id \<Rightarrow> ('f, 'z) ev_world_scheme \<Rightarrow> ('f, 'z) ev_world_scheme" where
  "updateChannel ch w =
     (let c = chans w ch; l = ch_loop c; ev = (ch_events c, ch) in
      if ch_state c = NEW \<or> ch_state c = DELETE then
        let w1 =
          (if ch_state c = NEW then
             upd_loop l (\<lambda>L. L\<lparr>channels := (channels L)(ch_fd c \<mapsto> ch)\<rparr>)
               (check (channels (loops w l) (ch_fd c) = None) NewChannelKnown w)
           else check (channels (loops w l) (ch_fd c) \<noteq> None) OldChannelUnknown w)
        in upd_loop l (\<lambda>L. L\<lparr>epoll := epoll_ctl CTL_ADD (ch_fd c) ev (epoll L)\<rparr>)
             (upd_chan ch (\<lambda>c. c\<lparr>ch_state := ADD\<rparr>) w1)
      else if isNoneEvent c then
        upd_chan ch (\<lambda>c. c\<lparr>ch_state := DELETE\<rparr>)
          (upd_loop l (\<lambda>L. L\<lparr>epoll := epoll_ctl CTL_DEL (ch_fd c) ev (epoll L)\<rparr>) w)
      else
        upd_loop l (\<lambda>L. L\<lparr>epoll := epoll_ctl CTL_MOD (ch_fd c) ev (epoll L)\<rparr>) w)"

definition removeChannel :: "chan_id \<Rightarrow> ('f, 'z) ev_world_scheme \<Rightarrow> ('f, 'z) ev_world_scheme" where
  "removeChannel ch w =
     (let c = chans w ch; l = ch_loop c;
          w1 = upd_loop l (\<lambda>L. L\<lparr>channels := (channels L)(ch_fd c := None)\<rparr>)
                 (check (channels (loops w l) (ch_fd c) \<noteq> None) RemoveUnknown w);
          w2 = (if ch_state c = ADD
                then upd_loop l (\<lambda>L. L\<lparr>epoll := epoll_ctl CTL_DEL (ch_fd c) (ch_events c, ch) (epoll L)\<rparr>) w1
                else w1)
      in upd_chan ch (\<lambda>c. c\<lparr>ch_state := NEW\<rparr>) w2)"

definition set_events ::
  "(32 word \<Rightarrow> 32 word) \<Rightarrow> chan_id \<Rightarrow> ('f, 'z) ev_world_scheme \<Rightarrow> ('f, 'z) ev_world_scheme" where
  "set_events g ch w = updateChannel ch (upd_chan ch (\<lambda>c. c\<lparr>ch_events := g (ch_events c)\<rparr>) w)"

definition disableSend :: "chan_id \<Rightarrow> ('f, 'z) ev_world_scheme \<Rightarrow> ('f, 'z) ev_world_scheme" where
  "disableSend = set_events (\<lambda>e. e AND NOT SendEvent)"

definition enableSend :: "chan_id \<Rightarrow> ('f, 'z) ev_world_scheme \<Rightarrow> ('f, 'z) ev_world_scheme" where
  "enableSend = set_events (\<lambda>e. e OR SendEvent)"

definition disableRecv :: "chan_id \<Rightarrow> ('f, 'z) ev_world_scheme \<Rightarrow> ('f, 'z) ev_world_scheme" where
  "disableRecv = set_events (\<lambda>e. e AND NOT RecvEvent)"

definition enableRecv :: "chan_id \<Rightarrow> ('f, 'z) ev_world_scheme \<Rightarrow> ('f, 'z) ev_world_scheme" where
  "enableRecv = set_events (\<lambda>e. e OR RecvEvent)"

definition disableAll :: "chan_id \<Rightarrow> ('f, 'z) ev_world_scheme \<Rightarrow> ('f, 'z) ev_world_scheme" where
  "disableAll = set_events (\<lambda>e. NoneEvent)"

text \<open>\<^verbatim>\<open>Channel::remove\<close>.\<close>

definition remove_chan :: "chan_id \<Rightarrow> ('f, 'z) ev_world_scheme \<Rightarrow> ('f, 'z) ev_world_scheme" where
  "remove_chan ch w = removeChannel ch (check (isNoneEvent (chans w ch)) ChannelNotNone w)"

lemmas chan_op_defs = disableSend_def enableSend_def disableRecv_def enableRecv_def disableAll_def

section \<open>Dispatching events\<close>

text \<open>The four callbacks of a channel; \<^const>\<open>None\<close> is an empty \<^verbatim>\<open>std::function\<close>.\<close>

record 'w chan_callbacks =
  recvCallback :: "(int \<Rightarrow> 'w \<Rightarrow> 'w) option"
  sendCallback :: "('w \<Rightarrow> 'w) option"
  closeCallback :: "('w \<Rightarrow> 'w) option"
  errorCallback :: "('w \<Rightarrow> 'w) option"

definition call :: "('w \<Rightarrow> 'w) option \<Rightarrow> 'w \<Rightarrow> 'w" where
  "call f w = (case f of None \<Rightarrow> w | Some g \<Rightarrow> g w)"

definition has :: "32 word \<Rightarrow> 32 word \<Rightarrow> bool" where
  "has got ev \<longleftrightarrow> got AND ev \<noteq> 0"

definition handleEventsWithGuard ::
  "('f, 'z) ev_world_scheme chan_callbacks \<Rightarrow> chan_id \<Rightarrow> int \<Rightarrow>
   ('f, 'z) ev_world_scheme \<Rightarrow> ('f, 'z) ev_world_scheme" where
  "handleEventsWithGuard cbs ch t w =
     (let got = (\<lambda>w. ch_revents (chans w ch));
          w1 = upd_chan ch (\<lambda>c. c\<lparr>ch_handling := True\<rparr>) w;
          w2 = (if has (got w1) EPOLLHUP \<and> \<not> has (got w1) EPOLLIN then call (closeCallback cbs) w1 else w1);
          w3 = (if has (got w2) EPOLLERR then call (errorCallback cbs) w2 else w2);
          w4 = (if has (got w3) (EPOLLIN OR EPOLLPRI OR EPOLLRDHUP)
                then call (map_option (\<lambda>f. f t) (recvCallback cbs)) w3 else w3);
          w5 = (if has (got w4) EPOLLOUT then call (sendCallback cbs) w4 else w4)
      in upd_chan ch (\<lambda>c. c\<lparr>ch_handling := False\<rparr>) w5)"

text \<open>
  \<open>alive owner w\<close> is the outcome of \<^verbatim>\<open>tie_.lock()\<close>: whether some shared pointer to
  the owner is left.
\<close>

definition handleEvents ::
  "(nat \<Rightarrow> ('f, 'z) ev_world_scheme \<Rightarrow> bool) \<Rightarrow> ('f, 'z) ev_world_scheme chan_callbacks \<Rightarrow>
   chan_id \<Rightarrow> int \<Rightarrow> ('f, 'z) ev_world_scheme \<Rightarrow> ('f, 'z) ev_world_scheme" where
  "handleEvents alive cbs ch t w =
     (if ch_tied (chans w ch)
      then if alive (ch_tie (chans w ch)) w then handleEventsWithGuard cbs ch t w else w
      else handleEventsWithGuard cbs ch t w)"

text \<open>
  What \<^verbatim>\<open>epoll_wait\<close> returned: an error, or the ready channels with their events, each
  with the time of the day read before it is handled (an empty list is the timeout).
\<close>

datatype poll_result = PollError | PollEvents "(chan_id \<times> 32 word \<times> int) list"

definition handle_one ::
  "(nat \<Rightarrow> ('f, 'z) ev_world_scheme \<Rightarrow> bool) \<Rightarrow> (chan_id \<Rightarrow> ('f, 'z) ev_world_scheme chan_callbacks) \<Rightarrow>
   chan_id \<times> 32 word \<times> int \<Rightarrow> ('f, 'z) ev_world_scheme \<Rightarrow> ('f, 'z) ev_world_scheme" where
  "handle_one alive cbs e w =
     (case e of (ch, got, t) \<Rightarrow>
        handleEvents alive (cbs ch) ch t (upd_chan ch (\<lambda>c. c\<lparr>ch_revents := got\<rparr>) w))"

text \<open>
  The body of the \<^verbatim>\<open>while\<close> loop after \<^verbatim>\<open>epoll_wait\<close>, and the loop over the results
  of successive polls. The outcome says whether \<^verbatim>\<open>loop()\<close> has returned; a run whose
  list of results is used up is blocked in \<^verbatim>\<open>epoll_wait\<close>.
\<close>

definition loop_body ::
  "(nat \<Rightarrow> ('f, 'z) ev_world_scheme \<Rightarrow> bool) \<Rightarrow> (chan_id \<Rightarrow> ('f, 'z) ev_world_scheme chan_callbacks) \<Rightarrow>
   ('f \<Rightarrow> ('f, 'z) ev_world_scheme \<Rightarrow> ('f, 'z) ev_world_scheme) \<Rightarrow> loop_id \<Rightarrow>
   (chan_id \<times> 32 word \<times> int) list \<Rightarrow> ('f, 'z) ev_world_scheme \<Rightarrow> ('f, 'z) ev_world_scheme" where
  "loop_body alive cbs exec l evs w =
     (if evs = [] then w
      else
        let w1 = fold (handle_one alive cbs) evs w;
            w2 = (if length evs = eventsSize (loops w1 l)
                  then upd_loop l (\<lambda>L. L\<lparr>eventsSize := eventsSize L * 2\<rparr>) w1 else w1)
        in doTask exec l w2)"

datatype loop_outcome = Returned | Blocked

fun loop_while ::
  "(nat \<Rightarrow> ('f, 'z) ev_world_scheme \<Rightarrow> bool) \<Rightarrow> (chan_id \<Rightarrow> ('f, 'z) ev_world_scheme chan_callbacks) \<Rightarrow>
   ('f \<Rightarrow> ('f, 'z) ev_world_scheme \<Rightarrow> ('f, 'z) ev_world_scheme) \<Rightarrow> loop_id \<Rightarrow>
   poll_result list \<Rightarrow> ('f, 'z) ev_world_scheme \<Rightarrow> loop_outcome \<times> ('f, 'z) ev_world_scheme" where
  "loop_while alive cbs exec l prs w =
     (if quit (loops w l) then (Returned, w)
      else case prs of
        [] \<Rightarrow> (Blocked, w)
      | PollError # _ \<Rightarrow> (Returned, w)
      | PollEvents evs # prs' \<Rightarrow> loop_while alive cbs exec l prs' (loop_body alive cbs exec l evs w))"

declare loop_while.simps [simp del]

definition loop_enter :: "loop_id \<Rightarrow> ('f, 'z) ev_world_scheme \<Rightarrow> ('f, 'z) ev_world_scheme" where
  "loop_enter l w = upd_loop l (\<lambda>L. L\<lparr>quit := False\<rparr>) (assertInLoopThread l w)"

definition loop_run ::
  "(nat \<Rightarrow> ('f, 'z) ev_world_scheme \<Rightarrow> bool) \<Rightarrow> (chan_id \<Rightarrow> ('f, 'z) ev_world_scheme chan_callbacks) \<Rightarrow>
   ('f \<Rightarrow> ('f, 'z) ev_world_scheme \<Rightarrow> ('f, 'z) ev_world_scheme) \<Rightarrow> loop_id \<Rightarrow>
   poll_result list \<Rightarrow> ('f, 'z) ev_world_scheme \<Rightarrow> loop_outcome \<times> ('f, 'z) ev_world_scheme" where
  "loop_run alive cbs exec l prs w =
     loop_while alive cbs exec l prs (loop_enter l w)"

section \<open>Construction and destruction\<close>

text \<open>
  The constructor runs in the thread that owns the loop. \<^verbatim>\<open>LOG_FATAL\<close> ends the program
  when the thread has a loop already: the result is then \<^const>\<open>None\<close>. \<open>f\<close> is the
  descriptor of the event counter.
\<close>

definition EventLoop_ctor ::
  "loop_id \<Rightarrow> fd \<Rightarrow> ('f, 'z) ev_world_scheme \<Rightarrow> ('f, 'z) ev_world_scheme option" where
  "EventLoop_ctor l f w =
     (case threadLoop w (self w) of
        Some _ \<Rightarrow> None
      | None \<Rightarrow>
          let w1 = w\<lparr>loops := (loops w)(l := \<lparr>quit = False, doingTask = False, threadId = self w,
                       wakeupFd = f, wakeupChannel = WakeupChan l, wakeupCount = 0, eventsSize = 32,
                       channels = Map.empty, taskQueue = [], timers = Map.empty, epoll = Map.empty\<rparr>),
                     chans := (chans w)(WakeupChan l := Channel_ctor l f),
                     threadLoop := (threadLoop w)(self w \<mapsto> l)\<rparr>
          in Some (enableRecv (WakeupChan l) w1))"

text \<open>The epoll descriptor is closed first: the interest list is gone.\<close>

definition EventLoop_dtor :: "loop_id \<Rightarrow> ('f, 'z) ev_world_scheme \<Rightarrow> ('f, 'z) ev_world_scheme" where
  "EventLoop_dtor l w =
     (let ch = wakeupChannel (loops w l);
          w1 = upd_loop l (\<lambda>L. L\<lparr>epoll := Map.empty\<rparr>) w;
          w2 = remove_chan ch (disableAll ch w1)
      in w2\<lparr>threadLoop := (threadLoop w2)(self w2 := None)\<rparr>)"

end
