(* ===== verification/LoopReg.thy ===== *)
theory LoopReg
  imports EventLoop
begin

text \<open>
  The registration of channels: what \<^const>\<open>set_events\<close> and \<^const>\<open>remove_chan\<close> change,
  the invariant that ties the loop's \<^verbatim>\<open>channels_\<close> map and the kernel's interest list
  to the states and masks of the channels, and its preservation.
\<close>

section \<open>Effects\<close>

definition next_state :: "channel \<Rightarrow> 32 word \<Rightarrow> ChannelState" where
  "next_state c e = (if ch_state c = ADD \<and> e = NoneEvent then DELETE else ADD)"

lemma set_events_chans [effect]:
  "chans (set_events g ch w) =
     (chans w)(ch := (chans w ch)\<lparr>ch_events := g (ch_events (chans w ch)),
                       ch_state := next_state (chans w ch) (g (ch_events (chans w ch)))\<rparr>)"
  by (cases "ch_state (chans w ch)")
     (auto simp: set_events_def updateChannel_def Let_def next_state_def isNoneEvent_def)

lemma remove_chan_chans [effect]:
  "chans (remove_chan ch w) = (chans w)(ch := (chans w ch)\<lparr>ch_state := NEW\<rparr>)"
  by (simp add: remove_chan_def removeChannel_def Let_def)

definition loop_rest :: "'f eventloop \<Rightarrow> 'f eventloop" where
  "loop_rest L = L\<lparr>channels := Map.empty, epoll := Map.empty\<rparr>"

text \<open>Both operations change nothing of a loop but its \<^verbatim>\<open>channels_\<close> and interest list.\<close>

lemma set_events_rest [frame]:
  "self (set_events g ch w) = self w"
  "threadLoop (set_events g ch w) = threadLoop w"
  "ev_world.more (set_events g ch w) = ev_world.more w"
  "quit (loops (set_events g ch w) l) = quit (loops w l)"
  "doingTask (loops (set_events g ch w) l) = doingTask (loops w l)"
  "threadId (loops (set_events g ch w) l) = threadId (loops w l)"
  "wakeupCount (loops (set_events g ch w) l) = wakeupCount (loops w l)"
  "wakeupChannel (loops (set_events g ch w) l) = wakeupChannel (loops w l)"
  "eventsSize (loops (set_events g ch w) l) = eventsSize (loops w l)"
  "timers (loops (set_events g ch w) l) = timers (loops w l)"
  "taskQueue (loops (set_events g ch w) l) = taskQueue (loops w l)"
  by (simp_all add: set_events_def updateChannel_def Let_def)

lemma remove_chan_rest [frame]:
  "self (remove_chan ch w) = self w"
  "threadLoop (remove_chan ch w) = threadLoop w"
  "ev_world.more (remove_chan ch w) = ev_world.more w"
  "quit (loops (remove_chan ch w) l) = quit (loops w l)"
  "doingTask (loops (remove_chan ch w) l) = doingTask (loops w l)"
  "threadId (loops (remove_chan ch w) l) = threadId (loops w l)"
  "wakeupCount (loops (remove_chan ch w) l) = wakeupCount (loops w l)"
  "wakeupChannel (loops (remove_chan ch w) l) = wakeupChannel (loops w l)"
  "eventsSize (loops (remove_chan ch w) l) = eventsSize (loops w l)"
  "timers (loops (remove_chan ch w) l) = timers (loops w l)"
  "taskQueue (loops (remove_chan ch w) l) = taskQueue (loops w l)"
  by (simp_all add: remove_chan_def removeChannel_def Let_def)

lemma isInLoopThread_frame [frame]:
  "isInLoopThread l (set_events g ch w) = isInLoopThread l w"
  "isInLoopThread l (remove_chan ch w) = isInLoopThread l w"
  "isInLoopThread l (upd_chan ch h w) = isInLoopThread l w"
  "isInLoopThread l (check b a w) = isInLoopThread l w"
  by (simp_all add: isInLoopThread_def frame)

section \<open>The invariant\<close>

text \<open>
  A descriptor is in \<^verbatim>\<open>channels_\<close> exactly when a channel on it is not \<open>NEW\<close>; it is in
  the interest list exactly when that channel is \<open>ADD\<close>, with the mask the channel has;
  and a channel that is \<open>DELETE\<close> has no event left.
\<close>

definition reg_inv :: "('f, 'z) ev_world_scheme \<Rightarrow> bool" where
  "reg_inv w \<longleftrightarrow>
     (\<forall>l f ch. channels (loops w l) f = Some ch \<longleftrightarrow>
        ch_state (chans w ch) \<noteq> NEW \<and> ch_loop (chans w ch) = l \<and> ch_fd (chans w ch) = f) \<and>
     (\<forall>l f ev ch. epoll (loops w l) f = Some (ev, ch) \<longleftrightarrow>
        ch_state (chans w ch) = ADD \<and> ch_loop (chans w ch) = l \<and> ch_fd (chans w ch) = f \<and>
        ch_events (chans w ch) = ev) \<and>
     (\<forall>ch. ch_state (chans w ch) = DELETE \<longrightarrow> isNoneEvent (chans w ch))"

lemma reg_channels:
  "reg_inv w \<Longrightarrow> channels (loops w l) f = Some ch \<longleftrightarrow>
     ch_state (chans w ch) \<noteq> NEW \<and> ch_loop (chans w ch) = l \<and> ch_fd (chans w ch) = f"
  by (simp add: reg_inv_def)

lemma reg_epoll:
  "reg_inv w \<Longrightarrow> epoll (loops w l) f = Some (ev, ch) \<longleftrightarrow>
     ch_state (chans w ch) = ADD \<and> ch_loop (chans w ch) = l \<and> ch_fd (chans w ch) = f \<and>
     ch_events (chans w ch) = ev"
  by (simp add: reg_inv_def)

lemma reg_delete: "reg_inv w \<Longrightarrow> ch_state (chans w ch) = DELETE \<Longrightarrow> isNoneEvent (chans w ch)"
  by (simp add: reg_inv_def)

text \<open>At most one registered channel per descriptor and loop.\<close>

lemma reg_unique:
  assumes inv: "reg_inv w" and "ch_state (chans w a) \<noteq> NEW" "ch_state (chans w b) \<noteq> NEW"
    and "ch_loop (chans w a) = ch_loop (chans w b)" "ch_fd (chans w a) = ch_fd (chans w b)"
  shows "a = b"
proof -
  have "channels (loops w (ch_loop (chans w a))) (ch_fd (chans w a)) = Some a"
    by (rule reg_channels [OF inv, THEN iffD2]) (simp add: assms(2))
  moreover have "channels (loops w (ch_loop (chans w a))) (ch_fd (chans w a)) = Some b"
    by (rule reg_channels [OF inv, THEN iffD2]) (simp add: assms(3-))
  ultimately show ?thesis by simp
qed

lemma reg_fresh_epoll:
  assumes inv: "reg_inv w" and free: "channels (loops w l) f = None"
  shows "epoll (loops w l) f = None"
proof (rule ccontr)
  assume "epoll (loops w l) f \<noteq> None"
  then obtain ev ch where "epoll (loops w l) f = Some (ev, ch)" by auto
  with inv have "channels (loops w l) f = Some ch"
    by (simp add: reg_epoll reg_channels)
  with free show False by simp
qed

lemma reg_delete_epoll:
  assumes inv: "reg_inv w" and del: "ch_state (chans w ch) = DELETE"
  shows "epoll (loops w (ch_loop (chans w ch))) (ch_fd (chans w ch)) = None"
proof (rule ccontr)
  assume "epoll (loops w (ch_loop (chans w ch))) (ch_fd (chans w ch)) \<noteq> None"
  then obtain ev b where e: "epoll (loops w (ch_loop (chans w ch))) (ch_fd (chans w ch)) = Some (ev, b)"
    by auto
  note b = reg_epoll [OF inv, THEN iffD1, OF e]
  have "b = ch" by (rule reg_unique [OF inv]) (simp_all add: b del)
  with b del show False by simp
qed

text \<open>A channel may be (re)registered when no other channel holds its descriptor.\<close>

definition can_register :: "chan_id \<Rightarrow> ('f, 'z) ev_world_scheme \<Rightarrow> bool" where
  "can_register ch w \<longleftrightarrow>
     (ch_state (chans w ch) = NEW \<longrightarrow>
        channels (loops w (ch_loop (chans w ch))) (ch_fd (chans w ch)) = None)"

lemma set_events_loops_NEW:
  assumes "ch_state (chans w ch) = NEW"
  shows "loops (set_events g ch w) =
    (loops w)(ch_loop (chans w ch) :=
      (loops w (ch_loop (chans w ch)))
        \<lparr>channels := (channels (loops w (ch_loop (chans w ch))))(ch_fd (chans w ch) \<mapsto> ch),
         epoll := epoll_ctl CTL_ADD (ch_fd (chans w ch)) (g (ch_events (chans w ch)), ch)
                    (epoll (loops w (ch_loop (chans w ch))))\<rparr>)"
  using assms by (simp add: set_events_def updateChannel_def Let_def)

lemma set_events_loops_DELETE:
  assumes "ch_state (chans w ch) = DELETE"
  shows "loops (set_events g ch w) =
    (loops w)(ch_loop (chans w ch) :=
      (loops w (ch_loop (chans w ch)))
        \<lparr>epoll := epoll_ctl CTL_ADD (ch_fd (chans w ch)) (g (ch_events (chans w ch)), ch)
                    (epoll (loops w (ch_loop (chans w ch))))\<rparr>)"
  using assms by (simp add: set_events_def updateChannel_def Let_def)

lemma set_events_loops_ADD:
  assumes "ch_state (chans w ch) = ADD"
  shows "loops (set_events g ch w) =
    (loops w)(ch_loop (chans w ch) :=
      (loops w (ch_loop (chans w ch)))
        \<lparr>epoll := epoll_ctl (if g (ch_events (chans w ch)) = NoneEvent then CTL_DEL else CTL_MOD)
                    (ch_fd (chans w ch)) (g (ch_events (chans w ch)), ch)
                    (epoll (loops w (ch_loop (chans w ch))))\<rparr>)"
  using assms by (simp add: set_events_def updateChannel_def Let_def isNoneEvent_def)

lemma set_events_reg:
  assumes inv: "reg_inv w" and can: "can_register ch w"
  shows "reg_inv (set_events g ch w)"
proof -
  define c where "c = chans w ch"
  note R = reg_channels [OF inv] reg_epoll [OF inv]
  have uniq: "a = ch" if "ch_state (chans w a) \<noteq> NEW" "ch_loop (chans w a) = ch_loop c"
    "ch_fd (chans w a) = ch_fd c" for a
  proof (cases "ch_state c = NEW")
    case True
    with can have "channels (loops w (ch_loop c)) (ch_fd c) = None"
      by (simp add: can_register_def c_def)
    with that R(1) [of "ch_loop c" "ch_fd c" a] show ?thesis by simp
  next
    case False
    with that show ?thesis using reg_unique [OF inv, of a ch] by (simp add: c_def)
  qed
  show ?thesis
  proof (cases "ch_state c")
    case NEW
    with can have free: "channels (loops w (ch_loop c)) (ch_fd c) = None"
      by (simp add: can_register_def c_def)
    have free': "epoll (loops w (ch_loop c)) (ch_fd c) = None"
      by (rule reg_fresh_epoll [OF inv free])
    note S = set_events_loops_NEW [OF NEW [unfolded c_def]] set_events_chans
    show ?thesis
      unfolding reg_inv_def S
      using NEW free free' uniq reg_delete [OF inv]
      by (auto simp: c_def R epoll_ctl_def next_state_def isNoneEvent_def)
  next
    case ADD
    define m where "m = epoll (loops w (ch_loop c))"
    have "m (ch_fd c) = Some (ch_events c, ch)"
      using R(2) [of "ch_loop c" "ch_fd c" "ch_events c" ch] ADD by (simp add: c_def m_def)
    then have E: "epoll_ctl (if e = NoneEvent then CTL_DEL else CTL_MOD) (ch_fd c) (e, ch) m =
        m(ch_fd c := (if e = NoneEvent then None else Some (e, ch)))" for e
      by (simp add: epoll_ctl_def)
    note S = set_events_loops_ADD [OF ADD [unfolded c_def]] set_events_chans
    show ?thesis
      unfolding reg_inv_def S E [unfolded m_def c_def]
      using ADD uniq reg_delete [OF inv]
      by (auto simp: c_def R next_state_def isNoneEvent_def)
  next
    case DELETE
    have free': "epoll (loops w (ch_loop c)) (ch_fd c) = None"
      using reg_delete_epoll [OF inv, of ch] DELETE by (simp add: c_def)
    note S = set_events_loops_DELETE [OF DELETE [unfolded c_def]] set_events_chans
    show ?thesis
      unfolding reg_inv_def S
      using DELETE free' uniq reg_delete [OF inv]
      by (auto simp: c_def R epoll_ctl_def next_state_def isNoneEvent_def)
  qed
qed

lemma remove_chan_loops:
  "loops (remove_chan ch w) =
    (loops w)(ch_loop (chans w ch) :=
      (loops w (ch_loop (chans w ch)))
        \<lparr>channels := (channels (loops w (ch_loop (chans w ch))))(ch_fd (chans w ch) := None),
         epoll := (if ch_state (chans w ch) = ADD
                   then (epoll (loops w (ch_loop (chans w ch))))(ch_fd (chans w ch) := None)
                   else epoll (loops w (ch_loop (chans w ch))))\<rparr>)"
  by (simp add: remove_chan_def removeChannel_def Let_def epoll_ctl_def)

lemma remove_chan_reg:
  assumes inv: "reg_inv w" and reg: "ch_state (chans w ch) \<noteq> NEW"
  shows "reg_inv (remove_chan ch w)"
proof -
  define c where "c = chans w ch"
  note R = reg_channels [OF inv] reg_epoll [OF inv]
  have uniq: "a = ch" if "ch_state (chans w a) \<noteq> NEW" "ch_loop (chans w a) = ch_loop c"
    "ch_fd (chans w a) = ch_fd c" for a
    by (rule reg_unique [OF inv]) (use that reg in \<open>simp_all add: c_def\<close>)
  show ?thesis
  proof (cases "ch_state c = ADD")
    case True
    then show ?thesis
      unfolding reg_inv_def remove_chan_loops remove_chan_chans
      using uniq reg_delete [OF inv] by (auto simp: c_def R isNoneEvent_def)
  next
    case False
    with reg have del: "ch_state (chans w ch) = DELETE" by (cases "ch_state c") (auto simp: c_def)
    show ?thesis
      unfolding reg_inv_def remove_chan_loops remove_chan_chans
      using del uniq reg_delete [OF inv] reg_delete_epoll [OF inv del]
      by (auto simp: c_def R isNoneEvent_def)
  qed
qed

section \<open>Assertions\<close>

text \<open>Under the invariant the assertions of \<^verbatim>\<open>updateChannel\<close> and \<^verbatim>\<open>removeChannel\<close> hold.\<close>

lemma set_events_violations [effect]:
  assumes inv: "reg_inv w" and can: "can_register ch w"
  shows "violations (set_events g ch w) = violations w"
proof (cases "ch_state (chans w ch)")
  case NEW
  with can show ?thesis
    by (simp add: set_events_def updateChannel_def Let_def can_register_def)
next
  case ADD
  then show ?thesis by (simp add: set_events_def updateChannel_def Let_def)
next
  case DELETE
  then have "channels (loops w (ch_loop (chans w ch))) (ch_fd (chans w ch)) = Some ch"
    by (intro reg_channels [OF inv, THEN iffD2]) simp
  with DELETE show ?thesis by (simp add: set_events_def updateChannel_def Let_def)
qed

lemma remove_chan_violations [effect]:
  assumes inv: "reg_inv w" and reg: "ch_state (chans w ch) \<noteq> NEW"
    and none: "isNoneEvent (chans w ch)"
  shows "violations (remove_chan ch w) = violations w"
proof -
  have "channels (loops w (ch_loop (chans w ch))) (ch_fd (chans w ch)) = Some ch"
    using reg by (intro reg_channels [OF inv, THEN iffD2]) simp
  with none show ?thesis by (simp add: remove_chan_def removeChannel_def Let_def)
qed

lemma can_register_known: "ch_state (chans w ch) \<noteq> NEW \<Longrightarrow> can_register ch w"
  by (simp add: can_register_def)

text \<open>The invariant reads only part of the state.\<close>

lemma reg_inv_cong:
  assumes "\<And>l. channels (loops w' l) = channels (loops w l)"
    and "\<And>l. epoll (loops w' l) = epoll (loops w l)"
    and "\<And>ch. ch_state (chans w' ch) = ch_state (chans w ch)"
    and "\<And>ch. ch_loop (chans w' ch) = ch_loop (chans w ch)"
    and "\<And>ch. ch_fd (chans w' ch) = ch_fd (chans w ch)"
    and "\<And>ch. ch_events (chans w' ch) = ch_events (chans w ch)"
  shows "reg_inv w' = reg_inv w"
  using assms by (simp add: reg_inv_def isNoneEvent_def)

lemma reg_inv_boot: "reg_inv (boot_world t)"
  by (simp add: reg_inv_def boot_world_def boot_loop_def Channel_ctor_def)

lemma reg_inv_new_channel:
  assumes inv: "reg_inv w" and new: "ch_state (chans w ch) = NEW"
  shows "reg_inv (w\<lparr>chans := (chans w)(ch := Channel_ctor l f)\<rparr>)"
  unfolding reg_inv_def using new reg_delete [OF inv]
  by (auto simp: reg_channels [OF inv] reg_epoll [OF inv] Channel_ctor_def isNoneEvent_def)

section \<open>Properties\<close>

text \<open>
  C15. Every operation that changes the interest of a channel (\<^verbatim>\<open>enableSend\<close>,
  \<^verbatim>\<open>disableSend\<close>, \<^verbatim>\<open>enableRecv\<close>, \<^verbatim>\<open>disableRecv\<close>, \<^verbatim>\<open>disableAll\<close>) keeps the
  registration invariant (a descriptor is in \<^verbatim>\<open>channels_\<close> exactly when its channel is
  not \<open>NEW\<close>, and in the kernel's interest list, with the channel's own mask, exactly when
  it is \<open>ADD\<close>) and fails no assertion of \<^verbatim>\<open>updateChannel\<close>, whatever state the channel
  is in, provided that no other channel holds the descriptor of a channel registered for
  the first time.
\<close>

theorem interest_ops_keep_registration:
  assumes "reg_inv w" "can_register ch w"
    and "f \<in> {enableSend, disableSend, enableRecv, disableRecv, disableAll}"
  shows "reg_inv (f ch w) \<and> violations (f ch w) = violations w"
  using assms by (auto simp: chan_op_defs intro: set_events_reg set_events_violations)

definition reg_example :: "nat ev_world" where
  "reg_example = enableRecv (ConnChan 3)
     ((boot_world 0 :: nat ev_world)
        \<lparr>chans := (chans (boot_world 0 :: nat ev_world))(ConnChan 3 := Channel_ctor 0 7)\<rparr>)"

lemma can_register_example:
  "can_register (ConnChan 3) ((boot_world 0 :: nat ev_world)
     \<lparr>chans := (chans (boot_world 0 :: nat ev_world))(ConnChan 3 := Channel_ctor 0 7)\<rparr>)"
  by (simp add: can_register_def boot_world_def boot_loop_def)

lemma reg_example_inv: "reg_inv reg_example"
  unfolding reg_example_def chan_op_defs
  by (intro set_events_reg reg_inv_new_channel reg_inv_boot can_register_example)
     (simp add: boot_world_def Channel_ctor_def)

lemma reg_example_state: "ch_state (chans reg_example (ConnChan 3)) = ADD" "ch_events (chans reg_example (ConnChan 3)) = EPOLLIN"
  by (simp_all add: reg_example_def chan_op_defs effect next_state_def Channel_ctor_def event_defs)

theorem interest_ops_keep_registration_witness:
  "reg_inv (disableAll (ConnChan 3) reg_example) \<and>
   violations (disableAll (ConnChan 3) reg_example) = violations reg_example"
  by (rule interest_ops_keep_registration)
     (simp_all add: reg_example_inv can_register_known reg_example_state)

text \<open>
  \<^verbatim>\<open>Channel::remove\<close> of a registered channel without events keeps the registration
  invariant, fails no assertion, and leaves the descriptor in neither the loop's
  \<^verbatim>\<open>channels_\<close> nor the kernel's interest list, so that a new channel may be registered
  on it; no other descriptor's entry changes.
\<close>

theorem remove_releases_descriptor:
  assumes inv: "reg_inv w" and reg: "ch_state (chans w ch) \<noteq> NEW" and none: "isNoneEvent (chans w ch)"
  defines "w' \<equiv> remove_chan ch w" and "l \<equiv> ch_loop (chans w ch)" and "f \<equiv> ch_fd (chans w ch)"
  shows "reg_inv w' \<and> violations w' = violations w \<and>
    channels (loops w' l) f = None \<and> epoll (loops w' l) f = None \<and>
    (\<forall>m e. (m, e) \<noteq> (l, f) \<longrightarrow>
       channels (loops w' m) e = channels (loops w m) e \<and> epoll (loops w' m) e = epoll (loops w m) e)"
proof -
  have free: "channels (loops w' l) f = None"
    by (simp add: w'_def l_def f_def remove_chan_loops)
  have inv': "reg_inv w'" unfolding w'_def by (rule remove_chan_reg [OF inv reg])
  have "violations w' = violations w"
    unfolding w'_def by (rule remove_chan_violations [OF inv reg none])
  moreover have "epoll (loops w' l) f = None" by (rule reg_fresh_epoll [OF inv' free])
  moreover have "\<forall>m e. (m, e) \<noteq> (l, f) \<longrightarrow>
       channels (loops w' m) e = channels (loops w m) e \<and> epoll (loops w' m) e = epoll (loops w m) e"
    by (auto simp: w'_def l_def f_def remove_chan_loops)
  ultimately show ?thesis using free inv' by blast
qed

theorem remove_releases_descriptor_witness:
  "channels (loops (remove_chan (ConnChan 3) (disableAll (ConnChan 3) reg_example)) 0) 7 = None"
proof -
  have inv: "reg_inv (disableAll (ConnChan 3) reg_example)"
    unfolding chan_op_defs
    by (intro set_events_reg reg_example_inv can_register_known) (simp add: reg_example_state)
  have reg: "ch_state (chans (disableAll (ConnChan 3) reg_example) (ConnChan 3)) \<noteq> NEW"
    by (simp add: chan_op_defs effect next_state_def reg_example_state)
  have none: "isNoneEvent (chans (disableAll (ConnChan 3) reg_example) (ConnChan 3))"
    by (simp add: chan_op_defs effect isNoneEvent_def)
  have "ch_loop (chans (disableAll (ConnChan 3) reg_example) (ConnChan 3)) = 0" "ch_fd (chans (disableAll (ConnChan 3) reg_example) (ConnChan 3)) = 7"
    by (simp_all add: reg_example_def chan_op_defs effect Channel_ctor_def)
  with remove_releases_descriptor [OF inv reg none] show ?thesis by simp
qed

text \<open>
  A second \<^verbatim>\<open>disableAll\<close> puts the channel back into the interest list with an empty mask,
  which \<^verbatim>\<open>Problems.md\<close> warns against (the kernel reports a hang-up regardless of the mask).
\<close>

lemma disableAll_twice_registers:
  assumes "reg_inv w" "ch_state (chans w ch) = ADD"
  shows "epoll (loops (disableAll ch (disableAll ch w)) (ch_loop (chans w ch))) (ch_fd (chans w ch))
    = Some (NoneEvent, ch)"
proof -
  have "reg_inv (disableAll ch (disableAll ch w))"
    unfolding chan_op_defs using assms
    by (intro set_events_reg can_register_known) (simp_all add: effect next_state_def)
  then show ?thesis
    by (rule reg_epoll [THEN iffD2]) (simp add: chan_op_defs effect next_state_def assms)
qed

end
