(* ===== verification/LoopTask.thy ===== *)
theory LoopTask
  imports LoopReg
begin

text \<open>
  The task queue and the dispatch of the event loop: what \<^const>\<open>pushTask\<close>,
  \<^const>\<open>wakeup\<close>, \<^const>\<open>doTask\<close> and \<^const>\<open>handleEvents\<close> do, the rule for properties that
  every callback keeps (a locale), and the interleaving of the loop's thread with the
  threads that push tasks or quit the loop (a step relation).
\<close>

section \<open>Effects and frames\<close>

lemma wakeup_frame [frame]:
  "chans (wakeup l w) = chans w" "self (wakeup l w) = self w"
  "violations (wakeup l w) = violations w" "threadLoop (wakeup l w) = threadLoop w"
  "ev_world.more (wakeup l w) = ev_world.more w"
  "quit (loops (wakeup l w) k) = quit (loops w k)"
  "doingTask (loops (wakeup l w) k) = doingTask (loops w k)"
  "threadId (loops (wakeup l w) k) = threadId (loops w k)"
  "taskQueue (loops (wakeup l w) k) = taskQueue (loops w k)"
  "channels (loops (wakeup l w) k) = channels (loops w k)"
  "epoll (loops (wakeup l w) k) = epoll (loops w k)"
  "timers (loops (wakeup l w) k) = timers (loops w k)"
  by (simp_all add: wakeup_def)

lemma wakeup_count [simp, effect]: "0 < wakeupCount (loops (wakeup l w) l)"
  by (simp add: wakeup_def eventfd_max_def)

lemma pushTask_frame [frame]:
  "chans (pushTask l f w) = chans w" "self (pushTask l f w) = self w"
  "violations (pushTask l f w) = violations w" "threadLoop (pushTask l f w) = threadLoop w"
  "ev_world.more (pushTask l f w) = ev_world.more w"
  "quit (loops (pushTask l f w) k) = quit (loops w k)"
  "doingTask (loops (pushTask l f w) k) = doingTask (loops w k)"
  "threadId (loops (pushTask l f w) k) = threadId (loops w k)"
  "channels (loops (pushTask l f w) k) = channels (loops w k)"
  "epoll (loops (pushTask l f w) k) = epoll (loops w k)"
  "timers (loops (pushTask l f w) k) = timers (loops w k)"
  by (simp_all add: pushTask_defs Let_def frame)

lemma pushTask_queue [effect]:
  "taskQueue (loops (pushTask l f w) k) = taskQueue (loops w k) @ (if k = l then [f] else [])"
  by (simp add: pushTask_defs Let_def frame)

lemma pushTask_wakes:
  "\<not> isInLoopThread l w \<or> doingTask (loops w l) \<Longrightarrow> 0 < wakeupCount (loops (pushTask l f w) l)"
  by (auto simp: pushTask_defs Let_def isInLoopThread_def effect)

lemma isInLoopThread_task [frame]:
  "isInLoopThread k (wakeup l w) = isInLoopThread k w"
  "isInLoopThread k (pushTask l f w) = isInLoopThread k w"
  by (simp_all add: isInLoopThread_def frame)

lemma reg_inv_frame [frame]:
  "reg_inv (wakeup l w) = reg_inv w" "reg_inv (pushTask l f w) = reg_inv w"
  "reg_inv (handleRead l w) = reg_inv w" "reg_inv (quit_loop l w) = reg_inv w"
  "reg_inv (check b a w) = reg_inv w"
  by (rule reg_inv_cong; simp add: frame handleRead_def quit_defs Let_def)+

lemma fold_pushTask [effect]:
  "taskQueue (loops (fold (pushTask l) fs w) l) = taskQueue (loops w l) @ fs"
  "ev_world.more (fold (pushTask l) fs w) = ev_world.more w"
  "doingTask (loops (fold (pushTask l) fs w) l) = doingTask (loops w l)"
  by (induction fs arbitrary: w) (simp_all add: effect frame)

lemma fold_pushTask_wakes:
  assumes "doingTask (loops w l)" "fs \<noteq> [] \<or> 0 < wakeupCount (loops w l)"
  shows "0 < wakeupCount (loops (fold (pushTask l) fs w) l)"
  using assms
proof (induction fs arbitrary: w)
  case Nil
  then show ?case by simp
next
  case (Cons f fs)
  have "0 < wakeupCount (loops (pushTask l f w) l)"
    by (rule pushTask_wakes) (simp add: Cons.prems)
  then show ?case using Cons.IH [of "pushTask l f w"] Cons.prems(1) by (simp add: frame)
qed

section \<open>One round of tasks\<close>

text \<open>
  To say which functors a round runs, the functors log themselves: calling \<open>f\<close> adds it
  to a log and pushes the functors \<open>k f\<close>.
\<close>

definition log_exec ::
  "('f \<Rightarrow> 'f list) \<Rightarrow> loop_id \<Rightarrow> 'f \<Rightarrow> ('f, 'f list) ev_world_scheme \<Rightarrow> ('f, 'f list) ev_world_scheme" where
  "log_exec k l f w = fold (pushTask l) (k f) (ev_world.more_update (\<lambda>ran. ran @ [f]) w)"

lemma log_exec_simps [simp]:
  "taskQueue (loops (log_exec k l f w) l) = taskQueue (loops w l) @ k f"
  "ev_world.more (log_exec k l f w) = ev_world.more w @ [f]"
  "doingTask (loops (log_exec k l f w) l) = doingTask (loops w l)"
  by (simp_all add: log_exec_def effect)

lemma fold_log_exec:
  "taskQueue (loops (fold (log_exec k l) fs w) l) = taskQueue (loops w l) @ concat (map k fs)"
  "ev_world.more (fold (log_exec k l) fs w) = ev_world.more w @ fs"
  by (induction fs arbitrary: w) simp_all

lemma fold_log_exec_wakes:
  assumes "doingTask (loops w l)" "concat (map k fs) \<noteq> [] \<or> 0 < wakeupCount (loops w l)"
  shows "0 < wakeupCount (loops (fold (log_exec k l) fs w) l)"
  using assms
proof (induction fs arbitrary: w)
  case Nil
  then show ?case by simp
next
  case (Cons f fs)
  have "0 < wakeupCount (loops (log_exec k l f w) l)"
    if "k f \<noteq> [] \<or> 0 < wakeupCount (loops w l)"
    unfolding log_exec_def by (rule fold_pushTask_wakes) (use that Cons.prems(1) in simp_all)
  then show ?case using Cons.IH [of "log_exec k l f w"] Cons.prems by auto
qed

text \<open>
  C10. One call of \<^verbatim>\<open>doTask\<close> runs exactly the functors that were queued when it started,
  each once, in the order they were pushed; the functors pushed by the running ones stay
  queued for the next round, in the order they were pushed; and if there are any, the
  event counter is positive, so that the next \<^verbatim>\<open>epoll_wait\<close> does not block.
\<close>

theorem doTask_round:
  fixes w :: "('f, 'f list) ev_world_scheme"
  shows "let w' = doTask (log_exec k l) l w; pushed = concat (map k (taskQueue (loops w l))) in
     ev_world.more w' = ev_world.more w @ taskQueue (loops w l) \<and>
     taskQueue (loops w' l) = pushed \<and>
     \<not> doingTask (loops w' l) \<and>
     \<not> (pushed \<noteq> [] \<and> wakeupCount (loops w' l) = 0)"
proof -
  define fs where "fs = taskQueue (loops w l)"
  define w2 where "w2 = upd_loop l (\<lambda>L. L\<lparr>taskQueue := []\<rparr>) (upd_loop l (\<lambda>L. L\<lparr>doingTask := True\<rparr>) w)"
  have doing: "doingTask (loops w2 l)" by (simp add: w2_def)
  have run: "doTask (log_exec k l) l w = upd_loop l (\<lambda>L. L\<lparr>doingTask := False\<rparr>) (fold (log_exec k l) fs w2)"
    by (simp add: doTask_defs Let_def fs_def w2_def)
  have "0 < wakeupCount (loops (fold (log_exec k l) fs w2) l)" if "concat (map k fs) \<noteq> []"
    by (rule fold_log_exec_wakes [OF doing]) (use that in simp)
  then have wake: "\<not> (concat (map k fs) \<noteq> [] \<and> wakeupCount (loops (fold (log_exec k l) fs w2) l) = 0)"
    by force
  have "ev_world.more w2 = ev_world.more w" "taskQueue (loops w2 l) = []" by (simp_all add: w2_def)
  with wake show ?thesis
    unfolding run Let_def fs_def [symmetric] by (simp add: fold_log_exec)
qed

section \<open>Dispatch\<close>

datatype cb_call = CloseCb | ErrorCb | RecvCb int | SendCb

text \<open>Callbacks that only log their own call.\<close>

definition log_call :: "cb_call \<Rightarrow> ('f, cb_call list) ev_world_scheme \<Rightarrow> ('f, cb_call list) ev_world_scheme" where
  "log_call a w = ev_world.more_update (\<lambda>cs. cs @ [a]) w"

definition log_cbs :: "('f, cb_call list) ev_world_scheme chan_callbacks" where
  "log_cbs = \<lparr>recvCallback = Some (\<lambda>t. log_call (RecvCb t)), sendCallback = Some (log_call SendCb),
     closeCallback = Some (log_call CloseCb), errorCallback = Some (log_call ErrorCb)\<rparr>"

definition dispatched :: "32 word \<Rightarrow> int \<Rightarrow> cb_call list" where
  "dispatched got t =
     (if has got EPOLLHUP \<and> \<not> has got EPOLLIN then [CloseCb] else []) @
     (if has got EPOLLERR then [ErrorCb] else []) @
     (if has got EPOLLIN \<or> has got EPOLLPRI \<or> has got EPOLLRDHUP then [RecvCb t] else []) @
     (if has got EPOLLOUT then [SendCb] else [])"

lemma has_or: "has got (a OR b) \<longleftrightarrow> has got a \<or> has got b"
proof -
  have "got AND (a OR b) = 0 \<longleftrightarrow> got AND a = 0 \<and> got AND b = 0"
    by (auto simp: bit_eq_iff bit_simps)
  then show ?thesis by (simp add: has_def)
qed

lemma log_call_simps [simp]:
  "chans (log_call a w) = chans w" "loops (log_call a w) = loops w"
  "ev_world.more (log_call a w) = ev_world.more w @ [a]"
  by (simp_all add: log_call_def)

text \<open>
  \<^verbatim>\<open>handleEvents\<close> calls the callbacks of a channel in the order close, error, receive,
  send, each at most once and exactly when its events are among the received ones (close
  only for a hang-up without input), unless the channel is tied to an owner that is gone:
  then it calls none.
\<close>

theorem handleEvents_order:
  "ev_world.more (handleEvents alive log_cbs ch t w) = ev_world.more w @
     (if ch_tied (chans w ch) \<and> \<not> alive (ch_tie (chans w ch)) w then []
      else dispatched (ch_revents (chans w ch)) t)"
  by (simp add: handleEvents_def handleEventsWithGuard_def Let_def log_cbs_def dispatched_def has_or call_def)

section \<open>Properties that every callback keeps\<close>

text \<open>
  The contract between the loop and the objects whose callbacks it runs: a property of the
  world that no bookkeeping of the loop can break and that every callback and, for the whole
  loop, every queued functor keeps.
\<close>

locale dispatch_client =
  fixes alive :: "nat \<Rightarrow> ('f, 'z) ev_world_scheme \<Rightarrow> bool"
    and cbs :: "chan_id \<Rightarrow> ('f, 'z) ev_world_scheme chan_callbacks"
    and I :: "('f, 'z) ev_world_scheme \<Rightarrow> bool"
  assumes received: "I w \<Longrightarrow> I (upd_chan ch (\<lambda>c. c\<lparr>ch_revents := r\<rparr>) w)"
    and guarded: "I w \<Longrightarrow> I (upd_chan ch (\<lambda>c. c\<lparr>ch_handling := b\<rparr>) w)"
    and recv_keeps: "recvCallback (cbs ch) = Some f \<Longrightarrow> I w \<Longrightarrow> I (f t w)"
    and send_keeps: "sendCallback (cbs ch) = Some g \<Longrightarrow> I w \<Longrightarrow> I (g w)"
    and close_keeps: "closeCallback (cbs ch) = Some g \<Longrightarrow> I w \<Longrightarrow> I (g w)"
    and error_keeps: "errorCallback (cbs ch) = Some g \<Longrightarrow> I w \<Longrightarrow> I (g w)"
begin

lemma call_keeps: "(\<And>g w. f = Some g \<Longrightarrow> I w \<Longrightarrow> I (g w)) \<Longrightarrow> I w \<Longrightarrow> I (call f w)"
  by (cases f) (auto simp: call_def)

lemma handleEventsWithGuard_keeps: "I w \<Longrightarrow> I (handleEventsWithGuard (cbs ch) ch t w)"
  unfolding handleEventsWithGuard_def Let_def
  by (intro guarded) (auto intro!: call_keeps guarded intro: recv_keeps send_keeps close_keeps error_keeps)

lemma handle_one_keeps: "I w \<Longrightarrow> I (handle_one alive cbs e w)"
  by (auto simp: handle_one_def handleEvents_def split: prod.split
      intro!: handleEventsWithGuard_keeps received)

end

locale loop_client = dispatch_client alive cbs I
  for alive :: "nat \<Rightarrow> ('f, 'z) ev_world_scheme \<Rightarrow> bool"
    and cbs :: "chan_id \<Rightarrow> ('f, 'z) ev_world_scheme chan_callbacks"
    and exec :: "'f \<Rightarrow> ('f, 'z) ev_world_scheme \<Rightarrow> ('f, 'z) ev_world_scheme"
    and l :: loop_id
    and I :: "('f, 'z) ev_world_scheme \<Rightarrow> bool" +
  assumes doing: "I w \<Longrightarrow> I (upd_loop l (\<lambda>L. L\<lparr>doingTask := b\<rparr>) w)"
    and quitting: "I w \<Longrightarrow> I (upd_loop l (\<lambda>L. L\<lparr>quit := b\<rparr>) w)"
    and swapped: "I w \<Longrightarrow> I (upd_loop l (\<lambda>L. L\<lparr>taskQueue := []\<rparr>) w)"
    and grown: "I w \<Longrightarrow> I (upd_loop l (\<lambda>L. L\<lparr>eventsSize := eventsSize L * 2\<rparr>) w)"
    and asserted: "I w \<Longrightarrow> I (assertInLoopThread l w)"
    and exec_keeps: "I w \<Longrightarrow> I (exec task w)"
begin

lemma doTask_keeps: "I w \<Longrightarrow> I (doTask exec l w)"
  unfolding doTask_defs Let_def prod.case
  by (intro doing fold_invariant [where P = I] exec_keeps swapped)

lemma loop_body_keeps: "I w \<Longrightarrow> I (loop_body alive cbs exec l evs w)"
  unfolding loop_body_def Let_def
  by (auto intro!: doTask_keeps grown fold_invariant [where P = I] handle_one_keeps)

lemma loop_while_keeps: "I w \<Longrightarrow> I (snd (loop_while alive cbs exec l prs w))"
  by (induction prs arbitrary: w)
     (subst loop_while.simps; auto intro: loop_body_keeps split: poll_result.splits)+

lemma loop_run_keeps: "I w \<Longrightarrow> I (snd (loop_run alive cbs exec l prs w))"
  unfolding loop_run_def loop_enter_def by (intro loop_while_keeps quitting asserted)

end

section \<open>Tasks pushed before the loop runs\<close>

text \<open>
  A task that the loop's own thread pushes before \<^verbatim>\<open>loop()\<close> raises no event, and the
  loop skips \<^verbatim>\<open>doTask\<close> on a timeout: it stays queued however often \<^verbatim>\<open>epoll_wait\<close>
  times out.
\<close>

lemma loop_while_timeouts:
  "\<not> quit (loops w l) \<Longrightarrow>
   loop_while alive cbs exec l (replicate n (PollEvents [])) w = (Blocked, w)"
  by (induction n) (subst loop_while.simps; simp add: loop_body_def)+

lemma push_before_loop_waits:
  assumes "isInLoopThread l w" "\<not> doingTask (loops w l)"
  shows "let w' = snd (loop_run alive cbs exec l (replicate n (PollEvents [])) (pushTask l f w)) in
    taskQueue (loops w' l) = taskQueue (loops w l) @ [f] \<and>
    wakeupCount (loops w' l) = wakeupCount (loops w l)"
proof -
  have "assertInLoopThread l (pushTask l f w) = pushTask l f w"
    using assms(1) by (simp add: assertInLoopThread_def frame)
  then have "loop_run alive cbs exec l (replicate n (PollEvents [])) (pushTask l f w) =
      (Blocked, upd_loop l (\<lambda>L. L\<lparr>quit := False\<rparr>) (pushTask l f w))"
    unfolding loop_run_def loop_enter_def by (simp add: loop_while_timeouts)
  then show ?thesis
    using assms by (simp add: effect pushTask_defs Let_def isInLoopThread_def)
qed

end
