(* ===== verification/LoopWake.thy ===== *)
theory LoopWake
  imports LoopTask
begin

text \<open>
  The loop's thread and any number of other threads that push tasks or quit the loop,
  interleaved. The steps are the pieces of the operations of \<open>EventLoop\<close> that no lock holds
  together: of another thread the critical section of \<^verbatim>\<open>pushTask\<close> and the test with the
  \<^verbatim>\<open>wakeup()\<close> behind it, and the two halves of \<^verbatim>\<open>quit\<close>; of the loop's thread entering and
  leaving \<^verbatim>\<open>loop\<close>, its test of \<^verbatim>\<open>quit_\<close>, its polls, the events it handles, the swap of \<^verbatim>\<open>doTask\<close>,
  each task, and the end of \<^verbatim>\<open>doTask\<close>. The loop's thread may push tasks and quit the loop itself,
  before it enters \<^verbatim>\<open>loop\<close>, after it has left it, while it handles events and while it runs tasks.

  \<open>waking\<close> and \<open>quitting\<close> are the other threads between two halves; \<open>pushed\<close> and \<open>finished\<close> log
  the tasks in the order they were pushed and run; \<open>early\<close> are the tasks that the loop's own
  thread has pushed outside of \<^verbatim>\<open>loop\<close> since the last round, for which nobody writes the event counter.
\<close>

datatype 'f phase = Outside | Testing | Polling | Handling | Running "'f list"

record 'f wake_sys =
  world :: "'f ev_world"
  phase :: "'f phase"
  waking :: "thread_id list"
  quitting :: "thread_id list"
  pushed :: "'f list"
  finished :: "'f list"
  early :: "'f list"

text \<open>What thread \<open>t\<close> does, seen from the loop's thread.\<close>

definition by_thread :: "thread_id \<Rightarrow> ('f ev_world \<Rightarrow> 'f ev_world) \<Rightarrow> 'f ev_world \<Rightarrow> 'f ev_world" where
  "by_thread t g w = (g (w\<lparr>self := t\<rparr>))\<lparr>self := self w\<rparr>"

definition upd_world :: "('f ev_world \<Rightarrow> 'f ev_world) \<Rightarrow> 'f wake_sys \<Rightarrow> 'f wake_sys" where
  "upd_world g s = s\<lparr>world := g (world s)\<rparr>"

definition idle_thread :: "loop_id \<Rightarrow> thread_id \<Rightarrow> 'f wake_sys \<Rightarrow> bool" where
  "idle_thread l t s \<longleftrightarrow> t \<noteq> threadId (loops (world s) l) \<and> t \<notin> set (waking s) \<union> set (quitting s)"

text \<open>Where the loop's thread runs code of the application.\<close>

definition free :: "'f phase \<Rightarrow> bool" where
  "free p \<longleftrightarrow> p \<noteq> Testing \<and> p \<noteq> Polling"

inductive wake_step :: "loop_id \<Rightarrow> 'f wake_sys \<Rightarrow> 'f wake_sys \<Rightarrow> bool" for l where
  other_push: "idle_thread l t s \<Longrightarrow> wake_step l s
    ((upd_world (by_thread t (pushTask_locked l f)) s)\<lparr>waking := t # waking s, pushed := pushed s @ [f]\<rparr>)"
| other_wake: "t \<in> set (waking s) \<Longrightarrow> t \<noteq> threadId (loops (world s) l) \<Longrightarrow> wake_step l s
    ((upd_world (by_thread t (pushTask_wake l)) s)\<lparr>waking := remove1 t (waking s)\<rparr>)"
| other_quit: "idle_thread l t s \<Longrightarrow> wake_step l s
    ((upd_world (by_thread t (quit_set l)) s)\<lparr>quitting := t # quitting s\<rparr>)"
| other_quit_wake: "t \<in> set (quitting s) \<Longrightarrow> wake_step l s
    ((upd_world (by_thread t (quit_wake l)) s)\<lparr>quitting := remove1 t (quitting s)\<rparr>)"
| enter: "phase s = Outside \<Longrightarrow> wake_step l s ((upd_world (loop_enter l) s)\<lparr>phase := Testing\<rparr>)"
| loop_test: "phase s = Testing \<Longrightarrow> wake_step l s
    (s\<lparr>phase := (if quit (loops (world s) l) then Outside else Polling)\<rparr>)"
| poll_error: "phase s = Polling \<Longrightarrow> wake_step l s (s\<lparr>phase := Outside\<rparr>)"
| poll_timeout: "phase s = Polling \<Longrightarrow> wakeupCount (loops (world s) l) = 0 \<Longrightarrow>
    wake_step l s (s\<lparr>phase := Testing\<rparr>)"
| poll_events: "phase s = Polling \<Longrightarrow> wake_step l s (s\<lparr>phase := Handling\<rparr>)"
| read_wakeup: "phase s = Handling \<Longrightarrow> wake_step l s (upd_world (handleRead l) s)"
| own_push: "free (phase s) \<Longrightarrow> wake_step l s
    ((upd_world (pushTask l f) s)
      \<lparr>pushed := pushed s @ [f], early := (if phase s = Outside then early s @ [f] else early s)\<rparr>)"
| own_quit: "free (phase s) \<Longrightarrow> wake_step l s (upd_world (quit_loop l) s)"
| begin_tasks: "phase s = Handling \<Longrightarrow> doTask_swap l (world s) = (functors, w) \<Longrightarrow> wake_step l s
    (s\<lparr>world := w, phase := Running functors, early := []\<rparr>)"
| run_task: "phase s = Running (f # fs) \<Longrightarrow> wake_step l s (s\<lparr>phase := Running fs, finished := finished s @ [f]\<rparr>)"
| end_tasks: "phase s = Running [] \<Longrightarrow> wake_step l s ((upd_world (doTask_end l) s)\<lparr>phase := Testing\<rparr>)"

inductive wake_reach :: "loop_id \<Rightarrow> 'f wake_sys \<Rightarrow> 'f wake_sys \<Rightarrow> bool" for l s where
  wake_refl: "wake_reach l s s"
| wake_trans: "wake_reach l s t \<Longrightarrow> wake_step l t u \<Longrightarrow> wake_reach l s u"

lemma reach_trans:
  assumes "wake_reach l s t" "wake_reach l t u"
  shows "wake_reach l s u"
  using assms(2,1) by (induction rule: wake_reach.induct) (auto intro: wake_trans)

text \<open>The loop has just been made, in the thread that will run it.\<close>

definition wake_start :: "'f ev_world \<Rightarrow> 'f wake_sys" where
  "wake_start w =
     \<lparr>world = w, phase = Outside, waking = [], quitting = [], pushed = [], finished = [], early = []\<rparr>"

section \<open>The invariant\<close>

definition current :: "'f phase \<Rightarrow> 'f list" where
  "current p = (case p of Running fs \<Rightarrow> fs | _ \<Rightarrow> [])"

definition running :: "'f phase \<Rightarrow> bool" where
  "running p = (case p of Running _ \<Rightarrow> True | _ \<Rightarrow> False)"

lemma phase_simps [simp]:
  "current (Running fs) = fs" "current Outside = []" "current Testing = []" "current Polling = []" "current Handling = []"
  "running (Running fs)" "\<not> running Outside" "\<not> running Testing" "\<not> running Polling" "\<not> running Handling"
  by (simp_all add: current_def running_def)

text \<open>
  The tasks pushed are the ones that ran, the rest of the current round and the queue, in this
  order; outside of the handling of events, with an event counter of zero and no thread about to
  write it, nothing is queued but early tasks; and when the loop polls with \<^verbatim>\<open>quit_\<close> set, the
  counter is positive or some thread is about to make it so.
\<close>

definition wake_inv :: "loop_id \<Rightarrow> 'f wake_sys \<Rightarrow> bool" where
  "wake_inv l s \<longleftrightarrow>
     (let L = loops (world s) l in
      isInLoopThread l (world s) \<and>
      doingTask L = running (phase s) \<and>
      pushed s = finished s @ current (phase s) @ taskQueue L \<and>
      (phase s \<noteq> Handling \<and> wakeupCount L = 0 \<and> waking s = [] \<longrightarrow> taskQueue L = early s) \<and>
      (quit L \<and> phase s = Polling \<longrightarrow> 0 < wakeupCount L \<or> quitting s \<noteq> []))"

lemma upd_world_simps [simp]:
  "world (upd_world g s) = g (world s)" "phase (upd_world g s) = phase s"
  "waking (upd_world g s) = waking s" "quitting (upd_world g s) = quitting s"
  "pushed (upd_world g s) = pushed s" "finished (upd_world g s) = finished s" "early (upd_world g s) = early s"
  by (simp_all add: upd_world_def)

lemma upd_loop_self [simp]: "upd_loop l g (w\<lparr>self := t\<rparr>) = (upd_loop l g w)\<lparr>self := t\<rparr>"
  by (simp add: upd_loop_def)

lemma wakeup_self [simp]: "wakeup l (w\<lparr>self := t\<rparr>) = (wakeup l w)\<lparr>self := t\<rparr>"
  by (simp add: wakeup_def)

lemma wakeup_own [simp]: "wakeupCount (loops (wakeup l w) l) = 0 \<longleftrightarrow> False"
  using wakeup_count [of l w] by simp

lemma isIn_self: "isInLoopThread l (w\<lparr>self := t\<rparr>) \<longleftrightarrow> t = threadId (loops w l)"
  by (auto simp: isInLoopThread_def)

lemma by_thread_simps:
  "by_thread t (pushTask_locked l f) w = pushTask_locked l f w"
  "by_thread t (quit_set l) w = quit_set l w" "by_thread t (quit_wake l) w = quit_wake l w"
  "by_thread t (pushTask_wake l) w = (if t \<noteq> threadId (loops w l) \<or> doingTask (loops w l) then wakeup l w else w)"
  by (simp_all add: by_thread_def pushTask_locked_def quit_set_def quit_wake_def pushTask_wake_def isIn_self frame)

lemmas wake_defs = wake_inv_def Let_def isInLoopThread_def by_thread_simps frame

lemma wake_step_inv: "wake_step l s t \<Longrightarrow> wake_inv l s \<Longrightarrow> wake_inv l t"
proof (induction rule: wake_step.induct)
  case (other_push t s f)
  then show ?case by (simp add: wake_defs pushTask_locked_def)
next
  case (other_wake t s)
  then show ?case by (auto simp: wake_defs)
next
  case (other_quit t s)
  then show ?case by (simp add: wake_defs quit_set_def)
next
  case (other_quit_wake t s)
  then show ?case by (auto simp: wake_defs quit_wake_def)
next
  case (enter s)
  then show ?case by (simp add: wake_defs loop_enter_def assertInLoopThread_def)
next
  case (loop_test s)
  then show ?case by (simp add: wake_defs)
next
  case (own_push s f)
  then show ?case by (cases "phase s") (auto simp: wake_defs pushTask_defs free_def)
next
  case (own_quit s)
  then show ?case by (cases "phase s") (auto simp: wake_defs quit_defs free_def)
next
  case (begin_tasks s functors w)
  then show ?case by (auto simp: wake_defs doTask_swap_def)
next
  case (end_tasks s)
  then show ?case by (simp add: wake_defs doTask_end_def)
qed (simp_all add: wake_defs handleRead_def)

lemma ctor_start:
  fixes w :: "'f ev_world"
  assumes "EventLoop_ctor l f w0 = Some w"
  shows "isInLoopThread l w" "taskQueue (loops w l) = []" "\<not> doingTask (loops w l)"
proof -
  have "taskQueue (loops (enableRecv ch u) k) = taskQueue (loops u k)" "doingTask (loops (enableRecv ch u) k) = doingTask (loops u k)"
    "threadId (loops (enableRecv ch u) k) = threadId (loops u k)" "self (enableRecv ch u) = self u" for ch k and u :: "'f ev_world"
    by (simp_all add: chan_op_defs frame)
  then show "isInLoopThread l w" "taskQueue (loops w l) = []" "\<not> doingTask (loops w l)"
    using assms by (auto simp: EventLoop_ctor_def Let_def isInLoopThread_def split: option.splits)
qed

lemma wake_inv_start: "EventLoop_ctor l f w0 = Some w \<Longrightarrow> wake_inv l (wake_start w)"
  using ctor_start [of l f w0 w] by (simp add: wake_inv_def wake_start_def Let_def)

lemma wake_reach_inv: "wake_reach l s t \<Longrightarrow> wake_inv l s \<Longrightarrow> wake_inv l t"
  by (induction rule: wake_reach.induct) (auto intro: wake_step_inv)

section \<open>Properties\<close>

text \<open>
  C3. No wake-up is lost. In every interleaving of the loop's thread with threads that push
  tasks and quit the loop, from the making of the loop on, also before \<^verbatim>\<open>loop\<close> is entered and
  when it is entered again: whenever the loop is about to wait in \<^verbatim>\<open>epoll_wait\<close>, with \<^verbatim>\<open>quit_\<close> set or
  with a task queued that is not one its own thread pushed outside of \<^verbatim>\<open>loop\<close>, then the event
  counter is positive, so the wait returns at once, or some thread has still to write it. A
  task pushed by the loop's own thread outside of \<^verbatim>\<open>loop\<close> waits for the next event, as
  \<open>push_before_loop_waits\<close> shows.
\<close>

theorem no_lost_wakeup:
  assumes "EventLoop_ctor l f w0 = Some w" "wake_reach l (wake_start w) s" "phase s = Polling"
  shows "(taskQueue (loops (world s) l) \<noteq> early s \<longrightarrow> 0 < wakeupCount (loops (world s) l) \<or> waking s \<noteq> []) \<and>
    (quit (loops (world s) l) \<longrightarrow> 0 < wakeupCount (loops (world s) l) \<or> quitting s \<noteq> [])"
proof -
  have "wake_inv l s" by (rule wake_reach_inv [OF assms(2) wake_inv_start [OF assms(1)]])
  with assms(3) show ?thesis by (auto simp: wake_inv_def Let_def)
qed

section \<open>The operations, uninterrupted\<close>

text \<open>
  When nothing comes between, the steps of another thread are one call of \<^const>\<open>pushTask\<close> in that
  thread, or of \<^const>\<open>quit_loop\<close>; and the steps of a round are one call of \<^const>\<open>doTask\<close>, where running
  a task \<open>f\<close> pushes the tasks \<open>k f\<close>.
\<close>

lemma push_reach:
  assumes "idle_thread l t s"
  shows "wake_reach l s ((upd_world (by_thread t (pushTask l f)) s)\<lparr>pushed := pushed s @ [f]\<rparr>)"
proof -
  let ?s1 = "(upd_world (by_thread t (pushTask_locked l f)) s)\<lparr>waking := t # waking s, pushed := pushed s @ [f]\<rparr>"
  have "wake_reach l s ?s1" by (rule wake_trans [OF wake_refl other_push [OF assms]])
  moreover have "t \<noteq> threadId (loops (world ?s1) l)" using assms by (simp add: idle_thread_def by_thread_simps pushTask_locked_def)
  ultimately have "wake_reach l s ((upd_world (by_thread t (pushTask_wake l)) ?s1)\<lparr>waking := remove1 t (waking ?s1)\<rparr>)"
    by (intro wake_trans [OF _ other_wake]) simp_all
  moreover have "by_thread t (pushTask_wake l) (by_thread t (pushTask_locked l f) v) = by_thread t (pushTask l f) v" for v
    by (simp add: by_thread_def pushTask_def pushTask_locked_def)
  then have "(upd_world (by_thread t (pushTask_wake l)) ?s1)\<lparr>waking := remove1 t (waking ?s1)\<rparr> =
      (upd_world (by_thread t (pushTask l f)) s)\<lparr>pushed := pushed s @ [f]\<rparr>"
    by (simp add: upd_world_def)
  ultimately show ?thesis by (simp only:)
qed

lemma own_pushes_reach:
  assumes "phase s = Running gs"
  shows "wake_reach l s ((upd_world (fold (pushTask l) fs) s)\<lparr>pushed := pushed s @ fs\<rparr>)"
proof (induction fs rule: rev_induct)
  case Nil
  show ?case by (simp add: upd_world_def wake_refl)
next
  case (snoc f fs)
  from wake_trans [OF snoc.IH own_push [of _ l f]] assms show ?case by (simp add: free_def upd_world_def)
qed

lemma round_reach:
  assumes "phase s = Running fs"
  shows "wake_reach l s (s\<lparr>world := fold (\<lambda>f. fold (pushTask l) (k f)) fs (world s), phase := Running [],
    pushed := pushed s @ concat (map k fs), finished := finished s @ fs\<rparr>)"
  using assms
proof (induction fs arbitrary: s)
  case Nil
  then have "s\<lparr>phase := Running []\<rparr> = s" by simp
  then show ?case by (simp add: wake_refl)
next
  case (Cons f fs)
  let ?s1 = "s\<lparr>phase := Running fs, finished := finished s @ [f]\<rparr>"
  let ?s2 = "(upd_world (fold (pushTask l) (k f)) ?s1)\<lparr>pushed := pushed ?s1 @ k f\<rparr>"
  have "wake_reach l s ?s1" by (rule wake_trans [OF wake_refl run_task [OF Cons.prems]])
  moreover have "wake_reach l ?s1 ?s2" by (rule own_pushes_reach) simp
  moreover note Cons.IH [of ?s2]
  ultimately show ?case by (simp add: upd_world_def) (blast intro: reach_trans)
qed

theorem doTask_reach:
  assumes "phase s = Handling"
  shows "wake_reach l s (s\<lparr>world := doTask (\<lambda>f. fold (pushTask l) (k f)) l (world s), phase := Testing,
    pushed := pushed s @ concat (map k (taskQueue (loops (world s) l))),
    finished := finished s @ taskQueue (loops (world s) l), early := []\<rparr>)"
proof -
  obtain fs w where swap: "doTask_swap l (world s) = (fs, w)" by force
  then have fs: "fs = taskQueue (loops (world s) l)" by (auto simp: doTask_swap_def)
  let ?s1 = "s\<lparr>world := w, phase := Running fs, early := []\<rparr>"
  let ?s2 = "?s1\<lparr>world := fold (\<lambda>f. fold (pushTask l) (k f)) fs w, phase := Running [],
    pushed := pushed s @ concat (map k fs), finished := finished s @ fs\<rparr>"
  have "wake_reach l s ?s1" by (rule wake_trans [OF wake_refl begin_tasks [OF assms swap]])
  moreover have "wake_reach l ?s1 ?s2" using round_reach [of ?s1 fs l k] by simp
  ultimately have "wake_reach l s ?s2" by (rule reach_trans)
  then have "wake_reach l s ((upd_world (doTask_end l) ?s2)\<lparr>phase := Testing\<rparr>)"
    by (rule wake_trans) (rule end_tasks, simp)
  moreover have "(upd_world (doTask_end l) ?s2)\<lparr>phase := Testing\<rparr> =
      s\<lparr>world := doTask (\<lambda>f. fold (pushTask l) (k f)) l (world s), phase := Testing,
        pushed := pushed s @ concat (map k fs), finished := finished s @ fs, early := []\<rparr>"
    by (simp add: doTask_def swap upd_world_def)
  ultimately show ?thesis by (simp only: fs)
qed

text \<open>
  C11. Every task runs once, in order: in every such interleaving the tasks run so far,
  followed by the rest of the current round and by the queue, are exactly the tasks pushed so
  far, in the order they were pushed: none is lost, run twice or overtaken. And behind the
  events of a poll one \<^const>\<open>doTask\<close> leads, in this system, to a state where all tasks pushed before
  have been run, whatever the tasks push themselves, which is then what is queued.
\<close>

theorem tasks_run_once_in_order:
  assumes "EventLoop_ctor l f w0 = Some w" "wake_reach l (wake_start w) s"
  shows "pushed s = finished s @ current (phase s) @ taskQueue (loops (world s) l) \<and>
    (phase s = Handling \<longrightarrow>
      (\<forall>k. let more = concat (map k (taskQueue (loops (world s) l)));
            t = s\<lparr>world := doTask (\<lambda>f. fold (pushTask l) (k f)) l (world s), phase := Testing,
                  pushed := pushed s @ more, finished := pushed s, early := []\<rparr>
        in wake_reach l (wake_start w) t \<and> taskQueue (loops (world t) l) = more))"
proof -
  have tasks: "pushed t = finished t @ current (phase t) @ taskQueue (loops (world t) l)"
    if "wake_reach l (wake_start w) t" for t
    using wake_reach_inv [OF that wake_inv_start [OF assms(1)]] by (simp add: wake_inv_def Let_def)
  have "wake_reach l (wake_start w) (s\<lparr>world := doTask (\<lambda>f. fold (pushTask l) (k f)) l (world s), phase := Testing,
      pushed := pushed s @ concat (map k (taskQueue (loops (world s) l))), finished := pushed s, early := []\<rparr>)"
    if "phase s = Handling" for k
    using reach_trans [OF assms(2) doTask_reach [OF that, of l k]] tasks [OF assms(2)] that by simp
  with tasks [OF assms(2)] tasks show ?thesis by (fastforce simp: Let_def)
qed

section \<open>A run\<close>

text \<open>The loop is made in thread 0; thread 1 pushes a task while the loop polls; the loop has run it.\<close>

definition loop0 :: "nat ev_world" where
  "loop0 = the (EventLoop_ctor 0 9 (boot_world 0))"

lemma loop0_made: "EventLoop_ctor 0 9 (boot_world 0) = Some loop0"
  by (simp add: loop0_def EventLoop_ctor_def boot_world_def Let_def)

definition polling0 :: "nat wake_sys" where
  "polling0 = (wake_start loop0)\<lparr>world := loop_enter 0 loop0, phase := Polling\<rparr>"

definition pushed0 :: "nat wake_sys" where
  "pushed0 = (upd_world (by_thread 1 (pushTask 0 5)) polling0)\<lparr>pushed := [5]\<rparr>"

lemma polling0_reach: "wake_reach 0 (wake_start loop0) polling0"
proof -
  have "wake_reach 0 (wake_start loop0) ((upd_world (loop_enter 0) (wake_start loop0))\<lparr>phase := Testing\<rparr>)"
    by (rule wake_trans [OF wake_refl enter]) (simp add: wake_start_def)
  from wake_trans [OF this loop_test] show ?thesis
    by (simp add: wake_start_def upd_world_def polling0_def loop_enter_def)
qed

lemma loop0_thread: "threadId (loops (world polling0) 0) = 0" "taskQueue (loops (world polling0) 0) = []"
proof -
  have "isInLoopThread 0 loop0" "taskQueue (loops loop0 0) = []" using ctor_start [OF loop0_made] by simp_all
  moreover have "self loop0 = 0" by (simp add: loop0_def EventLoop_ctor_def boot_world_def Let_def chan_op_defs frame)
  ultimately show "threadId (loops (world polling0) 0) = 0" "taskQueue (loops (world polling0) 0) = []"
    by (simp_all add: polling0_def loop_enter_def assertInLoopThread_def isInLoopThread_def)
qed

lemma pushed0_reach: "wake_reach 0 (wake_start loop0) pushed0"
proof -
  have "idle_thread 0 1 polling0" unfolding idle_thread_def loop0_thread(1) by (simp add: polling0_def wake_start_def)
  from reach_trans [OF polling0_reach push_reach [OF this, of 5]] show ?thesis
    by (simp add: pushed0_def polling0_def wake_start_def)
qed

theorem no_lost_wakeup_witness:
  "phase pushed0 = Polling \<and> taskQueue (loops (world pushed0) 0) = [5] \<and> 0 < wakeupCount (loops (world pushed0) 0)"
proof -
  have "phase pushed0 = Polling" "early pushed0 = []" "waking pushed0 = []"
    by (simp_all add: pushed0_def polling0_def wake_start_def)
  moreover have "taskQueue (loops (world pushed0) 0) = [5]"
    by (simp add: pushed0_def by_thread_def pushTask_defs frame loop0_thread)
  ultimately show ?thesis using no_lost_wakeup [OF loop0_made pushed0_reach] by simp
qed

theorem tasks_run_once_in_order_witness:
  "\<exists>s. wake_reach 0 (wake_start loop0) s \<and> phase s = Testing \<and> pushed s = [5, 6] \<and> finished s = [5] \<and>
    taskQueue (loops (world s) 0) = [6]"
proof -
  define s where "s = pushed0\<lparr>phase := Handling\<rparr>"
  have "wake_reach 0 (wake_start loop0) s"
    using wake_trans [OF pushed0_reach poll_events] by (simp add: s_def pushed0_def polling0_def)
  moreover have "phase s = Handling" "pushed s = [5]" "finished s = []" by (simp_all add: s_def pushed0_def polling0_def wake_start_def)
  ultimately show ?thesis
    using tasks_run_once_in_order [OF loop0_made, of s]
    by (intro exI [of _ "s\<lparr>world := doTask (\<lambda>f. fold (pushTask 0) (if f = 5 then [6] else [])) 0 (world s), phase := Testing,
        pushed := [5, 6], finished := [5], early := []\<rparr>"])
      (auto simp: Let_def dest: spec [of _ "\<lambda>f. if f = 5 then [6] else []"])
qed

end
