(* ===== verification/TCPHandle.thy ===== *)
theory TCPHandle
  imports LoopWake
begin

text \<open>
  \<^verbatim>\<open>src/slite/TCPHandle.h\<close> and \<^verbatim>\<open>TCPHandle.cc\<close>: the socket of a connection, an acceptor
  or a connector. What the kernel answers to a system call is an argument of the operation
  (a \<open>reply\<close>), so that a theorem over every reply is one over every behaviour of the
  network; what the class does with the answer, above all with \<^verbatim>\<open>errno\<close>, is the model.
\<close>

section \<open>System calls\<close>

datatype errno =
    EAGAIN | ECONNABORTED | EINTR | EPROTO | EPERM | EMFILE | EBADF | EFAULT | EINVAL | ENFILE
  | ENOBUFS | ENOMEM | ENOTSOCK | EOPNOTSUPP | EINPROGRESS | EISCONN | EADDRINUSE | EADDRNOTAVAIL
  | ECONNREFUSED | ENETUNREACH | EACCES | EAFNOSUPPORT | EALREADY | EPIPE | ECONNRESET | EOther nat

text \<open>On Linux \<^verbatim>\<open>EWOULDBLOCK\<close> is \<^verbatim>\<open>EAGAIN\<close>.\<close>

abbreviation EWOULDBLOCK :: errno where "EWOULDBLOCK \<equiv> EAGAIN"

text \<open>
  The kernel's answer to a \<^verbatim>\<open>send\<close> or \<^verbatim>\<open>recv\<close>: a failure, or success with a number of
  bytes (for \<^verbatim>\<open>send\<close>, of which the call takes at most the size of the data) or the bytes
  received (of which the call takes at most the size of its buffer).
\<close>

datatype reply = Failed errno | Done nat bytes

datatype 'a sys_result = SysErr errno | SysOk 'a

definition handle_send :: "bytes \<Rightarrow> reply \<Rightarrow> nat sys_result" where
  "handle_send data r = (case r of Failed e \<Rightarrow> SysErr e | Done n _ \<Rightarrow> SysOk (min n (length data)))"

definition recv_size :: nat where
  "recv_size = 65535"

text \<open>\<^verbatim>\<open>recv\<close> fills \<open>data\<close> with what arrived; on failure it leaves \<open>data\<close> empty.\<close>

definition handle_recv :: "reply \<Rightarrow> nat sys_result \<times> bytes" where
  "handle_recv r =
     (case r of
        Failed e \<Rightarrow> (SysErr e, [])
      | Done _ bs \<Rightarrow> (let data = take recv_size bs in (SysOk (length data), data)))"

section \<open>Addresses\<close>

text \<open>\<^verbatim>\<open>struct sockaddr_in\<close>: the port is kept in network byte order.\<close>

record sockaddr =
  sin_addr :: "32 word"
  sin_port :: "16 word"

text \<open>\<^verbatim>\<open>htons\<close> on a little-endian machine exchanges the two bytes.\<close>

definition htons :: "16 word \<Rightarrow> 16 word" where
  "htons w = push_bit 8 w OR drop_bit 8 w"

record tcphandle =
  h_fd :: fd
  h_nullFd :: fd
  h_peer :: sockaddr
  h_local :: sockaddr

definition zero_addr :: sockaddr where
  "zero_addr = \<lparr>sin_addr = 0, sin_port = 0\<rparr>"

text \<open>
  The default constructor opens a socket; \<^verbatim>\<open>LOG_FATAL\<close> ends the program (\<^const>\<open>None\<close>)
  when that fails.
\<close>

definition TCPHandle_ctor :: "fd option \<Rightarrow> tcphandle option" where
  "TCPHandle_ctor s = (case s of None \<Rightarrow> None
     | Some f \<Rightarrow> Some \<lparr>h_fd = f, h_nullFd = 0, h_peer = zero_addr, h_local = zero_addr\<rparr>)"

definition TCPHandle_of_fd :: "fd \<Rightarrow> sockaddr \<Rightarrow> sockaddr \<Rightarrow> tcphandle" where
  "TCPHandle_of_fd f peer loc = \<lparr>h_fd = f, h_nullFd = 0, h_peer = peer, h_local = loc\<rparr>"

definition bind_addr :: "16 word \<Rightarrow> 32 word \<Rightarrow> sockaddr" where
  "bind_addr port ip = \<lparr>sin_addr = ip, sin_port = htons port\<rparr>"

definition localPort :: "tcphandle \<Rightarrow> 16 word" where
  "localPort h = sin_port (h_local h)"

definition peerPort :: "tcphandle \<Rightarrow> 16 word" where
  "peerPort h = sin_port (h_peer h)"

text \<open>\<^verbatim>\<open>listen\<close> reserves a descriptor on \<^verbatim>\<open>/dev/null\<close>; a failing call ends the program.\<close>

definition handle_listen :: "unit sys_result \<Rightarrow> fd \<Rightarrow> tcphandle \<Rightarrow> tcphandle option" where
  "handle_listen r null h = (case r of SysErr _ \<Rightarrow> None | SysOk _ \<Rightarrow> Some (h\<lparr>h_nullFd := null\<rparr>))"

section \<open>Accepting and connecting\<close>

datatype accept_result = AcceptFatal | AcceptRetry tcphandle | Accepted tcphandle tcphandle

text \<open>
  \<open>conn\<close> is the kernel's answer to the first \<^verbatim>\<open>accept\<close> (a descriptor with the peer's and
  the local address), \<open>null\<close> the descriptor \<^verbatim>\<open>open("/dev/null")\<close> returns when the reserved
  one is given up to take the pending connection off the queue and close it.
\<close>

definition accept_transient :: "errno set" where
  "accept_transient = {EAGAIN, ECONNABORTED, EINTR, EPROTO, EPERM, EMFILE}"

definition handle_accept :: "(fd \<times> sockaddr \<times> sockaddr) sys_result \<Rightarrow> fd \<Rightarrow> tcphandle \<Rightarrow> accept_result" where
  "handle_accept conn null h =
     (case conn of
        SysErr e \<Rightarrow> if e \<in> accept_transient then AcceptRetry (h\<lparr>h_nullFd := null\<rparr>) else AcceptFatal
      | SysOk (f, peer, loc) \<Rightarrow>
          Accepted (h\<lparr>h_peer := peer, h_local := loc\<rparr>) (TCPHandle_of_fd f peer loc))"

datatype connect_result = ConnectFatal | Connecting_ok | Connect_later

definition connect_pending :: "errno set" where
  "connect_pending = {EINPROGRESS, EINTR, EISCONN}"

definition connect_retry :: "errno set" where
  "connect_retry = {EAGAIN, EADDRINUSE, EADDRNOTAVAIL, ECONNREFUSED, ENETUNREACH}"

definition handle_connect :: "unit sys_result \<Rightarrow> connect_result" where
  "handle_connect r =
     (case r of
        SysOk _ \<Rightarrow> Connecting_ok
      | SysErr e \<Rightarrow> if e \<in> connect_pending then Connecting_ok
                    else if e \<in> connect_retry then Connect_later else ConnectFatal)"

text \<open>
  \<^verbatim>\<open>getSocketError\<close> answers whether \<^verbatim>\<open>getsockopt\<close> itself worked; the pending error it
  read (\<open>SysOk e\<close>) is only logged.
\<close>

definition getSocketError :: "errno option sys_result \<Rightarrow> bool" where
  "getSocketError r = (case r of SysErr _ \<Rightarrow> False | SysOk _ \<Rightarrow> True)"

section \<open>Binding and options\<close>

text \<open>A failing \<^verbatim>\<open>bind\<close> ends the program; the handle does not keep the address it was bound to.\<close>

definition handle_bind :: "unit sys_result \<Rightarrow> tcphandle \<Rightarrow> tcphandle option" where
  "handle_bind r h = (case r of SysErr _ \<Rightarrow> None | SysOk _ \<Rightarrow> Some h)"

text \<open>The options of a socket, as the kernel keeps them; a failing call is only logged.\<close>

record sock_options =
  so_reuseaddr :: bool
  so_nonblock :: bool
  so_nodelay :: bool
  so_shut_wr :: bool

definition setReuseAddr :: "unit sys_result \<Rightarrow> sock_options \<Rightarrow> sock_options" where
  "setReuseAddr r s = (case r of SysErr _ \<Rightarrow> s | SysOk _ \<Rightarrow> s\<lparr>so_reuseaddr := True\<rparr>)"

definition setNonBlock :: "unit sys_result \<Rightarrow> sock_options \<Rightarrow> sock_options" where
  "setNonBlock r s = (case r of SysErr _ \<Rightarrow> s | SysOk _ \<Rightarrow> s\<lparr>so_nonblock := True\<rparr>)"

definition setTCPNoDelay :: "unit sys_result \<Rightarrow> sock_options \<Rightarrow> sock_options" where
  "setTCPNoDelay r s = (case r of SysErr _ \<Rightarrow> s | SysOk _ \<Rightarrow> s\<lparr>so_nodelay := True\<rparr>)"

definition closeTCPNoDelay :: "unit sys_result \<Rightarrow> sock_options \<Rightarrow> sock_options" where
  "closeTCPNoDelay r s = (case r of SysErr _ \<Rightarrow> s | SysOk _ \<Rightarrow> s\<lparr>so_nodelay := False\<rparr>)"

definition handle_shutdown :: "sock_options \<Rightarrow> sock_options" where
  "handle_shutdown s = s\<lparr>so_shut_wr := True\<rparr>"

lemma options_kept:
  "so_nonblock (setReuseAddr r s) = so_nonblock s" "so_nonblock (setTCPNoDelay r s) = so_nonblock s"
  "so_nonblock (closeTCPNoDelay r s) = so_nonblock s" "so_nonblock (handle_shutdown s) = so_nonblock s"
  "so_nonblock (setNonBlock (SysOk ()) s)" "closeTCPNoDelay (SysOk ()) (setTCPNoDelay r s) = closeTCPNoDelay (SysOk ()) s"
  by (cases s; cases r;
      simp add: setReuseAddr_def setTCPNoDelay_def closeTCPNoDelay_def handle_shutdown_def setNonBlock_def)+

section \<open>Lemmas\<close>

lemma handle_send_bound: "handle_send data r = SysOk n \<Longrightarrow> n \<le> length data"
  by (auto simp: handle_send_def split: reply.splits)

lemma handle_recv_bound: "length (snd (handle_recv r)) \<le> recv_size"
  by (simp add: handle_recv_def Let_def split: reply.splits)

lemma handle_recv_ok: "fst (handle_recv r) = SysOk n \<Longrightarrow> n = length (snd (handle_recv r))"
  by (auto simp: handle_recv_def Let_def split: reply.splits)

lemma handle_recv_err: "fst (handle_recv r) = SysErr e \<Longrightarrow> snd (handle_recv r) = []"
  by (auto simp: handle_recv_def Let_def split: reply.splits)

lemma htons_involutive: "htons (htons w) = w"
proof (rule bit_word_eqI)
  fix n assume "n < LENGTH(16)"
  then show "bit (htons (htons w)) n \<longleftrightarrow> bit w n"
    by (auto simp: htons_def bit_simps intro: bit_imp_le_length dest: bit_imp_le_length)
qed

text \<open>The port a program reads back from a handle is the one it bound with its bytes exchanged.\<close>

lemma localPort_swapped:
  "localPort \<lparr>h_fd = f, h_nullFd = n, h_peer = p, h_local = bind_addr port ip\<rparr> = htons port"
  by (simp add: localPort_def bind_addr_def)

lemma localPort_example: "htons 20001 = (8526 :: 16 word)"
  by (simp add: htons_def)

end
