(* ===== verification/TCPConnection.thy ===== *)
theory TCPConnection
  imports TCPHandle
begin

text \<open>
  \<^verbatim>\<open>src/slite/TCPConnection.h\<close> and \<^verbatim>\<open>TCPConnection.cc\<close>: the state of a connection, its
  public operations, its four channel callbacks, and the functors it pushes onto its loop.

  The code of the application reaches a connection through the user callbacks. Such a
  callback is a function from the world to the list of calls it makes on connections
  (\<open>user_action\<close>); since it may read the whole world, the list is any deterministic
  behaviour. The close callback belongs to the library (the server or the client sets it)
  and is a function on worlds.
\<close>

section \<open>State\<close>

datatype ConnState = DISCONNECTED | CONNECTING | CONNECTED | DISCONNECTING

record tcpconn =
  conn_name :: string
  conn_loop :: loop_id
  recvBuffer :: bytes
  sendBuffer :: bytes
  conn_state :: ConnState
  conn_handle :: tcphandle
  hasWriteComplete :: bool

text \<open>The calls that the sources bind and push onto a loop.\<close>

datatype task =
    SendInLoop conn_id bytes        \<comment> \<open>TCPConnection.cc:94\<close>
  | ShutdownInLoop conn_id          \<comment> \<open>TCPConnection.cc:223\<close>
  | HandleClose conn_id             \<comment> \<open>TCPConnection.cc:240\<close>
  | WriteComplete conn_id           \<comment> \<open>TCPConnection.cc:116, 168\<close>
  | ConnectEstablished conn_id      \<comment> \<open>TCPServer.cc:64\<close>
  | ConnectDestroyed conn_id        \<comment> \<open>TCPServer.cc:34, 87, TCPClient.cc:15, 105\<close>
  | RemoveConnectionInLoop conn_id  \<comment> \<open>TCPServer.cc:72\<close>
  | AcceptorListen                  \<comment> \<open>TCPServer.cc:41\<close>
  | ConnectorStartInLoop            \<comment> \<open>Connector.cc:32\<close>
  | ConnectorStopInLoop             \<comment> \<open>Connector.cc:58\<close>
  | ConnectorResetChannel           \<comment> \<open>Connector.cc:98\<close>
  | SetCloseCallback conn_id        \<comment> \<open>TCPClient.cc:51\<close>

text \<open>
  The trace of a run: what goes to the network, what the callbacks are told, and which data
  a connection has taken for sending or given up.
\<close>

datatype event =
    Created conn_id             \<comment> \<open>the constructor\<close>
  | Sent conn_id bytes          \<comment> \<open>bytes the kernel took from \<^verbatim>\<open>send\<close>\<close>
  | HalfClosed conn_id          \<comment> \<open>\<^verbatim>\<open>shutdown(SHUT_WR)\<close>\<close>
  | Taken conn_id bytes         \<comment> \<open>\<^verbatim>\<open>sendInLoop\<close> has taken these data\<close>
  | GivenUp conn_id bytes       \<comment> \<open>\<^verbatim>\<open>sendInLoop\<close> has dropped these data\<close>
  | ConnCalled conn_id bool     \<comment> \<open>connection callback, with \<^verbatim>\<open>connected()\<close>\<close>
  | MessageCalled conn_id int
  | WriteCompleteCalled conn_id
  | CloseCalled conn_id

record net_world = "task ev_world" +
  conns :: "conn_id \<Rightarrow> tcpconn"
  replies :: "reply list"
  trace :: "event list"

definition upd_conn ::
  "conn_id \<Rightarrow> (tcpconn \<Rightarrow> tcpconn) \<Rightarrow> 'z net_world_scheme \<Rightarrow> 'z net_world_scheme" where
  "upd_conn c g w = w\<lparr>conns := (conns w)(c := g (conns w c))\<rparr>"

definition log :: "event \<Rightarrow> 'z net_world_scheme \<Rightarrow> 'z net_world_scheme" where
  "log e w = w\<lparr>trace := trace w @ [e]\<rparr>"

text \<open>The next answer of the kernel; when the list is used up, every call would block.\<close>

definition next_reply :: "'z net_world_scheme \<Rightarrow> reply" where
  "next_reply w = (case replies w of [] \<Rightarrow> Failed EAGAIN | r # _ \<Rightarrow> r)"

definition pop_reply :: "'z net_world_scheme \<Rightarrow> 'z net_world_scheme" where
  "pop_reply w = w\<lparr>replies := tl (replies w)\<rparr>"

definition conn_setState :: "ConnState \<Rightarrow> conn_id \<Rightarrow> 'z net_world_scheme \<Rightarrow> 'z net_world_scheme" where
  "conn_setState s c w = upd_conn c (\<lambda>n. n\<lparr>conn_state := s\<rparr>) w"

definition connected :: "conn_id \<Rightarrow> 'z net_world_scheme \<Rightarrow> bool" where
  "connected c w \<longleftrightarrow> conn_state (conns w c) = CONNECTED"

definition disConnected :: "conn_id \<Rightarrow> 'z net_world_scheme \<Rightarrow> bool" where
  "disConnected c w \<longleftrightarrow> conn_state (conns w c) = DISCONNECTED"

definition stateToString :: "ConnState \<Rightarrow> string" where
  "stateToString s = (case s of DISCONNECTED \<Rightarrow> ''Disconnected'' | CONNECTING \<Rightarrow> ''Connecting''
     | CONNECTED \<Rightarrow> ''Connected'' | DISCONNECTING \<Rightarrow> ''Disconnecting'')"

text \<open>The connection's own channel.\<close>

abbreviation chan_of :: "conn_id \<Rightarrow> 'z net_world_scheme \<Rightarrow> channel" where
  "chan_of c w \<equiv> chans w (ConnChan c)"

section \<open>Sending\<close>

text \<open>
  \<open>writeComplete\<close>: the push of the bound \<^verbatim>\<open>writeCompleteCallback_\<close>. \<open>sendDirect\<close>: the
  first half of \<^verbatim>\<open>sendInLoop\<close>; it gives the bytes sent, whether to give up, and the world.
\<close>

definition pushWriteComplete :: "conn_id \<Rightarrow> 'z net_world_scheme \<Rightarrow> 'z net_world_scheme" where
  "pushWriteComplete c w =
     (if hasWriteComplete (conns w c) then pushTask (conn_loop (conns w c)) (WriteComplete c) w else w)"

definition broken_errno :: "errno \<Rightarrow> bool" where
  "broken_errno e \<longleftrightarrow> e \<noteq> EWOULDBLOCK \<and> (e = EPIPE \<or> e = ECONNRESET)"

definition sendDirect :: "conn_id \<Rightarrow> bytes \<Rightarrow> 'z net_world_scheme \<Rightarrow> nat \<times> bool \<times> 'z net_world_scheme" where
  "sendDirect c data w =
     (if \<not> isSending (chan_of c w) \<and> length (sendBuffer (conns w c)) = 0 then
        (case handle_send data (next_reply w) of
           SysOk n \<Rightarrow>
             let w1 = log (Sent c (take n data)) (pop_reply w)
             in (n, False, if length data - n = 0 then pushWriteComplete c w1 else w1)
         | SysErr e \<Rightarrow> (0, broken_errno e, pop_reply w))
      else (0, False, w))"

definition sendInLoop :: "conn_id \<Rightarrow> bytes \<Rightarrow> 'z net_world_scheme \<Rightarrow> 'z net_world_scheme" where
  "sendInLoop c data w =
     (if conn_state (conns w c) = DISCONNECTED then log (GivenUp c data) w
      else
        case sendDirect c data w of
          (nsend, sendError, w1) \<Rightarrow>
            if sendError then log (GivenUp c data) w1
            else
              let w2 = log (Taken c data) w1 in
              if length data - nsend > 0 then
                let w3 = upd_conn c (\<lambda>n. n\<lparr>sendBuffer := sendBuffer n @ drop nsend data\<rparr>) w2
                in if \<not> isSending (chan_of c w3) then enableSend (ConnChan c) w3 else w3
              else w2)"

definition conn_send :: "conn_id \<Rightarrow> bytes \<Rightarrow> 'z net_world_scheme \<Rightarrow> 'z net_world_scheme" where
  "conn_send c data w =
     (if isInLoopThread (conn_loop (conns w c)) w then sendInLoop c data w
      else runTask (conn_loop (conns w c)) (sendInLoop c data) (SendInLoop c data) w)"

section \<open>Shutting down\<close>

definition shutdownInLoop :: "conn_id \<Rightarrow> 'z net_world_scheme \<Rightarrow> 'z net_world_scheme" where
  "shutdownInLoop c w =
     (let w1 = assertInLoopThread (conn_loop (conns w c)) w
      in if \<not> isSending (chan_of c w1) then log (HalfClosed c) w1 else w1)"

definition shutdown :: "conn_id \<Rightarrow> 'z net_world_scheme \<Rightarrow> 'z net_world_scheme" where
  "shutdown c w =
     (if conn_state (conns w c) = CONNECTED then
        runTask (conn_loop (conns w c)) (shutdownInLoop c) (ShutdownInLoop c) (conn_setState DISCONNECTING c w)
      else w)"

definition forceClose :: "conn_id \<Rightarrow> 'z net_world_scheme \<Rightarrow> 'z net_world_scheme" where
  "forceClose c w =
     (if conn_state (conns w c) = CONNECTED \<or> conn_state (conns w c) = DISCONNECTING then
        pushTask (conn_loop (conns w c)) (HandleClose c) (conn_setState DISCONNECTED c w)
      else w)"

section \<open>The application\<close>

datatype user_action =
    ASend conn_id bytes
  | AShutdown conn_id
  | AForceClose conn_id
  | ASetBuffer conn_id bytes   \<comment> \<open>the buffer is handed to the message callback by reference\<close>
  | AQuit loop_id

definition run_action :: "user_action \<Rightarrow> 'z net_world_scheme \<Rightarrow> 'z net_world_scheme" where
  "run_action a w =
     (case a of
        ASend c data \<Rightarrow> conn_send c data w
      | AShutdown c \<Rightarrow> shutdown c w
      | AForceClose c \<Rightarrow> forceClose c w
      | ASetBuffer c bs \<Rightarrow> upd_conn c (\<lambda>n. n\<lparr>recvBuffer := bs\<rparr>) w
      | AQuit l \<Rightarrow> quit_loop l w)"

record 'w conn_env =
  onConnection :: "conn_id \<Rightarrow> 'w \<Rightarrow> user_action list"
  onMessage :: "conn_id \<Rightarrow> int \<Rightarrow> 'w \<Rightarrow> user_action list"
  onWriteComplete :: "conn_id \<Rightarrow> 'w \<Rightarrow> user_action list"
  onClose :: "conn_id \<Rightarrow> 'w \<Rightarrow> 'w"

definition connectionCallback ::
  "'z net_world_scheme conn_env \<Rightarrow> conn_id \<Rightarrow> 'z net_world_scheme \<Rightarrow> 'z net_world_scheme" where
  "connectionCallback E c w =
     (let w1 = log (ConnCalled c (connected c w)) w in fold run_action (onConnection E c w1) w1)"

definition messageCallback ::
  "'z net_world_scheme conn_env \<Rightarrow> conn_id \<Rightarrow> int \<Rightarrow> 'z net_world_scheme \<Rightarrow> 'z net_world_scheme" where
  "messageCallback E c t w =
     (let w1 = log (MessageCalled c t) w in fold run_action (onMessage E c t w1) w1)"

definition writeCompleteCallback ::
  "'z net_world_scheme conn_env \<Rightarrow> conn_id \<Rightarrow> 'z net_world_scheme \<Rightarrow> 'z net_world_scheme" where
  "writeCompleteCallback E c w =
     (let w1 = log (WriteCompleteCalled c) w in fold run_action (onWriteComplete E c w1) w1)"

text \<open>The callbacks a connection has when the application sets none.\<close>

definition default_env :: "(conn_id \<Rightarrow> 'z net_world_scheme \<Rightarrow> 'z net_world_scheme) \<Rightarrow> 'z net_world_scheme conn_env" where
  "default_env close = \<lparr>onConnection = (\<lambda>c w. []), onMessage = (\<lambda>c t w. [ASetBuffer c []]),
     onWriteComplete = (\<lambda>c w. []), onClose = close\<rparr>"

section \<open>Channel callbacks\<close>

definition handleClose ::
  "'z net_world_scheme conn_env \<Rightarrow> conn_id \<Rightarrow> 'z net_world_scheme \<Rightarrow> 'z net_world_scheme" where
  "handleClose E c w =
     (let w1 = assertInLoopThread (conn_loop (conns w c)) w;
          w2 = disableAll (ConnChan c) (conn_setState DISCONNECTED c w1);
          w3 = connectionCallback E c w2
      in onClose E c (log (CloseCalled c) w3))"

text \<open>\<^verbatim>\<open>handleError\<close> reads the socket's error and logs it.\<close>

definition handleError :: "conn_id \<Rightarrow> 'z net_world_scheme \<Rightarrow> 'z net_world_scheme" where
  "handleError c w = w"

definition handleRecv ::
  "'z net_world_scheme conn_env \<Rightarrow> conn_id \<Rightarrow> int \<Rightarrow> 'z net_world_scheme \<Rightarrow> 'z net_world_scheme" where
  "handleRecv E c t w =
     (let w1 = assertInLoopThread (conn_loop (conns w c)) w;
          w2 = check (isRecving (chan_of c w1)) NotRecving w1;
          w3 = pop_reply w2
      in case handle_recv (next_reply w2) of
           (SysErr e, data) \<Rightarrow>
             if e \<noteq> EINTR \<and> e \<noteq> EWOULDBLOCK then handleError c w3
             else messageCallback E c t (upd_conn c (\<lambda>n. n\<lparr>recvBuffer := recvBuffer n @ data\<rparr>) w3)
         | (SysOk ret, data) \<Rightarrow>
             if ret = 0 then handleClose E c w3
             else messageCallback E c t (upd_conn c (\<lambda>n. n\<lparr>recvBuffer := recvBuffer n @ data\<rparr>) w3))"

definition handleSend :: "conn_id \<Rightarrow> 'z net_world_scheme \<Rightarrow> 'z net_world_scheme" where
  "handleSend c w =
     (let w1 = assertInLoopThread (conn_loop (conns w c)) w in
      if isSending (chan_of c w1) then
        (case handle_send (sendBuffer (conns w1 c)) (next_reply w1) of
           SysErr e \<Rightarrow> pop_reply w1
         | SysOk n \<Rightarrow>
             if n > 0 then
               let w2 = upd_conn c (\<lambda>m. m\<lparr>sendBuffer := drop n (sendBuffer m)\<rparr>)
                          (log (Sent c (take n (sendBuffer (conns w1 c)))) (pop_reply w1));
                   w3 = (if length (sendBuffer (conns w2 c)) = 0
                         then pushWriteComplete c (disableSend (ConnChan c) w2) else w2)
               in if conn_state (conns w3 c) = DISCONNECTING then shutdownInLoop c w3 else w3
             else pop_reply w1)
      else w1)"

section \<open>Life cycle\<close>

definition TCPConnection_ctor ::
  "conn_id \<Rightarrow> loop_id \<Rightarrow> tcphandle \<Rightarrow> string \<Rightarrow> bool \<Rightarrow> 'z net_world_scheme \<Rightarrow> 'z net_world_scheme" where
  "TCPConnection_ctor c l h name wc w =
     (log (Created c) w)\<lparr>conns := (conns w)(c := \<lparr>conn_name = name, conn_loop = l, recvBuffer = [], sendBuffer = [],
                   conn_state = CONNECTING, conn_handle = h, hasWriteComplete = wc\<rparr>),
       chans := (chans w)(ConnChan c := Channel_ctor l (h_fd h))\<rparr>"

definition connectEstablished ::
  "'z net_world_scheme conn_env \<Rightarrow> conn_id \<Rightarrow> 'z net_world_scheme \<Rightarrow> 'z net_world_scheme" where
  "connectEstablished E c w =
     (let w1 = conn_setState CONNECTED c w;
          w2 = enableRecv (ConnChan c) w1;
          w3 = upd_chan (ConnChan c) (tie c) w2
      in connectionCallback E c w3)"

definition connectDestroyed ::
  "'z net_world_scheme conn_env \<Rightarrow> conn_id \<Rightarrow> 'z net_world_scheme \<Rightarrow> 'z net_world_scheme" where
  "connectDestroyed E c w =
     (let w1 = (if conn_state (conns w c) = CONNECTED
                then connectionCallback E c (disableAll (ConnChan c) (conn_setState DISCONNECTED c w))
                else w)
      in remove_chan (ConnChan c) w1)"

text \<open>The callbacks the constructor sets on the channel, and the functors of a connection.\<close>

definition conn_cbs :: "'z net_world_scheme conn_env \<Rightarrow> conn_id \<Rightarrow> 'z net_world_scheme chan_callbacks" where
  "conn_cbs E c = \<lparr>recvCallback = Some (handleRecv E c), sendCallback = Some (handleSend c),
     closeCallback = Some (handleClose E c), errorCallback = Some (handleError c)\<rparr>"

definition exec_conn ::
  "'z net_world_scheme conn_env \<Rightarrow> task \<Rightarrow> 'z net_world_scheme \<Rightarrow> 'z net_world_scheme" where
  "exec_conn E f w =
     (case f of
        SendInLoop c data \<Rightarrow> sendInLoop c data w
      | ShutdownInLoop c \<Rightarrow> shutdownInLoop c w
      | HandleClose c \<Rightarrow> handleClose E c w
      | WriteComplete c \<Rightarrow> writeCompleteCallback E c w
      | ConnectEstablished c \<Rightarrow> connectEstablished E c w
      | ConnectDestroyed c \<Rightarrow> connectDestroyed E c w
      | _ \<Rightarrow> w)"

end
