(* ===== verification/ConnFacts.thy ===== *)
theory ConnFacts
  imports TCPConnection
begin

text \<open>
  Connections: which parts of the world each operation changes, the invariant of the send
  path and its preservation by every operation, handler and task, and the properties of
  sending, shutting down, receiving and closing.
\<close>

section \<open>Frames\<close>

lemma more_net:
  assumes "ev_world.more w' = ev_world.more (w :: 'z net_world_scheme)"
  shows "conns w' = conns w" "replies w' = replies w" "trace w' = trace w"
    "net_world.more w' = net_world.more w"
  using assms by (cases w; cases w'; simp)+

lemma quit_loop_frame [frame]:
  "chans (quit_loop l w) = chans w" "self (quit_loop l w) = self w"
  "violations (quit_loop l w) = violations w" "ev_world.more (quit_loop l w) = ev_world.more w"
  "taskQueue (loops (quit_loop l w) k) = taskQueue (loops w k)"
  "threadId (loops (quit_loop l w) k) = threadId (loops w k)"
  by (simp_all add: quit_defs Let_def frame)

lemma assertInLoopThread_simps [simp]:
  "chans (assertInLoopThread l w) = chans w" "self (assertInLoopThread l w) = self w"
  "loops (assertInLoopThread l w) = loops w" "threadLoop (assertInLoopThread l w) = threadLoop w"
  "ev_world.more (assertInLoopThread l w) = ev_world.more w"
  by (simp_all add: assertInLoopThread_def)

lemma handleRead_simps [simp]:
  "chans (handleRead l w) = chans w" "ev_world.more (handleRead l w) = ev_world.more w"
  by (simp_all add: handleRead_def)

lemma net_base [simp]:
  fixes w :: "'z net_world_scheme"
  shows
  "conns (upd_loop l g w) = conns w"
  "conns (upd_chan ch h w) = conns w"
  "conns (check b a w) = conns w"
  "conns (wakeup l w) = conns w"
  "conns (pushTask l f w) = conns w"
  "conns (set_events e ch w) = conns w"
  "conns (remove_chan ch w) = conns w"
  "conns (quit_loop l w) = conns w"
  "conns (assertInLoopThread l w) = conns w"
  "conns (handleRead l w) = conns w"
  "replies (upd_loop l g w) = replies w"
  "replies (upd_chan ch h w) = replies w"
  "replies (check b a w) = replies w"
  "replies (wakeup l w) = replies w"
  "replies (pushTask l f w) = replies w"
  "replies (set_events e ch w) = replies w"
  "replies (remove_chan ch w) = replies w"
  "replies (quit_loop l w) = replies w"
  "replies (assertInLoopThread l w) = replies w"
  "replies (handleRead l w) = replies w"
  "trace (upd_loop l g w) = trace w"
  "trace (upd_chan ch h w) = trace w"
  "trace (check b a w) = trace w"
  "trace (wakeup l w) = trace w"
  "trace (pushTask l f w) = trace w"
  "trace (set_events e ch w) = trace w"
  "trace (remove_chan ch w) = trace w"
  "trace (quit_loop l w) = trace w"
  "trace (assertInLoopThread l w) = trace w"
  "trace (handleRead l w) = trace w"
  by (rule more_net; simp add: frame)+

lemma upd_conn_simps [simp]:
  "conns (upd_conn c g w) = (conns w)(c := g (conns w c))"
  "loops (upd_conn c g w) = loops w" "chans (upd_conn c g w) = chans w"
  "self (upd_conn c g w) = self w" "violations (upd_conn c g w) = violations w"
  "threadLoop (upd_conn c g w) = threadLoop w"
  "replies (upd_conn c g w) = replies w" "trace (upd_conn c g w) = trace w"
  by (simp_all add: upd_conn_def)

lemma log_simps [simp]:
  "conns (log e w) = conns w" "loops (log e w) = loops w" "chans (log e w) = chans w"
  "self (log e w) = self w" "violations (log e w) = violations w"
  "threadLoop (log e w) = threadLoop w" "replies (log e w) = replies w"
  "trace (log e w) = trace w @ [e]"
  by (simp_all add: log_def)

lemma pop_reply_simps [simp]:
  "conns (pop_reply w) = conns w" "loops (pop_reply w) = loops w" "chans (pop_reply w) = chans w"
  "self (pop_reply w) = self w" "violations (pop_reply w) = violations w"
  "threadLoop (pop_reply w) = threadLoop w" "replies (pop_reply w) = tl (replies w)"
  "trace (pop_reply w) = trace w"
  by (simp_all add: pop_reply_def)

lemma conn_setState_simps [simp]:
  "conns (conn_setState s c w) = (conns w)(c := (conns w c)\<lparr>conn_state := s\<rparr>)"
  "loops (conn_setState s c w) = loops w" "chans (conn_setState s c w) = chans w"
  "self (conn_setState s c w) = self w" "violations (conn_setState s c w) = violations w"
  "replies (conn_setState s c w) = replies w" "trace (conn_setState s c w) = trace w"
  by (simp_all add: conn_setState_def)

lemma pushWriteComplete_simps [simp]:
  "conns (pushWriteComplete c w) = conns w" "chans (pushWriteComplete c w) = chans w"
  "replies (pushWriteComplete c w) = replies w" "trace (pushWriteComplete c w) = trace w"
  "self (pushWriteComplete c w) = self w" "violations (pushWriteComplete c w) = violations w"
  by (simp_all add: pushWriteComplete_def frame)

section \<open>The send path\<close>

text \<open>
  The part of a trace since the connection \<open>c\<close> was made, and the bytes sent and taken in a
  part of a trace and since then.
\<close>

definition since :: "conn_id \<Rightarrow> event list \<Rightarrow> event list" where
  "since c tr = foldl (\<lambda>es e. if e = Created c then [] else es @ [e]) [] tr"

definition sent_in :: "conn_id \<Rightarrow> event list \<Rightarrow> bytes" where
  "sent_in c tr = concat (map (\<lambda>e. case e of Sent d bs \<Rightarrow> if d = c then bs else [] | _ \<Rightarrow> []) tr)"

definition taken_in :: "conn_id \<Rightarrow> event list \<Rightarrow> bytes" where
  "taken_in c tr = concat (map (\<lambda>e. case e of Taken d bs \<Rightarrow> if d = c then bs else [] | _ \<Rightarrow> []) tr)"

definition sent_bytes :: "conn_id \<Rightarrow> event list \<Rightarrow> bytes" where
  "sent_bytes c tr = sent_in c (since c tr)"

definition taken_bytes :: "conn_id \<Rightarrow> event list \<Rightarrow> bytes" where
  "taken_bytes c tr = taken_in c (since c tr)"

lemma since_simps [simp]:
  "since c [] = []"
  "Created c \<notin> set ys \<Longrightarrow> since c (xs @ ys) = since c xs @ ys"
  "since c (xs @ [Created c]) = []"
proof -
  show "since c (xs @ ys) = since c xs @ ys" if "Created c \<notin> set ys"
    using that by (induction ys rule: rev_induct) (auto simp: since_def)
qed (simp_all add: since_def)

lemma sent_in_simps [simp]:
  "sent_in c [] = []" "sent_in c (xs @ ys) = sent_in c xs @ sent_in c ys"
  "sent_in c (e # es) = (case e of Sent d bs \<Rightarrow> if d = c then bs else [] | _ \<Rightarrow> []) @ sent_in c es"
  by (simp_all add: sent_in_def)

lemma taken_in_simps [simp]:
  "taken_in c [] = []" "taken_in c (xs @ ys) = taken_in c xs @ taken_in c ys"
  "taken_in c (e # es) = (case e of Taken d bs \<Rightarrow> if d = c then bs else [] | _ \<Rightarrow> []) @ taken_in c es"
  by (simp_all add: taken_in_def)

lemma sent_bytes_simps [simp]:
  "sent_bytes c [] = []"
  "Created c \<notin> set ys \<Longrightarrow> sent_bytes c (xs @ ys) = sent_bytes c xs @ sent_in c ys"
  by (simp_all add: sent_bytes_def)

lemma taken_bytes_simps [simp]:
  "taken_bytes c [] = []"
  "Created c \<notin> set ys \<Longrightarrow> taken_bytes c (xs @ ys) = taken_bytes c xs @ taken_in c ys"
  by (simp_all add: taken_bytes_def)

text \<open>A connection has been reported down: its connection callback was called when not connected.\<close>

definition down :: "conn_id \<Rightarrow> 'z net_world_scheme \<Rightarrow> bool" where
  "down c w \<longleftrightarrow> ConnCalled c False \<in> set (since c (trace w))"

text \<open>
  The invariant of the send path, for every connection: the bytes the kernel took, followed
  by the send buffer, are exactly the data \<^verbatim>\<open>sendInLoop\<close> has taken, in order; write interest
  is registered only while bytes are buffered, and whenever bytes are buffered, until the
  connection is reported down.
\<close>

definition send_ok :: "conn_id \<Rightarrow> 'z net_world_scheme \<Rightarrow> bool" where
  "send_ok c w \<longleftrightarrow>
     sent_bytes c (trace w) @ sendBuffer (conns w c) = taken_bytes c (trace w) \<and>
     (isSending (chan_of c w) \<longrightarrow> sendBuffer (conns w c) \<noteq> []) \<and>
     (sendBuffer (conns w c) \<noteq> [] \<longrightarrow> isSending (chan_of c w) \<or> down c w)"

definition conn_inv :: "'z net_world_scheme \<Rightarrow> bool" where
  "conn_inv w \<longleftrightarrow> (\<forall>c. send_ok c w)"

lemma conn_invD: "conn_inv w \<Longrightarrow> send_ok c w"
  by (simp add: conn_inv_def)

lemma conn_inv_cong:
  assumes "\<And>c. sendBuffer (conns w' c) = sendBuffer (conns w c)"
    and "\<And>c. isSending (chan_of c w') = isSending (chan_of c w)"
    and "trace w' = trace w"
  shows "conn_inv w' = conn_inv w"
  using assms by (simp add: conn_inv_def send_ok_def down_def)

text \<open>Operations that touch neither the buffers, the write interest nor the trace.\<close>

lemma isSending_upd [simp]:
  "isSending (c\<lparr>ch_state := s\<rparr>) = isSending c" "isSending (c\<lparr>ch_revents := r\<rparr>) = isSending c"
  "isSending (c\<lparr>ch_handling := b\<rparr>) = isSending c" "isSending (tie n c) = isSending c"
  "isRecving (c\<lparr>ch_state := s\<rparr>) = isRecving c" "isRecving (tie n c) = isRecving c"
  by (simp_all add: isSending_def isRecving_def tie_def)

lemma conn_inv_frame [simp]:
  fixes w :: "'z net_world_scheme"
  shows "conn_inv (upd_loop l g w) = conn_inv w" "conn_inv (check b a w) = conn_inv w"
    "conn_inv (assertInLoopThread l w) = conn_inv w" "conn_inv (wakeup l w) = conn_inv w"
    "conn_inv (pushTask l f w) = conn_inv w" "conn_inv (quit_loop l w) = conn_inv w"
    "conn_inv (handleRead l w) = conn_inv w" "conn_inv (pop_reply w) = conn_inv w"
    "conn_inv (conn_setState s c w) = conn_inv w" "conn_inv (pushWriteComplete c w) = conn_inv w"
    "conn_inv (remove_chan ch w) = conn_inv w"
    "conn_inv (upd_chan ch (tie n) w) = conn_inv w"
    "conn_inv (upd_chan ch (\<lambda>c. c\<lparr>ch_revents := r\<rparr>) w) = conn_inv w"
    "conn_inv (upd_chan ch (\<lambda>c. c\<lparr>ch_handling := bb\<rparr>) w) = conn_inv w"
    "conn_inv (upd_conn c (\<lambda>n. n\<lparr>recvBuffer := bs n\<rparr>) w) = conn_inv w"
  by (rule conn_inv_cong; simp add: frame effect)+

text \<open>Log entries that say nothing of the send path.\<close>

definition quiet :: "event \<Rightarrow> bool" where
  "quiet e \<longleftrightarrow> (case e of Created _ \<Rightarrow> False | Sent _ _ \<Rightarrow> False | Taken _ _ \<Rightarrow> False | _ \<Rightarrow> True)"

lemma conn_inv_log:
  assumes "conn_inv w" "quiet e"
  shows "conn_inv (log e w)"
proof -
  have "Created c \<notin> set [e] \<and> sent_in c [e] = [] \<and> taken_in c [e] = []" for c
    using assms(2) by (auto simp: quiet_def split: event.splits)
  with assms(1) show ?thesis by (auto simp: conn_inv_def send_ok_def down_def)
qed

section \<open>Every operation keeps the invariant\<close>

lemma isSending_ops [simp]:
  "isSending (chans (enableSend ch w) ch)" "\<not> isSending (chans (disableSend ch w) ch)"
  "isSending (chans (enableRecv ch w) d) = isSending (chans w d)"
  "\<not> isSending (chans (disableAll ch w) ch)"
  "d \<noteq> ch \<Longrightarrow> chans (enableSend ch w) d = chans w d"
  "d \<noteq> ch \<Longrightarrow> chans (disableSend ch w) d = chans w d"
  "d \<noteq> ch \<Longrightarrow> chans (disableAll ch w) d = chans w d"
  "d \<noteq> ch \<Longrightarrow> chans (enableRecv ch w) d = chans w d"
  by (simp_all add: chan_op_defs effect isSending_def) (simp add: event_defs)

lemma net_ops [simp]:
  fixes w :: "'z net_world_scheme"
  shows "conns (enableSend ch w) = conns w" "conns (disableSend ch w) = conns w"
    "conns (enableRecv ch w) = conns w" "conns (disableAll ch w) = conns w"
    "trace (enableSend ch w) = trace w" "trace (disableSend ch w) = trace w"
    "trace (enableRecv ch w) = trace w" "trace (disableAll ch w) = trace w"
    "replies (enableSend ch w) = replies w" "replies (disableSend ch w) = replies w"
    "replies (enableRecv ch w) = replies w" "replies (disableAll ch w) = replies w"
  by (simp_all add: chan_op_defs)

lemma conn_inv_enableRecv [simp]: "conn_inv (enableRecv ch w) = conn_inv w"
  by (rule conn_inv_cong) simp_all

lemma send_ok_other:
  assumes "send_ok d w" "conns w' d = conns w d" "chan_of d w' = chan_of d w"
    and "trace w' = trace w @ es"
    and "\<And>e. e \<in> set es \<Longrightarrow> quiet e \<or> (\<exists>bs. e = Sent c bs \<or> e = Taken c bs \<or> e = Created c)" and "d \<noteq> c"
  shows "send_ok d w'"
proof -
  have "sent_in d es = []" "taken_in d es = []" "Created d \<notin> set es"
    using assms(5,6) by (force simp: sent_in_def taken_in_def quiet_def split: event.splits)+
  with assms(1-4) show ?thesis by (auto simp: send_ok_def down_def)
qed

lemma conn_inv_step:
  assumes "conn_inv w" "send_ok c w'"
    and "\<And>d. d \<noteq> c \<Longrightarrow> conns w' d = conns w d" "\<And>d. d \<noteq> c \<Longrightarrow> chan_of d w' = chan_of d w"
    and "trace w' = trace w @ es"
    and "\<And>e. e \<in> set es \<Longrightarrow> quiet e \<or> (\<exists>bs. e = Sent c bs \<or> e = Taken c bs \<or> e = Created c)"
  shows "conn_inv w'"
  unfolding conn_inv_def
proof
  fix d
  show "send_ok d w'"
  proof (cases "d = c")
    case True
    with assms(2) show ?thesis by simp
  next
    case False
    with assms show ?thesis by (intro send_ok_other [of d w w' es c]) (auto simp: conn_inv_def)
  qed
qed

text \<open>The three outcomes of \<^const>\<open>sendInLoop\<close> that do not give the data up.\<close>

definition direct :: "conn_id \<Rightarrow> 'z net_world_scheme \<Rightarrow> bool" where
  "direct c w \<longleftrightarrow> \<not> isSending (chan_of c w) \<and> sendBuffer (conns w c) = []"

definition gives_up :: "conn_id \<Rightarrow> bytes \<Rightarrow> 'z net_world_scheme \<Rightarrow> bool" where
  "gives_up c data w \<longleftrightarrow> conn_state (conns w c) = DISCONNECTED \<or>
     (direct c w \<and> next_reply w \<in> {Failed EPIPE, Failed ECONNRESET})"

definition sent_now :: "conn_id \<Rightarrow> bytes \<Rightarrow> 'z net_world_scheme \<Rightarrow> nat" where
  "sent_now c data w =
     (if direct c w then (case next_reply w of Done n _ \<Rightarrow> min n (length data) | Failed _ \<Rightarrow> 0) else 0)"

lemma sent_now_le: "sent_now c data w \<le> length data"
  by (simp add: sent_now_def split: reply.splits)

lemma sendDirect_result:
  "sendDirect c data w =
     (sent_now c data w, direct c w \<and> next_reply w \<in> {Failed EPIPE, Failed ECONNRESET},
      snd (snd (sendDirect c data w)))"
  by (auto simp: sendDirect_def direct_def sent_now_def handle_send_def broken_errno_def Let_def
      split: reply.splits)

lemma sendDirect_world:
  fixes w :: "'z net_world_scheme" and c data
  defines "w1 \<equiv> snd (snd (sendDirect c data w))"
  shows "conns w1 = conns w" "chans w1 = chans w" "self w1 = self w" "violations w1 = violations w"
    "trace w1 = trace w @ (if direct c w \<and> (\<exists>n b. next_reply w = Done n b)
       then [Sent c (take (sent_now c data w) data)] else [])"
  by (auto simp: w1_def sendDirect_def direct_def sent_now_def handle_send_def Let_def
      split: reply.splits)

lemma sendInLoop_gives_up:
  assumes "gives_up c data w"
  shows "conns (sendInLoop c data w) = conns w" "chans (sendInLoop c data w) = chans w"
    "trace (sendInLoop c data w) = trace w @ [GivenUp c data]"
proof -
  define r where "r = sendDirect c data w"
  have r: "r = (sent_now c data w, direct c w \<and> next_reply w \<in> {Failed EPIPE, Failed ECONNRESET}, snd (snd r))"
    unfolding r_def by (rule sendDirect_result)
  have sd: "sendInLoop c data w = (if conn_state (conns w c) = DISCONNECTED then log (GivenUp c data) w
      else log (GivenUp c data) (snd (snd r)))"
    using assms unfolding sendInLoop_def r_def [symmetric] gives_up_def by (subst r) auto
  have tr: "trace (snd (snd r)) = trace w" if "conn_state (conns w c) \<noteq> DISCONNECTED"
    using assms that unfolding r_def sendDirect_world by (auto simp: gives_up_def)
  show "conns (sendInLoop c data w) = conns w" "chans (sendInLoop c data w) = chans w"
    "trace (sendInLoop c data w) = trace w @ [GivenUp c data]"
    using tr by (simp_all add: sd r_def sendDirect_world)
qed

lemma sendInLoop_takes:
  fixes w :: "'z net_world_scheme" and c data
  assumes "\<not> gives_up c data w"
  defines "n \<equiv> sent_now c data w" and "w' \<equiv> sendInLoop c data w"
  shows "conns w' = (conns w)(c := (conns w c)\<lparr>sendBuffer := sendBuffer (conns w c) @ drop n data\<rparr>)"
    "isSending (chan_of c w') \<longleftrightarrow> isSending (chan_of c w) \<or> n < length data"
    "\<And>d. d \<noteq> c \<Longrightarrow> chan_of d w' = chan_of d w"
    "trace w' = trace w @ (if direct c w \<and> (\<exists>k b. next_reply w = Done k b)
       then [Sent c (take n data)] else []) @ [Taken c data]"
proof -
  define r where "r = sendDirect c data w"
  have r: "r = (n, False, snd (snd r))"
    unfolding r_def n_def using sendDirect_result [of c data w] assms(1)
    by (auto simp: gives_up_def)
  note W = sendDirect_world [of c data w, folded r_def n_def]
  have nd: "conn_state (conns w c) \<noteq> DISCONNECTED" using assms(1) by (simp add: gives_up_def)
  have w': "w' =
     (if n < length data then
        let w3 = upd_conn c (\<lambda>m. m\<lparr>sendBuffer := sendBuffer m @ drop n data\<rparr>) (log (Taken c data) (snd (snd r)))
        in if \<not> isSending (chan_of c w3) then enableSend (ConnChan c) w3 else w3
      else log (Taken c data) (snd (snd r)))"
    unfolding w'_def sendInLoop_def r_def [symmetric] using nd by (subst r) (simp add: Let_def)
  show "conns w' = (conns w)(c := (conns w c)\<lparr>sendBuffer := sendBuffer (conns w c) @ drop n data\<rparr>)"
    by (auto simp: w' W Let_def)
  show "isSending (chan_of c w') \<longleftrightarrow> isSending (chan_of c w) \<or> n < length data"
    by (auto simp: w' W Let_def)
  show "chan_of d w' = chan_of d w" if "d \<noteq> c" for d
    using that by (simp add: w' W Let_def)
  show "trace w' = trace w @ (if direct c w \<and> (\<exists>k b. next_reply w = Done k b)
       then [Sent c (take n data)] else []) @ [Taken c data]"
    by (simp add: w' W Let_def)
qed

lemma sendInLoop_keeps:
  assumes inv: "conn_inv w"
  shows "conn_inv (sendInLoop c data w)"
proof (cases "gives_up c data w")
  case True
  show ?thesis
    by (rule conn_inv_step [OF inv, of c _ "[GivenUp c data]"])
       (use conn_invD [OF inv, of c] in
         \<open>auto simp: sendInLoop_gives_up [OF True] send_ok_def down_def quiet_def\<close>)
next
  case False
  define n where "n = sent_now c data w"
  note T = sendInLoop_takes [OF False, folded n_def]
  have ok: "send_ok c w" by (rule conn_invD [OF inv])
  have sent: "n = 0" if "\<not> (direct c w \<and> (\<exists>k b. next_reply w = Done k b))"
    using that by (auto simp: n_def sent_now_def split: reply.splits)
  have empty: "sendBuffer (conns w c) = []" if "direct c w" using that by (simp add: direct_def)
  have "send_ok c (sendInLoop c data w)"
  proof (cases "direct c w \<and> (\<exists>k b. next_reply w = Done k b)")
    case True
    with ok T empty show ?thesis by (auto simp: send_ok_def down_def direct_def)
  next
    case False
    with sent have "n = 0" by simp
    with ok False T show ?thesis by (auto simp: send_ok_def down_def)
  qed
  then show ?thesis
    by (rule conn_inv_step [OF inv, of c _ "(if direct c w \<and> (\<exists>k b. next_reply w = Done k b)
       then [Sent c (take n data)] else []) @ [Taken c data]"])
       (auto simp: T)
qed

lemma shutdownInLoop_keeps: "conn_inv w \<Longrightarrow> conn_inv (shutdownInLoop c w)"
  by (simp add: shutdownInLoop_def Let_def conn_inv_log quiet_def)

lemma conn_send_keeps: "conn_inv w \<Longrightarrow> conn_inv (conn_send c data w)"
  by (simp add: conn_send_def runTask_def sendInLoop_keeps)

lemma shutdown_keeps: "conn_inv w \<Longrightarrow> conn_inv (shutdown c w)"
  by (simp add: shutdown_def runTask_def shutdownInLoop_keeps)

lemma forceClose_keeps: "conn_inv w \<Longrightarrow> conn_inv (forceClose c w)"
  by (simp add: forceClose_def)

lemma run_action_keeps: "conn_inv w \<Longrightarrow> conn_inv (run_action a w)"
  by (cases a) (simp_all add: run_action_def conn_send_keeps shutdown_keeps forceClose_keeps)

lemma actions_keep: "conn_inv w \<Longrightarrow> conn_inv (fold run_action as w)"
  by (rule fold_invariant [where P = conn_inv]) (auto intro: run_action_keeps)

lemma connectionCallback_keeps: "conn_inv w \<Longrightarrow> conn_inv (connectionCallback E c w)"
  by (simp add: connectionCallback_def Let_def actions_keep conn_inv_log quiet_def)

lemma messageCallback_keeps: "conn_inv w \<Longrightarrow> conn_inv (messageCallback E c t w)"
  by (simp add: messageCallback_def Let_def actions_keep conn_inv_log quiet_def)

lemma writeCompleteCallback_keeps: "conn_inv w \<Longrightarrow> conn_inv (writeCompleteCallback E c w)"
  by (simp add: writeCompleteCallback_def Let_def actions_keep conn_inv_log quiet_def)

lemma disconnect_keeps:
  assumes inv: "conn_inv w"
  shows "conn_inv (connectionCallback E c (disableAll (ConnChan c) (conn_setState DISCONNECTED c w)))"
proof -
  define w1 where "w1 = disableAll (ConnChan c) (conn_setState DISCONNECTED c w)"
  have "conn_inv (log (ConnCalled c (connected c w1)) w1)"
    by (rule conn_inv_step [OF inv, of c _ "[ConnCalled c False]"])
       (use conn_invD [OF inv, of c] in
         \<open>auto simp: w1_def send_ok_def down_def connected_def quiet_def\<close>)
  then show ?thesis
    unfolding connectionCallback_def w1_def [symmetric] by (simp add: Let_def actions_keep)
qed

lemma ctor_keeps:
  assumes inv: "conn_inv w"
  shows "conn_inv (TCPConnection_ctor c l h name wc w)"
  by (rule conn_inv_step [OF inv, of c _ "[Created c]"])
     (simp_all add: TCPConnection_ctor_def send_ok_def sent_bytes_def taken_bytes_def
        Channel_ctor_def isSending_def)

lemma handleSend_writes_keeps:
  assumes inv: "conn_inv w" and sending: "isSending (chan_of c w)"
    and n: "handle_send (sendBuffer (conns w c)) (next_reply w) = SysOk n"
  defines "w2 \<equiv> upd_conn c (\<lambda>m. m\<lparr>sendBuffer := drop n (sendBuffer m)\<rparr>)
    (log (Sent c (take n (sendBuffer (conns w c)))) (pop_reply w))"
  shows "conn_inv (if length (sendBuffer (conns w2 c)) = 0 then pushWriteComplete c (disableSend (ConnChan c) w2) else w2)"
proof -
  have "n \<le> length (sendBuffer (conns w c))" using n by (simp add: handle_send_bound)
  then show ?thesis
    by (intro conn_inv_step [OF inv, of c _ "[Sent c (take n (sendBuffer (conns w c)))]"])
      (use conn_invD [OF inv, of c] sending in \<open>auto simp: w2_def send_ok_def down_def\<close>)
qed

lemma handleSend_keeps:
  assumes inv: "conn_inv w"
  shows "conn_inv (handleSend c w)"
proof -
  define w1 where "w1 = assertInLoopThread (conn_loop (conns w c)) w"
  have inv1: "conn_inv w1" by (simp add: w1_def inv)
  show ?thesis
  proof (cases "isSending (chan_of c w1)")
    case False
    then show ?thesis using inv1 by (simp add: handleSend_def w1_def [symmetric] Let_def)
  next
    case sending: True
    show ?thesis
    proof (cases "handle_send (sendBuffer (conns w1 c)) (next_reply w1)")
      case (SysErr e)
      then show ?thesis using inv1 sending by (simp add: handleSend_def w1_def [symmetric] Let_def)
    next
      case (SysOk n)
      from handleSend_writes_keeps [OF inv1 sending SysOk] inv1 show ?thesis
        using sending SysOk unfolding handleSend_def w1_def [symmetric]
        by (simp add: Let_def shutdownInLoop_keeps)
    qed
  qed
qed

section \<open>Notifications\<close>

text \<open>The calls of the connection and close callbacks of \<open>c\<close> in a trace.\<close>

definition notices :: "conn_id \<Rightarrow> event list \<Rightarrow> event list" where
  "notices c tr = filter (\<lambda>e. case e of ConnCalled d _ \<Rightarrow> d = c | CloseCalled d \<Rightarrow> d = c | _ \<Rightarrow> False) tr"

lemma notices_simps [simp]:
  "notices c [] = []" "notices c (xs @ ys) = notices c xs @ notices c ys"
  "notices c (e # es) = (case e of ConnCalled d _ \<Rightarrow> if d = c then [e] else []
     | CloseCalled d \<Rightarrow> if d = c then [e] else [] | _ \<Rightarrow> []) @ notices c es"
  by (auto simp: notices_def split: event.splits)

lemma sendInLoop_notes [simp]: "notices d (trace (sendInLoop c data w)) = notices d (trace w)"
proof (cases "gives_up c data w")
  case True
  then show ?thesis by (simp add: sendInLoop_gives_up)
next
  case False
  then show ?thesis by (simp add: sendInLoop_takes)
qed

lemma shutdownInLoop_notes [simp]: "notices d (trace (shutdownInLoop c w)) = notices d (trace w)"
  by (simp add: shutdownInLoop_def Let_def)

lemma run_action_notes [simp]: "notices d (trace (run_action a w)) = notices d (trace w)"
  by (cases a) (simp_all add: run_action_def conn_send_def shutdown_def forceClose_def runTask_def)

lemma actions_notes [simp]: "notices d (trace (fold run_action as w)) = notices d (trace w)"
  by (rule fold_measure_eq [where g = "\<lambda>w. notices d (trace w)"]) simp

section \<open>The close callback\<close>

text \<open>
  What a connection relies on of the close callback its owner (a server or a client) sets:
  it keeps the invariant of the send path and calls no callback of the application itself.
\<close>

locale keeps_contract =
  fixes E :: "'z net_world_scheme conn_env"
  assumes onClose_keeps: "conn_inv w \<Longrightarrow> conn_inv (onClose E c w)"
begin

lemma handleClose_keeps: "conn_inv w \<Longrightarrow> conn_inv (handleClose E c w)"
  by (simp add: handleClose_def Let_def onClose_keeps disconnect_keeps conn_inv_log quiet_def)

lemma handleRecv_keeps: "conn_inv w \<Longrightarrow> conn_inv (handleRecv E c t w)"
  by (auto simp: handleRecv_def Let_def handleError_def messageCallback_keeps handleClose_keeps
      split: sys_result.splits prod.splits)

lemma connectEstablished_keeps: "conn_inv w \<Longrightarrow> conn_inv (connectEstablished E c w)"
  by (simp add: connectEstablished_def Let_def connectionCallback_keeps)

lemma connectDestroyed_keeps: "conn_inv w \<Longrightarrow> conn_inv (connectDestroyed E c w)"
  by (simp add: connectDestroyed_def Let_def disconnect_keeps)

lemma exec_conn_keeps: "conn_inv w \<Longrightarrow> conn_inv (exec_conn E f w)"
  by (cases f) (simp_all add: exec_conn_def sendInLoop_keeps shutdownInLoop_keeps handleClose_keeps
      writeCompleteCallback_keeps connectEstablished_keeps connectDestroyed_keeps)

lemmas conn_handlers_keep = handleRecv_keeps handleSend_keeps handleClose_keeps exec_conn_keeps

end

text \<open>The owner's close callback tells the application nothing.\<close>

locale close_contract = keeps_contract E for E :: "'z net_world_scheme conn_env" +
  assumes onClose_notes: "notices d (trace (onClose E c w)) = notices d (trace w)"
begin

lemma handleClose_notifies:
  "notices c (trace (handleClose E c w)) = notices c (trace w) @ [ConnCalled c False, CloseCalled c]"
  by (simp add: handleClose_def Let_def onClose_notes connectionCallback_def connected_def)

lemma connectDestroyed_notifies:
  "notices c (trace (connectDestroyed E c w)) =
     notices c (trace w) @ (if connected c w then [ConnCalled c False] else [])"
  by (simp add: connectDestroyed_def Let_def connectionCallback_def connected_def)

lemma connectEstablished_notifies:
  "notices c (trace (connectEstablished E c w)) = notices c (trace w) @ [ConnCalled c True]"
  by (simp add: connectEstablished_def Let_def connectionCallback_def connected_def)

end

section \<open>Properties of sending\<close>

lemma sendInLoop_stream:
  assumes "\<not> gives_up c data w"
  shows "sent_bytes c (trace (sendInLoop c data w)) @ sendBuffer (conns (sendInLoop c data w) c) =
    sent_bytes c (trace w) @ sendBuffer (conns w c) @ data"
proof (cases "direct c w \<and> (\<exists>k b. next_reply w = Done k b)")
  case True
  then have "sendBuffer (conns w c) = []" by (simp add: direct_def)
  with True assms show ?thesis by (simp add: sendInLoop_takes)
next
  case False
  then have "sent_now c data w = 0" by (auto simp: sent_now_def split: reply.splits)
  with False assms show ?thesis by (auto simp: sendInLoop_takes)
qed

text \<open>
  C5. \<^verbatim>\<open>sendInLoop\<close> neither loses, duplicates nor reorders bytes: unless it gives the data
  up, which it does exactly when the connection is disconnected or the direct \<^verbatim>\<open>send\<close> fails
  with \<^verbatim>\<open>EPIPE\<close> or \<^verbatim>\<open>ECONNRESET\<close>, the bytes the kernel has taken followed by the send
  buffer grow by exactly \<open>data\<close>, whatever the kernel answers, and write interest is on when
  it was on before or some of \<open>data\<close> is left. Data given up leave the connection alone.
  No other connection changes.
\<close>

theorem sendInLoop_outcome:
  "let w' = sendInLoop c data w;
       stream = (\<lambda>w. sent_bytes c (trace w) @ sendBuffer (conns w c)) in
     (if gives_up c data w
      then stream w' = stream w \<and> conns w' c = conns w c \<and> chan_of c w' = chan_of c w
      else stream w' = stream w @ data \<and>
           isSending (chan_of c w') = (isSending (chan_of c w) \<or> sent_now c data w < length data)) \<and>
     {d. d \<noteq> c \<and> (conns w' d, chan_of d w') \<noteq> (conns w d, chan_of d w)} = {}"
proof (cases "gives_up c data w")
  case True
  then show ?thesis by (auto simp: Let_def sendInLoop_gives_up)
next
  case False
  then show ?thesis using sendInLoop_stream [OF False]
    by (auto simp: Let_def sendInLoop_takes(2,3)) (simp_all add: sendInLoop_takes(1))
qed

text \<open>
  C17. The write side of the socket is shut down only behind the data: while the connection is
  not reported down, \<^verbatim>\<open>shutdownInLoop\<close> half-closes the socket exactly when every byte the
  connection has taken for sending was taken by the kernel.
\<close>

theorem half_close_after_data:
  assumes "conn_inv w" "\<not> down c w"
  shows "trace (shutdownInLoop c w) =
    trace w @ (if sent_bytes c (trace w) = taken_bytes c (trace w) then [HalfClosed c] else [])"
proof -
  have ok: "send_ok c w" using assms(1) by (rule conn_invD)
  then have "isSending (chan_of c w) \<longleftrightarrow> sendBuffer (conns w c) \<noteq> []"
    using assms(2) by (auto simp: send_ok_def)
  moreover have "sendBuffer (conns w c) = [] \<longleftrightarrow> sent_bytes c (trace w) = taken_bytes c (trace w)"
    using ok unfolding send_ok_def by (metis append_Nil2 append_self_conv)
  ultimately show ?thesis by (simp add: shutdownInLoop_def Let_def)
qed

lemma handleSend_result:
  fixes w :: "'z net_world_scheme" and c
  assumes sending: "isSending (chan_of c w)" and r: "next_reply w = Done k bs" "0 < k" "sendBuffer (conns w c) \<noteq> []"
  defines "b \<equiv> sendBuffer (conns w c)" and "w' \<equiv> handleSend c w"
  shows "trace w' = trace w @ [Sent c (take k b)] @
      (if conn_state (conns w c) = DISCONNECTING \<and> length b \<le> k then [HalfClosed c] else [])"
    "sendBuffer (conns w' c) = drop k b"
    "isSending (chan_of c w') \<longleftrightarrow> k < length b"
    "taskQueue (loops w' (conn_loop (conns w c))) = taskQueue (loops w (conn_loop (conns w c))) @
      (if length b \<le> k \<and> hasWriteComplete (conns w c) then [WriteComplete c] else [])"
proof -
  have nr: "next_reply (assertInLoopThread l w) = Done k bs" for l
    using r(1) by (simp add: next_reply_def)
  have len: "0 < length b" using r(3) by (simp add: b_def)
  note D = w'_def handleSend_def Let_def nr handle_send_def shutdownInLoop_def pushWriteComplete_def
    frame effect chan_op_defs b_def isSending_def min_def
  show "trace w' = trace w @ [Sent c (take k b)] @
      (if conn_state (conns w c) = DISCONNECTING \<and> length b \<le> k then [HalfClosed c] else [])"
    using sending r len by (auto simp: D)
  show "sendBuffer (conns w' c) = drop k b"
    using sending r len by (auto simp: D)
  show "isSending (chan_of c w') \<longleftrightarrow> k < length b"
    using sending r len by (auto simp: D)
  show "taskQueue (loops w' (conn_loop (conns w c))) = taskQueue (loops w (conn_loop (conns w c))) @
      (if length b \<le> k \<and> hasWriteComplete (conns w c) then [WriteComplete c] else [])"
    using sending r len by (auto simp: D)
qed

text \<open>
  A shutdown asked for while data are buffered completes: when the channel of a
  connection that is shutting down becomes writable and the kernel takes the whole send
  buffer, \<^verbatim>\<open>handleSend\<close> sends exactly the buffer, then half-closes the socket, drops its
  write interest and queues the write-complete callback if there is one; when the kernel
  takes only a part, the rest stays buffered with write interest on and the socket stays
  open.
\<close>

theorem graceful_shutdown:
  assumes "isSending (chan_of c w)" "conn_state (conns w c) = DISCONNECTING"
    and "sendBuffer (conns w c) \<noteq> []" "next_reply w = Done k bs" "0 < k"
  shows "let w' = handleSend c w; b = sendBuffer (conns w c); l = conn_loop (conns w c) in
    sendBuffer (conns w' c) = drop k b \<and>
    isSending (chan_of c w') = (k < length b) \<and>
    trace w' = trace w @ [Sent c (take k b)] @ (if length b \<le> k then [HalfClosed c] else []) \<and>
    taskQueue (loops w' l) = taskQueue (loops w l) @
      (if length b \<le> k \<and> hasWriteComplete (conns w c) then [WriteComplete c] else [])"
  using handleSend_result [OF assms(1,4,5,3)] assms(2) by (simp add: Let_def)

section \<open>Receiving\<close>

text \<open>
  What \<^verbatim>\<open>handleRecv\<close> does with each answer of \<^verbatim>\<open>recv\<close>: the end of the stream runs
  \<^verbatim>\<open>handleClose\<close>; bytes are added at the end of the receive buffer, at most 65535 at a time,
  and the message callback runs once; so it does, with the buffer unchanged, when the call was
  interrupted or would block; any other error changes nothing.
\<close>

theorem handleRecv_outcome:
  fixes w :: "'z net_world_scheme" and c :: conn_id
  defines "w1 \<equiv> pop_reply (check (isRecving (chan_of c w)) NotRecving
                   (assertInLoopThread (conn_loop (conns w c)) w))"
    and "got \<equiv> (\<lambda>bs w. upd_conn c (\<lambda>n. n\<lparr>recvBuffer := recvBuffer n @ take recv_size bs\<rparr>) w)"
  shows "handleRecv E c t w =
    (case next_reply w of
       Done _ bs \<Rightarrow> if bs = [] then handleClose E c w1 else messageCallback E c t (got bs w1)
     | Failed e \<Rightarrow> if e \<in> {EINTR, EWOULDBLOCK} then messageCallback E c t (got [] w1) else w1)"
proof -
  have nr: "next_reply (check b a (assertInLoopThread l w)) = next_reply w" for a b l
    by (simp add: next_reply_def)
  show ?thesis
    by (auto simp: handleRecv_def Let_def nr handle_recv_def handleError_def w1_def got_def recv_size_def
        min_def split: reply.splits if_splits)
qed

section \<open>Examples\<close>

definition boot_net :: "reply list \<Rightarrow> net_world" where
  "boot_net rs = \<lparr>self = 0, loops = (\<lambda>_. boot_loop), chans = (\<lambda>_. Channel_ctor 0 0), threadLoop = Map.empty,
     violations = [],
     conns = (\<lambda>_. \<lparr>conn_name = [], conn_loop = 0, recvBuffer = [], sendBuffer = [], conn_state = CONNECTING,
                conn_handle = TCPHandle_of_fd 0 zero_addr zero_addr, hasWriteComplete = False\<rparr>),
     replies = rs, trace = []\<rparr>"

lemma conn_inv_boot: "conn_inv (boot_net rs)"
  by (simp add: conn_inv_def send_ok_def boot_net_def Channel_ctor_def isSending_def NoneEvent_def)

text \<open>Connection 5 sends \<open>abc\<close>; the kernel takes one byte.\<close>

definition sent_one :: "reply list \<Rightarrow> net_world" where
  "sent_one rs = conn_setState DISCONNECTING 5
     (sendInLoop 5 ''abc'' (conn_setState CONNECTED 5 (boot_net (Done 1 [] # rs))))"

lemma sent_one_facts:
  "conn_inv (sent_one rs)" "trace (sent_one rs) = [Sent 5 ''a'', Taken 5 ''abc'']"
  "sendBuffer (conns (sent_one rs) 5) = ''bc''" "isSending (chan_of 5 (sent_one rs))"
  "conn_state (conns (sent_one rs) 5) = DISCONNECTING" "replies (sent_one rs) = rs"
proof -
  define w where "w = conn_setState CONNECTED 5 (boot_net (Done 1 [] # rs))"
  have w: "direct 5 w" "\<not> gives_up 5 ''abc'' w" "next_reply w = Done 1 []" "trace w = []"
    "sendBuffer (conns w 5) = []"
    by (simp_all add: w_def direct_def gives_up_def boot_net_def next_reply_def Channel_ctor_def
        isSending_def NoneEvent_def)
  have inv: "conn_inv w" by (simp add: w_def conn_inv_boot)
  have n: "sent_now 5 ''abc'' w = 1" using w by (simp add: sent_now_def)
  show "conn_inv (sent_one rs)" unfolding sent_one_def w_def [symmetric]
    by (simp add: sendInLoop_keeps inv)
  show "trace (sent_one rs) = [Sent 5 ''a'', Taken 5 ''abc'']"
    "sendBuffer (conns (sent_one rs) 5) = ''bc''" "isSending (chan_of 5 (sent_one rs))"
    "conn_state (conns (sent_one rs) 5) = DISCONNECTING"
    unfolding sent_one_def w_def [symmetric] by (simp_all add: sendInLoop_takes [OF w(2)] w n)
  show "replies (sent_one rs) = rs"
    by (simp add: sent_one_def sendInLoop_def sendDirect_def boot_net_def next_reply_def Channel_ctor_def
        isSending_def NoneEvent_def handle_send_def Let_def pushWriteComplete_def)
qed

theorem half_close_after_data_witness:
  "trace (shutdownInLoop 5 (sent_one [])) = trace (sent_one [])"
  using half_close_after_data [OF sent_one_facts(1), of 5 "[]"] sent_one_facts(2) [of "[]"]
  by (simp add: down_def since_def sent_bytes_def taken_bytes_def)

theorem graceful_shutdown_witness:
  "trace (handleSend 5 (sent_one [Done 7 []])) = [Sent 5 ''a'', Taken 5 ''abc'', Sent 5 ''bc'', HalfClosed 5]"
  using graceful_shutdown [OF sent_one_facts(4,5), of "[Done 7 []]" 7 "[]"]
  unfolding Let_def sent_one_facts by (simp add: next_reply_def sent_one_facts)

end
