(* ===== verification/ConnOwner.thy ===== *)
theory ConnOwner
  imports ConnFacts
begin

text \<open>
  What a connection leaves to its owner, the server or client that made it: no operation of
  a connection changes the owner's part of the world or the name and loop of a connection.
  The contract between a connection and the close callback its owner sets is a locale.
\<close>

section \<open>The owner's part of the world\<close>

definition same_owner :: "'z net_world_scheme \<Rightarrow> 'z net_world_scheme \<Rightarrow> bool" where
  "same_owner w w' \<longleftrightarrow> net_world.more w' = net_world.more w \<and>
     (\<forall>c. conn_name (conns w' c) = conn_name (conns w c) \<and> conn_loop (conns w' c) = conn_loop (conns w c))"

lemma same_owner_refl [simp]: "same_owner w w"
  by (simp add: same_owner_def)

lemma same_owner_trans: "same_owner w w' \<Longrightarrow> same_owner w' w'' \<Longrightarrow> same_owner w w''"
  by (simp add: same_owner_def)

lemma more_more:
  assumes "ev_world.more w' = ev_world.more (w :: 'z net_world_scheme)"
  shows "same_owner w w'"
  using more_net [OF assms] by (simp add: same_owner_def)

lemma same_owner_base [simp]:
  fixes w :: "'z net_world_scheme"
  shows "same_owner v (upd_loop l g w) = same_owner v w" "same_owner v (upd_chan ch h w) = same_owner v w"
    "same_owner v (check b x w) = same_owner v w" "same_owner v (wakeup l w) = same_owner v w"
    "same_owner v (pushTask l f w) = same_owner v w" "same_owner v (set_events e ch w) = same_owner v w"
    "same_owner v (remove_chan ch w) = same_owner v w" "same_owner v (quit_loop l w) = same_owner v w"
    "same_owner v (assertInLoopThread l w) = same_owner v w" "same_owner v (handleRead l w) = same_owner v w"
    "same_owner v (log a w) = same_owner v w" "same_owner v (pop_reply w) = same_owner v w"
    "same_owner v (conn_setState s c w) = same_owner v w"
    "same_owner v (pushWriteComplete c w) = same_owner v w"
    "same_owner v (w\<lparr>self := t\<rparr>) = same_owner v w"
proof -
  have ev: "same_owner v w' = same_owner v w" if "ev_world.more w' = ev_world.more w" for w'
    using more_net [OF that] by (simp add: same_owner_def)
  show "same_owner v (upd_loop l g w) = same_owner v w" "same_owner v (upd_chan ch h w) = same_owner v w"
    "same_owner v (check b x w) = same_owner v w" "same_owner v (wakeup l w) = same_owner v w"
    "same_owner v (pushTask l f w) = same_owner v w" "same_owner v (set_events e ch w) = same_owner v w"
    "same_owner v (remove_chan ch w) = same_owner v w" "same_owner v (quit_loop l w) = same_owner v w"
    "same_owner v (assertInLoopThread l w) = same_owner v w" "same_owner v (handleRead l w) = same_owner v w"
    "same_owner v (pushWriteComplete c w) = same_owner v w"
    "same_owner v (w\<lparr>self := t\<rparr>) = same_owner v w"
    by (rule ev; simp add: frame pushWriteComplete_def)+
qed (auto simp: same_owner_def log_def pop_reply_def conn_setState_def upd_conn_def)

lemma same_owner_upd_conn [simp]:
  "(\<And>n. conn_name (g n) = conn_name n \<and> conn_loop (g n) = conn_loop n) \<Longrightarrow>
   same_owner v (upd_conn c g w) = same_owner v w"
  by (auto simp: same_owner_def upd_conn_def)

lemma same_owner_events [simp]:
  fixes w :: "'z net_world_scheme"
  shows "same_owner v (enableSend ch w) = same_owner v w" "same_owner v (disableSend ch w) = same_owner v w"
    "same_owner v (enableRecv ch w) = same_owner v w" "same_owner v (disableAll ch w) = same_owner v w"
  by (simp_all add: chan_op_defs)

lemma same_owner_sendInLoop [simp]: "same_owner v (sendInLoop c data w) = same_owner v w"
  by (auto simp: sendInLoop_def sendDirect_def Let_def split: sys_result.splits)

lemma same_owner_shutdownInLoop [simp]: "same_owner v (shutdownInLoop c w) = same_owner v w"
  by (simp add: shutdownInLoop_def Let_def)

lemma same_owner_action [simp]: "same_owner v (run_action a w) = same_owner v w"
  by (cases a) (simp_all add: run_action_def conn_send_def shutdown_def forceClose_def runTask_def)

lemma same_owner_actions [simp]: "same_owner v (fold run_action as w) = same_owner v w"
  by (rule fold_measure_eq [where g = "same_owner v"]) simp

lemma same_owner_callbacks [simp]:
  "same_owner v (connectionCallback E c w) = same_owner v w"
  "same_owner v (messageCallback E c t w) = same_owner v w"
  "same_owner v (writeCompleteCallback E c w) = same_owner v w"
  by (simp_all add: connectionCallback_def messageCallback_def writeCompleteCallback_def Let_def)

lemma same_owner_handleSend [simp]: "same_owner v (handleSend c w) = same_owner v w"
  by (auto simp: handleSend_def Let_def split: sys_result.splits)

text \<open>
  The contract of the owner: a property of the owner's own state (and of the names and
  loops of the connections) that the close callback it sets keeps.
\<close>

locale owner_inv =
  fixes E :: "'z net_world_scheme conn_env"
    and I :: "'z net_world_scheme \<Rightarrow> bool"
  assumes owned: "same_owner w w' \<Longrightarrow> I w \<Longrightarrow> I w'"
    and onClose_owner: "I w \<Longrightarrow> I (onClose E c w)"
begin

lemma handleClose_owner: "I w \<Longrightarrow> I (handleClose E c w)"
  unfolding handleClose_def Let_def by (rule onClose_owner, rule owned [of w]) simp_all

lemma handleRecv_owner: "I w \<Longrightarrow> I (handleRecv E c t w)"
proof -
  assume I: "I w"
  have w3: "same_owner w (pop_reply (check b NotRecving (assertInLoopThread l w)))" for b l by simp
  show ?thesis
    using I handleClose_owner [OF owned [OF w3 I]]
    by (auto simp: handleRecv_def Let_def handleError_def split: sys_result.splits prod.splits
        intro!: owned [OF _ I])
qed

lemma connectEstablished_owner: "I w \<Longrightarrow> I (connectEstablished E c w)"
  by (rule owned [of w]) (simp_all add: connectEstablished_def Let_def)

lemma connectDestroyed_owner: "I w \<Longrightarrow> I (connectDestroyed E c w)"
  by (rule owned [of w]) (simp_all add: connectDestroyed_def Let_def)

lemma handleSend_owner: "I w \<Longrightarrow> I (handleSend c w)"
  by (rule owned [of w]) simp_all

lemma exec_conn_owner: "I w \<Longrightarrow> I (exec_conn E f w)"
  by (cases f) (auto simp: exec_conn_def handleClose_owner connectEstablished_owner connectDestroyed_owner
      intro: owned [of w])

lemmas conn_handlers_owner = handleClose_owner handleRecv_owner connectEstablished_owner
  connectDestroyed_owner handleSend_owner exec_conn_owner

end

section \<open>Threads and queues\<close>

text \<open>The running thread and the threads of the loops stay; the queues only grow at the end.\<close>

definition queues_grow :: "'z net_world_scheme \<Rightarrow> 'z net_world_scheme \<Rightarrow> bool" where
  "queues_grow w w' \<longleftrightarrow> self w' = self w \<and> (\<forall>l. threadId (loops w' l) = threadId (loops w l) \<and>
     (\<exists>fs. taskQueue (loops w' l) = taskQueue (loops w l) @ fs))"

lemma queues_grow_refl [simp]: "queues_grow w w"
  by (simp add: queues_grow_def)

lemma queues_grow_trans: "queues_grow w w' \<Longrightarrow> queues_grow w' w'' \<Longrightarrow> queues_grow w w''"
  unfolding queues_grow_def by (metis append_assoc)

lemma queues_grow_thread: "queues_grow w w' \<Longrightarrow> isInLoopThread l w' = isInLoopThread l w"
  by (simp add: queues_grow_def isInLoopThread_def)

lemma queues_grow_base [simp]:
  fixes w :: "'z net_world_scheme"
  shows "queues_grow v (upd_conn c h w) = queues_grow v w" "queues_grow v (log e w) = queues_grow v w"
    "queues_grow v (pop_reply w) = queues_grow v w" "queues_grow v (assertInLoopThread l w) = queues_grow v w"
    "queues_grow v (conn_setState s c w) = queues_grow v w" "queues_grow v (check b x w) = queues_grow v w"
    "queues_grow v (set_events g ch w) = queues_grow v w" "queues_grow v (quit_loop l w) = queues_grow v w"
  by (simp_all add: queues_grow_def frame)

lemma queues_grow_push [intro]: "queues_grow v w \<Longrightarrow> queues_grow v (pushTask l f w)"
  by (rule queues_grow_trans) (auto simp: queues_grow_def frame effect)

lemma queues_grow_send: "queues_grow v w \<Longrightarrow> queues_grow v (sendInLoop c data w)"
  by (auto simp: sendInLoop_def sendDirect_def pushWriteComplete_def Let_def chan_op_defs
      split: sys_result.splits)

lemma queues_grow_action: "queues_grow v w \<Longrightarrow> queues_grow v (run_action a w)"
  by (cases a) (auto simp: run_action_def conn_send_def shutdown_def forceClose_def runTask_def
      shutdownInLoop_def Let_def intro: queues_grow_send)

lemma queues_grow_actions: "queues_grow v w \<Longrightarrow> queues_grow v (fold run_action as w)"
  by (rule fold_invariant [where P = "queues_grow v"]) (auto intro: queues_grow_action)

text \<open>Nothing the application does revives a connection that is disconnected.\<close>

lemma run_action_disconnected:
  assumes "conn_state (conns w c) = DISCONNECTED"
  shows "conn_state (conns (run_action a w) c) = DISCONNECTED" "chan_of c (run_action a w) = chan_of c w"
proof -
  have send: "conn_state (conns (sendInLoop d data w) c) = DISCONNECTED \<and>
      chan_of c (sendInLoop d data w) = chan_of c w" for d data
  proof (cases "gives_up d data w")
    case True
    then show ?thesis using assms by (simp add: sendInLoop_gives_up)
  next
    case False
    then have "d \<noteq> c" using assms by (auto simp: gives_up_def)
    then show ?thesis using assms False by (simp add: sendInLoop_takes)
  qed
  show "conn_state (conns (run_action a w) c) = DISCONNECTED" "chan_of c (run_action a w) = chan_of c w"
    using assms send
    by (cases a; auto simp: run_action_def conn_send_def shutdown_def forceClose_def runTask_def
        shutdownInLoop_def Let_def frame)+
qed

lemma actions_disconnected:
  assumes "conn_state (conns w c) = DISCONNECTED"
  shows "conn_state (conns (fold run_action as w) c) = DISCONNECTED \<and> chan_of c (fold run_action as w) = chan_of c w"
  using assms
proof (induction as arbitrary: w)
  case (Cons a as)
  then show ?case using run_action_disconnected [OF Cons.prems, of a] by simp
qed simp

end
