(* ===== verification/CxxString.thy ===== *)
theory CxxString
  imports Prelude
begin

text \<open>
  The operations of \<^verbatim>\<open>std::string\<close> the sources use: \<^verbatim>\<open>std::to_string\<close> of an integer,
  \<^verbatim>\<open>find_first_of\<close> and \<^verbatim>\<open>find_last_of\<close> of one character, \<^verbatim>\<open>substr\<close> (which throws
  \<^verbatim>\<open>std::out_of_range\<close>: the result is then \<^const>\<open>None\<close>), and \<^verbatim>\<open>std::search\<close>.
  Positions are \<^verbatim>\<open>size_t\<close> values; \<^const>\<open>npos\<close> is "not found".
\<close>

section \<open>Decimal numbers\<close>

definition digit :: "nat \<Rightarrow> char" where
  "digit n = char_of (48 + n)"

fun nat_to_string :: "nat \<Rightarrow> string" where
  "nat_to_string n = (if n < 10 then [digit n] else nat_to_string (n div 10) @ [digit (n mod 10)])"

declare nat_to_string.simps [simp del]

definition to_string :: "int \<Rightarrow> string" where
  "to_string i = (if i < 0 then CHR ''-'' # nat_to_string (nat (- i)) else nat_to_string (nat i))"

definition digit_value :: "char \<Rightarrow> nat" where
  "digit_value c = of_char c - 48"

definition decimal :: "string \<Rightarrow> nat" where
  "decimal s = foldl (\<lambda>a c. a * 10 + digit_value c) 0 s"

lemma digit_value_digit: "n < 10 \<Longrightarrow> digit_value (digit n) = n"
  by (simp add: digit_value_def digit_def)

lemma decimal_to_string: "decimal (nat_to_string n) = n"
proof (induction n rule: nat_to_string.induct)
  case (1 n)
  show ?case
  proof (cases "n < 10")
    case True
    then show ?thesis by (subst nat_to_string.simps) (simp add: decimal_def digit_value_digit)
  next
    case False
    then have "decimal (nat_to_string n) = decimal (nat_to_string (n div 10)) * 10 + n mod 10"
      by (subst nat_to_string.simps) (simp add: decimal_def digit_value_digit)
    then show ?thesis using "1.IH" [OF False] by simp
  qed
qed

lemma nat_to_string_inj: "nat_to_string m = nat_to_string n \<Longrightarrow> m = n"
  using decimal_to_string by metis

lemma digits_to_string: "c \<in> set (nat_to_string n) \<Longrightarrow> 48 \<le> (of_char c :: nat) \<and> (of_char c :: nat) \<le> 57"
proof (induction n rule: nat_to_string.induct)
  case (1 n)
  show ?case
  proof (cases "n < 10")
    case True
    with "1.prems" show ?thesis by (simp add: nat_to_string.simps [of n] digit_def)
  next
    case False
    with "1.prems" consider "c \<in> set (nat_to_string (n div 10))" | "c = digit (n mod 10)"
      by (auto simp: nat_to_string.simps [of n])
    then show ?thesis
    proof cases
      case 1
      with "1.IH" False show ?thesis by simp
    next
      case 2
      have "n mod 10 < 10" by simp
      then have "(48 + n mod 10) mod 256 = 48 + n mod 10" by simp
      with 2 show ?thesis by (simp add: digit_def)
    qed
  qed
qed

lemma nat_to_string_length: "n < 10 ^ k \<Longrightarrow> 0 < k \<Longrightarrow> length (nat_to_string n) \<le> k"
proof (induction n arbitrary: k rule: nat_to_string.induct)
  case (1 n)
  show ?case
  proof (cases "n < 10")
    case True
    then show ?thesis using "1.prems" by (simp add: nat_to_string.simps [of n])
  next
    case False
    then obtain j where j: "k = Suc j" "0 < j" using "1.prems" by (cases k; cases "k - 1") auto
    then have "n div 10 < 10 ^ j" using "1.prems" by simp
    then show ?thesis using "1.IH" [OF False _ j(2)] False j(1) by (simp add: nat_to_string.simps [of n])
  qed
qed

lemma to_string_nonneg: "0 \<le> i \<Longrightarrow> to_string i = nat_to_string (nat i)"
  by (simp add: to_string_def)

section \<open>Searching\<close>

text \<open>The least index from \<open>pos\<close> on that holds \<open>ch\<close>.\<close>

fun index_from :: "char \<Rightarrow> nat \<Rightarrow> string \<Rightarrow> nat option" where
  "index_from ch i [] = None"
| "index_from ch i (c # cs) = (if c = ch then Some i else index_from ch (Suc i) cs)"

definition find_first_of :: "string \<Rightarrow> char \<Rightarrow> nat \<Rightarrow> nat" where
  "find_first_of s ch pos = (case index_from ch pos (drop pos s) of None \<Rightarrow> npos | Some i \<Rightarrow> i)"

definition find_last_of :: "string \<Rightarrow> char \<Rightarrow> nat" where
  "find_last_of s ch = (case index_from ch 0 (rev s) of None \<Rightarrow> npos | Some i \<Rightarrow> length s - 1 - i)"

definition substr :: "string \<Rightarrow> nat \<Rightarrow> nat \<Rightarrow> string option" where
  "substr s pos n = (if pos > length s then None else Some (take n (drop pos s)))"

text \<open>\<^verbatim>\<open>std::search\<close> of a two-character pattern: the index of its first occurrence.\<close>

fun search2 :: "char \<Rightarrow> char \<Rightarrow> string \<Rightarrow> nat option" where
  "search2 a b (x # y # s) =
     (if x = a \<and> y = b then Some 0 else map_option Suc (search2 a b (y # s)))"
| "search2 a b _ = None"

lemma index_from_Some:
  "index_from ch i s = Some k \<Longrightarrow> i \<le> k \<and> k < i + length s \<and> s ! (k - i) = ch"
proof (induction s arbitrary: i)
  case (Cons c cs)
  then show ?case
    by (cases "c = ch") (auto simp: nth_Cons' dest!: Cons.IH)
qed simp

lemma index_from_None: "index_from ch i s = None \<longleftrightarrow> ch \<notin> set s"
  by (induction s arbitrary: i) auto

lemma index_from_append:
  "ch \<notin> set xs \<Longrightarrow> index_from ch i (xs @ ch # ys) = Some (i + length xs)"
  by (induction xs arbitrary: i) auto

lemma search2_Some:
  "search2 a b s = Some k \<Longrightarrow> k + 2 \<le> length s \<and> s ! k = a \<and> s ! (k + 1) = b"
  by (induction a b s arbitrary: k rule: search2.induct) (auto split: if_splits)

lemma search2_split:
  "search2 a b s = Some k \<Longrightarrow> s = take k s @ [a, b] @ drop (k + 2) s"
  by (induction a b s arbitrary: k rule: search2.induct) (auto split: if_splits)

lemma search2_append:
  "search2 a b s = Some k \<Longrightarrow> search2 a b (s @ t) = Some k"
  by (induction a b s arbitrary: k rule: search2.induct) (auto split: if_splits)

lemma search2_first:
  assumes "a \<noteq> b" "b \<notin> set xs"
  shows "search2 a b (xs @ a # b # ys) = Some (length xs)"
  using assms(2)
proof (induction xs)
  case Nil
  show ?case by simp
next
  case (Cons x xs)
  then show ?case using assms(1) by (cases xs) auto
qed

section \<open>Reading a number\<close>

text \<open>
  \<^verbatim>\<open>std::stoi\<close> in base ten: white space, an optional sign, then digits; what follows them is
  ignored. It throws without a digit and when the number is not an \<^verbatim>\<open>int\<close> (\<^const>\<open>None\<close>).
\<close>

definition is_space :: "char \<Rightarrow> bool" where
  "is_space c \<longleftrightarrow> c \<in> {CHR '' '', CHR 0x09, CHR 0x0A, CHR 0x0B, CHR 0x0C, CHR 0x0D}"

definition is_digit :: "char \<Rightarrow> bool" where
  "is_digit c \<longleftrightarrow> 48 \<le> (of_char c :: nat) \<and> (of_char c :: nat) \<le> 57"

definition sign_of :: "string \<Rightarrow> bool \<times> string" where
  "sign_of s = (case s of [] \<Rightarrow> (False, [])
     | c # r \<Rightarrow> if c = CHR ''-'' then (True, r) else if c = CHR ''+'' then (False, r) else (False, s))"

definition stoi :: "string \<Rightarrow> int option" where
  "stoi s =
     (let (neg, u) = sign_of (dropWhile is_space s); d = takeWhile is_digit u; n = int (decimal d);
          v = (if neg then - n else n)
      in if d \<noteq> [] \<and> - 2147483648 \<le> v \<and> v < 2147483648 then Some v else None)"

text \<open>
  \<^verbatim>\<open>atoi\<close> reads the same prefix, and answers zero without a digit. A number that is not an \<^verbatim>\<open>int\<close>
  is undefined behaviour (\<^const>\<open>None\<close>).
\<close>

definition atoi :: "string \<Rightarrow> int option" where
  "atoi s = (if takeWhile is_digit (snd (sign_of (dropWhile is_space s))) = [] then Some 0 else stoi s)"

lemma nat_to_string_not_Nil: "nat_to_string n \<noteq> []"
  by (subst nat_to_string.simps) simp

lemma is_digit_not: "is_digit c \<Longrightarrow> \<not> is_space c \<and> c \<noteq> CHR ''-'' \<and> c \<noteq> CHR ''+'' \<and> c \<noteq> CHR 0x0A"
  by (auto simp: is_digit_def is_space_def)

lemma digits_is_digit: "list_all is_digit (nat_to_string n)"
  by (auto simp: list_all_iff is_digit_def dest: digits_to_string)

lemma stoi_digits:
  assumes "list_all is_digit d" "d \<noteq> []" "decimal d < 2147483648"
  shows "stoi d = Some (int (decimal d))"
proof -
  obtain c r where d: "d = c # r" using assms(2) by (cases d) auto
  then have "is_digit c" using assms(1) by simp
  then have start: "dropWhile is_space d = d" "sign_of d = (False, d)"
    using is_digit_not [of c] by (simp_all add: d sign_of_def)
  have all: "takeWhile is_digit d = d" using assms(1) by (simp add: list_all_iff)
  show ?thesis using assms(2,3) by (simp add: stoi_def start all)
qed

lemma stoi_to_string: "n < 2147483648 \<Longrightarrow> stoi (nat_to_string n) = Some (int n)"
  using stoi_digits [OF digits_is_digit nat_to_string_not_Nil] by (simp add: decimal_to_string)

lemma atoi_to_string: "n < 2147483648 \<Longrightarrow> atoi (nat_to_string n) = Some (int n)"
  using stoi_to_string [of n] by (auto simp: atoi_def stoi_def Let_def split: prod.splits)

lemma nat_to_string_no_LF: "CHR 0x0A \<notin> set (nat_to_string n)"
  using digits_is_digit [of n] is_digit_not by (auto simp: list_all_iff)

section \<open>Lines\<close>

abbreviation CR_LF :: string where
  "CR_LF \<equiv> [CHR 0x0D, CHR 0x0A]"

text \<open>A text without a line end, or with one cut off in its middle, has no line to find.\<close>

lemma search2_None: "b \<notin> set s \<Longrightarrow> search2 a b s = None"
  by (induction a b s rule: search2.induct) auto

lemma search2_at:
  assumes "a \<noteq> b" "b \<notin> set xs"
  shows "search2 a b (xs @ [a]) = None"
  using assms by (intro search2_None) auto

lemma search2_rest:
  assumes "search2 a b s = None" "search2 a b (s @ t) = Some k"
  shows "length s \<le> k + 1"
  using assms
proof (induction a b s arbitrary: k rule: search2.induct)
  case (1 a b x y s)
  then show ?case by (auto split: if_splits)
qed auto

end
