(* ===== verification/EventLoopThreadPool.thy ===== *)
theory EventLoopThreadPool
  imports Prelude
begin

text \<open>
  \<^verbatim>\<open>src/slite/EventLoopThreadPool.h\<close> and \<^verbatim>\<open>EventLoopThreadPool.cc\<close>: the loops a server
  hands its connections to, and the round-robin choice of the next one. The loops that the
  started threads run are an argument of \<open>start\<close>.
\<close>

record loop_pool =
  baseLoop :: loop_id
  numThreads :: int
  pool_next :: int
  pool_started :: bool
  pool_loops :: "loop_id list"

definition EventLoopThreadPool_ctor :: "loop_id \<Rightarrow> loop_pool" where
  "EventLoopThreadPool_ctor base =
     \<lparr>baseLoop = base, numThreads = 0, pool_next = 0, pool_started = False, pool_loops = []\<rparr>"

definition pool_setThreadNum :: "int \<Rightarrow> loop_pool \<Rightarrow> loop_pool" where
  "pool_setThreadNum n p = p\<lparr>numThreads := n\<rparr>"

text \<open>\<open>fresh i\<close> is the loop that the \<open>i\<close>-th thread runs. Starting twice fails an assertion.\<close>

definition pool_start :: "(nat \<Rightarrow> loop_id) \<Rightarrow> loop_pool \<Rightarrow> loop_pool option" where
  "pool_start fresh p =
     (if pool_started p then None
      else Some (p\<lparr>pool_started := True,
                   pool_loops := pool_loops p @ map fresh [0..<nat (numThreads p)]\<rparr>))"

text \<open>\<^verbatim>\<open>loops_.at\<close> throws when the index is out of range; \<^verbatim>\<open>next_\<close> is counted up before.\<close>

definition getNextLoop :: "loop_pool \<Rightarrow> loop_id option \<times> loop_pool" where
  "getNextLoop p =
     (if pool_loops p \<noteq> [] then
        let n = (if pool_next p = numThreads p then 0 else pool_next p);
            p1 = p\<lparr>pool_next := n + 1\<rparr>
        in (if 0 \<le> n \<and> n < int (length (pool_loops p)) then Some (pool_loops p ! nat n) else None, p1)
      else (Some (baseLoop p), p))"

fun next_loops :: "nat \<Rightarrow> loop_pool \<Rightarrow> loop_id option list \<times> loop_pool" where
  "next_loops 0 p = ([], p)"
| "next_loops (Suc k) p =
     (let (l, p1) = getNextLoop p; (ls, p2) = next_loops k p1 in (l # ls, p2))"

text \<open>A pool whose number of threads was not changed after it was started.\<close>

definition pool_ok :: "loop_pool \<Rightarrow> bool" where
  "pool_ok p \<longleftrightarrow> (pool_loops p \<noteq> [] \<longrightarrow> numThreads p = int (length (pool_loops p))) \<and>
     0 \<le> pool_next p \<and> pool_next p \<le> int (length (pool_loops p))"

lemma pool_ok_start: "pool_start fresh (pool_setThreadNum n (EventLoopThreadPool_ctor b)) = Some p \<Longrightarrow> pool_ok p"
  by (auto simp: pool_start_def pool_setThreadNum_def EventLoopThreadPool_ctor_def pool_ok_def)

lemma getNextLoop_ok:
  assumes "pool_ok p"
  shows "pool_ok (snd (getNextLoop p))" "fst (getNextLoop p) \<noteq> None"
    "pool_loops (snd (getNextLoop p)) = pool_loops p" "baseLoop (snd (getNextLoop p)) = baseLoop p"
  using assms by (auto simp: getNextLoop_def pool_ok_def Let_def Suc_le_eq)

lemma getNextLoop_member:
  "pool_ok p \<Longrightarrow> fst (getNextLoop p) = Some l \<Longrightarrow> l \<in> set (baseLoop p # pool_loops p)"
  by (auto simp: getNextLoop_def Let_def pool_ok_def split: if_splits)

text \<open>The position of the next loop, as an index.\<close>

definition turn :: "loop_pool \<Rightarrow> nat" where
  "turn p = nat (pool_next p) mod length (pool_loops p)"

lemma getNextLoop_turn:
  assumes ok: "pool_ok p" and some: "pool_loops p \<noteq> []"
  shows "fst (getNextLoop p) = Some (pool_loops p ! turn p)"
    "turn (snd (getNextLoop p)) = Suc (turn p) mod length (pool_loops p)"
proof -
  define N where "N = length (pool_loops p)"
  have N: "numThreads p = int N" "0 \<le> pool_next p" "pool_next p \<le> int N" "0 < N"
    using ok some by (simp_all add: pool_ok_def N_def)
  define n where "n = (if pool_next p = numThreads p then 0 else pool_next p)"
  have n: "0 \<le> n" "n < int N" "nat n = turn p"
    using N by (auto simp: n_def turn_def N_def [symmetric])
  show "fst (getNextLoop p) = Some (pool_loops p ! turn p)"
    using some n by (simp add: getNextLoop_def Let_def n_def [symmetric] N_def [symmetric])
  have "snd (getNextLoop p) = p\<lparr>pool_next := n + 1\<rparr>"
    using some by (simp add: getNextLoop_def Let_def n_def)
  then show "turn (snd (getNextLoop p)) = Suc (turn p) mod length (pool_loops p)"
    using n by (simp add: turn_def nat_add_distrib mod_Suc_eq)
qed

text \<open>
  C21. Connections are dealt to the loops in turn: from a started pool, the \<open>i\<close>-th of any
  number of successive calls of \<^verbatim>\<open>getNextLoop\<close> returns the loop \<open>i\<close> places after the next
  one, counted cyclically, and never throws; a pool without threads always returns the base
  loop.
\<close>

theorem round_robin:
  assumes "pool_ok p"
  shows "fst (next_loops k p) =
    (if pool_loops p = [] then replicate k (Some (baseLoop p))
     else map (\<lambda>i. Some (pool_loops p ! ((turn p + i) mod length (pool_loops p)))) [0..<k])"
  using assms
proof (induction k arbitrary: p)
  case 0
  then show ?case by simp
next
  case (Suc k)
  note G = getNextLoop_ok [OF Suc.prems]
  show ?case
  proof (cases "pool_loops p = []")
    case True
    then have "getNextLoop p = (Some (baseLoop p), p)" by (simp add: getNextLoop_def)
    then show ?thesis using Suc.IH [OF Suc.prems] True by (simp add: split_beta)
  next
    case False
    note T = getNextLoop_turn [OF Suc.prems False]
    have "(Suc (turn p) mod length (pool_loops p) + i) mod length (pool_loops p) =
        (turn p + Suc i) mod length (pool_loops p)" for i
      by (simp add: mod_add_left_eq)
    then have "fst (next_loops k (snd (getNextLoop p))) =
        map (\<lambda>i. Some (pool_loops p ! ((turn p + i) mod length (pool_loops p)))) (map Suc [0..<k])"
      using Suc.IH [OF G(1)] False by (simp add: G T)
    moreover have "turn p mod length (pool_loops p) = turn p" by (simp add: turn_def)
    ultimately show ?thesis using False T
      by (simp add: split_beta upt_conv_Cons map_Suc_upt del: upt_Suc)
  qed
qed

definition three_loops :: loop_pool where
  "three_loops = (EventLoopThreadPool_ctor 9)\<lparr>numThreads := 3, pool_started := True, pool_loops := [1, 2, 3]\<rparr>"

theorem round_robin_witness: "fst (next_loops 5 three_loops) = [Some 1, Some 2, Some 3, Some 1, Some 2]"
proof -
  have "pool_ok three_loops" by (simp add: three_loops_def EventLoopThreadPool_ctor_def pool_ok_def)
  from round_robin [OF this, of 5] show ?thesis
    by (simp add: three_loops_def EventLoopThreadPool_ctor_def turn_def upt_conv_Cons)
qed

end
