(* ===== verification/TCPServer.thy ===== *)
theory TCPServer
  imports ConnOwner CxxString EventLoopThreadPool
begin

text \<open>
  \<^verbatim>\<open>src/slite/Acceptor.h\<close>, \<^verbatim>\<open>Acceptor.cc\<close>, \<^verbatim>\<open>TCPServer.h\<close> and \<^verbatim>\<open>TCPServer.cc\<close>: a server
  accepts connections in its own loop, deals them to the loops of its thread pool, and keeps
  them in a list until they close. The close callback it gives its connections takes them
  off the list in the server's loop and has them destroyed in their own.

  The world of connections is extended by the fields of one server and its acceptor. The
  kernel's answers to \<^verbatim>\<open>accept\<close> are the list \<open>accepts\<close>, its answer to \<^verbatim>\<open>listen\<close> is
  \<open>listened\<close>, and \<open>devnull\<close> is the descriptor that opening \<^verbatim>\<open>/dev/null\<close> gives; \<open>made\<close>
  names the next connection object. Where the code ends the program, the model stops using
  the answers left: the list becomes empty, and every later call would block.
\<close>

section \<open>State\<close>

record srv_world = net_world +
  srv_name :: string
  srv_host :: string
  srv_port :: "16 word"
  srv_loop :: loop_id
  acceptHandle :: tcphandle
  listening :: bool
  connections :: "conn_id list"
  threadPool :: loop_pool
  srv_hasWriteComplete :: bool
  nextConnId :: "32 word"
  made :: conn_id
  accepts :: "(fd \<times> sockaddr \<times> sockaddr) sys_result list"
  listened :: "unit sys_result"
  devnull :: fd

section \<open>Removing connections\<close>

definition removeConnectionInLoop :: "conn_id \<Rightarrow> 'z srv_world_scheme \<Rightarrow> 'z srv_world_scheme" where
  "removeConnectionInLoop c w =
     (let w1 = (if c \<in> set (connections w) then w\<lparr>connections := remove1 c (connections w)\<rparr> else w)
      in pushTask (conn_loop (conns w1 c)) (ConnectDestroyed c) w1)"

definition removeConnection :: "conn_id \<Rightarrow> 'z srv_world_scheme \<Rightarrow> 'z srv_world_scheme" where
  "removeConnection c w =
     runTask (srv_loop w) (removeConnectionInLoop c) (RemoveConnectionInLoop c) w"

text \<open>The callbacks a server gives its connections: the application's, and its own.\<close>

definition server_env :: "'z srv_world_scheme conn_env \<Rightarrow> 'z srv_world_scheme conn_env" where
  "server_env U = U\<lparr>onClose := removeConnection\<rparr>"

section \<open>New connections\<close>

definition connName :: "'z srv_world_scheme \<Rightarrow> string" where
  "connName w = srv_name w @ ''-'' @ srv_host w @ '':'' @ to_string (uint (srv_port w)) @ ''#''
     @ to_string (sint (nextConnId w))"

definition newConnection ::
  "'z srv_world_scheme conn_env \<Rightarrow> tcphandle \<Rightarrow> 'z srv_world_scheme \<Rightarrow> 'z srv_world_scheme" where
  "newConnection U h w =
     (let name = connName w;
          w1 = w\<lparr>nextConnId := nextConnId w + 1, threadPool := snd (getNextLoop (threadPool w))\<rparr>
      in case fst (getNextLoop (threadPool w)) of
           None \<Rightarrow> check False LoopIndexRange w1
         | Some l \<Rightarrow>
             let c = made w1;
                 w2 = TCPConnection_ctor c l h name (srv_hasWriteComplete w1) (w1\<lparr>made := Suc c\<rparr>);
                 w3 = w2\<lparr>connections := connections w2 @ [c]\<rparr>
             in runTask l (connectEstablished (server_env U) c) (ConnectEstablished c) w3)"

section \<open>The acceptor\<close>

text \<open>
  The kernel's answers to the calls of the constructor. Its result is the handle, the options of
  the socket and the address it is bound to, where \<open>ip\<close> is what \<^verbatim>\<open>inet_addr\<close> makes of the host;
  without a socket, or when \<^verbatim>\<open>bind\<close> fails, the program ends (\<^const>\<open>None\<close>). The channel is made
  with the server.
\<close>

record acceptor_answers =
  as_socket :: "fd option"
  as_reuse :: "unit sys_result"
  as_nonblock :: "unit sys_result"
  as_bind :: "unit sys_result"

definition Acceptor_ctor ::
  "acceptor_answers \<Rightarrow> 32 word \<Rightarrow> 16 word \<Rightarrow> (tcphandle \<times> sock_options \<times> sockaddr) option" where
  "Acceptor_ctor K ip port =
     (case TCPHandle_ctor (as_socket K) of
        None \<Rightarrow> None
      | Some h \<Rightarrow>
          let s1 = setReuseAddr (as_reuse K)
                \<lparr>so_reuseaddr = False, so_nonblock = False, so_nodelay = False, so_shut_wr = False\<rparr>;
              s2 = setNonBlock (as_nonblock K) s1
          in (case handle_bind (as_bind K) h of
                None \<Rightarrow> None
              | Some h1 \<Rightarrow> Some (h1, s2, bind_addr port ip)))"

definition Acceptor_listen :: "'z srv_world_scheme \<Rightarrow> 'z srv_world_scheme" where
  "Acceptor_listen w =
     (let w1 = assertInLoopThread (srv_loop w) w
      in case handle_listen (listened w1) (devnull w1) (acceptHandle w1) of
           None \<Rightarrow> w1\<lparr>accepts := []\<rparr>
         | Some h \<Rightarrow> enableRecv (AcceptChan 0) (w1\<lparr>acceptHandle := h, listening := True\<rparr>))"

definition Acceptor_handleRecv ::
  "'z srv_world_scheme conn_env \<Rightarrow> 'z srv_world_scheme \<Rightarrow> 'z srv_world_scheme" where
  "Acceptor_handleRecv U w =
     (case accepts w of
        [] \<Rightarrow> w
      | a # as \<Rightarrow>
          (case handle_accept a (devnull w) (acceptHandle w) of
             AcceptFatal \<Rightarrow> w\<lparr>accepts := []\<rparr>
           | AcceptRetry h \<Rightarrow> w\<lparr>accepts := as, acceptHandle := h\<rparr>
           | Accepted h client \<Rightarrow> newConnection U client (w\<lparr>accepts := as, acceptHandle := h\<rparr>)))"

definition Acceptor_dtor :: "'z srv_world_scheme \<Rightarrow> 'z srv_world_scheme" where
  "Acceptor_dtor w = remove_chan (AcceptChan 0) (disableAll (AcceptChan 0) w)"

section \<open>The server\<close>

definition TCPServer_ctor ::
  "string \<Rightarrow> 16 word \<Rightarrow> loop_id \<Rightarrow> string \<Rightarrow> tcphandle \<Rightarrow> bool \<Rightarrow> (fd \<times> sockaddr \<times> sockaddr) sys_result list \<Rightarrow>
   unit sys_result \<Rightarrow> fd \<Rightarrow> net_world \<Rightarrow> srv_world" where
  "TCPServer_ctor ip port l name h wc as lr null w =
     net_world.extend (w\<lparr>chans := (chans w)(AcceptChan 0 := Channel_ctor l (h_fd h))\<rparr>)
       \<lparr>srv_name = name, srv_host = ip, srv_port = port, srv_loop = l, acceptHandle = h,
        listening = False, connections = [], threadPool = EventLoopThreadPool_ctor l,
        srv_hasWriteComplete = wc, nextConnId = 0, made = 0, accepts = as,
        listened = lr, devnull = null\<rparr>"

definition setThreadNum :: "int \<Rightarrow> 'z srv_world_scheme \<Rightarrow> 'z srv_world_scheme" where
  "setThreadNum n w = w\<lparr>threadPool := pool_setThreadNum n (threadPool w)\<rparr>"

text \<open>Starting the pool twice fails its assertion (\<^const>\<open>None\<close>).\<close>

definition TCPServer_start :: "(nat \<Rightarrow> loop_id) \<Rightarrow> 'z srv_world_scheme \<Rightarrow> 'z srv_world_scheme option" where
  "TCPServer_start fresh w =
     (case pool_start fresh (threadPool w) of
        None \<Rightarrow> None
      | Some p \<Rightarrow> Some (runTask (srv_loop w) Acceptor_listen AcceptorListen (w\<lparr>threadPool := p\<rparr>)))"

text \<open>
  \<^verbatim>\<open>~TCPServer\<close> resets each pointer and then calls \<^verbatim>\<open>getLoop\<close> through it: with a
  connection left the program dereferences a null pointer (\<^const>\<open>None\<close>).
\<close>

definition TCPServer_dtor :: "'z srv_world_scheme \<Rightarrow> 'z srv_world_scheme option" where
  "TCPServer_dtor w = (case connections w of [] \<Rightarrow> Some w | _ # _ \<Rightarrow> None)"

section \<open>The loop of a server\<close>

definition no_cbs :: "'w chan_callbacks" where
  "no_cbs = \<lparr>recvCallback = None, sendCallback = None, closeCallback = None, errorCallback = None\<rparr>"

definition srv_cbs ::
  "'z srv_world_scheme conn_env \<Rightarrow> chan_id \<Rightarrow> 'z srv_world_scheme chan_callbacks" where
  "srv_cbs U ch =
     (case ch of
        ConnChan c \<Rightarrow> conn_cbs (server_env U) c
      | AcceptChan _ \<Rightarrow> no_cbs\<lparr>recvCallback := Some (\<lambda>t. Acceptor_handleRecv U)\<rparr>
      | WakeupChan l \<Rightarrow> no_cbs\<lparr>recvCallback := Some (\<lambda>t. handleRead l)\<rparr>
      | _ \<Rightarrow> no_cbs)"

definition srv_exec ::
  "'z srv_world_scheme conn_env \<Rightarrow> task \<Rightarrow> 'z srv_world_scheme \<Rightarrow> 'z srv_world_scheme" where
  "srv_exec U f w =
     (case f of
        RemoveConnectionInLoop c \<Rightarrow> removeConnectionInLoop c w
      | AcceptorListen \<Rightarrow> Acceptor_listen w
      | _ \<Rightarrow> exec_conn (server_env U) f w)"

end
