(* ===== verification/Wire.thy ===== *)
theory Wire
  imports Prelude
begin

text \<open>
  What the two protobuf codecs share: 32-bit integers in network byte order
  (\<^verbatim>\<open>asInt32\<close>, \<^verbatim>\<open>htonl\<close>), the error codes, and the contract of a codec that cuts a byte
  stream into frames. The contract is a locale; it gives, once for every codec, that how the
  stream is cut into reads makes no difference.
\<close>

section \<open>Integers in network byte order\<close>

definition byte :: "nat \<Rightarrow> nat \<Rightarrow> char" where
  "byte k n = char_of (n div 256 ^ k)"

text \<open>The four bytes that \<^verbatim>\<open>htonl\<close> leaves in memory on a little-endian machine.\<close>

definition be32 :: "32 word \<Rightarrow> bytes" where
  "be32 w = [byte 3 (unat w), byte 2 (unat w), byte 1 (unat w), byte 0 (unat w)]"

text \<open>\<^verbatim>\<open>memcpy\<close> of the first four bytes, then \<^verbatim>\<open>ntohl\<close>.\<close>

definition asInt32 :: "bytes \<Rightarrow> 32 word" where
  "asInt32 bs = word_of_nat (((of_char (bs ! 0) * 256 + of_char (bs ! 1)) * 256 + of_char (bs ! 2)) * 256
     + of_char (bs ! 3))"

lemma length_be32 [simp]: "length (be32 w) = 4"
  by (simp add: be32_def)

lemma of_char_byte: "(of_char (byte k n) :: nat) = n div 256 ^ k mod 256"
  by (simp add: byte_def)

lemma bytes_horner:
  assumes "n < 4294967296"
  shows "((n div 256 ^ 3 mod 256 * 256 + n div 256 ^ 2 mod 256) * 256 + n div 256 ^ 1 mod 256) * 256
     + n div 256 ^ 0 mod 256 = (n :: nat)"
proof -
  have a: "n div 256 ^ 3 mod 256 = n div 256 ^ 3" using assms by (simp add: less_mult_imp_div_less)
  have b: "n div 256 ^ 3 * 256 + n div 256 ^ 2 mod 256 = n div 256 ^ 2"
    using div_mult_mod_eq [of "n div 256 ^ 2" 256] by (simp add: div_mult2_eq [symmetric])
  have c: "n div 256 ^ 2 * 256 + n div 256 ^ 1 mod 256 = n div 256 ^ 1"
    using div_mult_mod_eq [of "n div 256 ^ 1" 256] by (simp add: div_mult2_eq [symmetric])
  show ?thesis unfolding a b c by simp
qed

lemma asInt32_be32 [simp]: "asInt32 (be32 w @ bs) = w"
proof -
  define n where "n = unat w"
  have "n < 4294967296" using unsigned_less [of w, where 'a = nat] by (simp add: n_def)
  moreover from this have "n div 16777216 mod 256 = n div 16777216" by (simp add: less_mult_imp_div_less)
  ultimately have "asInt32 (be32 w @ bs) = word_of_nat n"
    unfolding asInt32_def be32_def n_def [symmetric]
    by (intro arg_cong [where f = word_of_nat]) (use bytes_horner [of n] in \<open>simp add: of_char_byte\<close>)
  then show ?thesis by (simp add: n_def)
qed

lemma asInt32_be32_exact [simp]: "asInt32 (be32 w) = w"
  using asInt32_be32 [of w "[]"] by simp

lemma asInt32_append: "4 \<le> length a \<Longrightarrow> asInt32 (a @ b) = asInt32 a"
proof -
  assume "4 \<le> length a"
  then have "(a @ b) ! k = a ! k" if "k < 4" for k using that by (simp add: nth_append)
  then show ?thesis by (simp add: asInt32_def)
qed

lemma asInt32_take: "4 \<le> n \<Longrightarrow> 4 \<le> length a \<Longrightarrow> asInt32 (take n a) = asInt32 a"
  by (simp add: asInt32_def)

lemma sint_word_of_nat: "n < 2147483648 \<Longrightarrow> sint (word_of_nat n :: 32 word) = int n"
  by (simp add: signed_of_nat signed_take_bit_int_eq_self)

section \<open>Error codes\<close>

datatype ErrorCode =
    kNoError | kInvalidLength | kCheckSumError | kInvalidNameLen | kUnknownMessageType | kParseError

definition errorCodeToString :: "ErrorCode \<Rightarrow> string" where
  "errorCodeToString e =
     (case e of kNoError \<Rightarrow> ''NoError'' | kInvalidLength \<Rightarrow> ''InvalidLength''
      | kCheckSumError \<Rightarrow> ''CheckSumError'' | kInvalidNameLen \<Rightarrow> ''InvalidNameLen''
      | kUnknownMessageType \<Rightarrow> ''UnknownMessageType'' | kParseError \<Rightarrow> ''ParseError'')"

definition kHeaderLen :: nat where
  "kHeaderLen = 4"

definition kMaxMessageLen :: nat where
  "kMaxMessageLen = 64 * 1024 * 1024"

section \<open>Cutting a stream into frames\<close>

text \<open>
  What the front of a buffer holds: no whole frame yet, an error, or one frame, which
  delivers some messages and leaves the rest of the buffer.
\<close>

datatype ('e, 'm) frame = Incomplete | Corrupt 'e | Framed "'m list" bytes

text \<open>
  A receiver that calls \<open>run\<close> on the buffer after every read, until \<open>run\<close> reports an error:
  the messages delivered, the error, and the buffer left.
\<close>

fun feed :: "(bytes \<Rightarrow> 'm list \<times> 'e option \<times> bytes) \<Rightarrow> bytes \<Rightarrow> bytes list \<Rightarrow> 'm list \<times> 'e option \<times> bytes" where
  "feed run buf [] = ([], None, buf)"
| "feed run buf (c # cs) =
     (case run (buf @ c) of
        (ms, None, r) \<Rightarrow> (case feed run r cs of (ms', e, r') \<Rightarrow> (ms @ ms', e, r'))
      | (ms, Some e, r) \<Rightarrow> (ms, Some e, r @ concat cs))"

locale framing =
  fixes front :: "bytes \<Rightarrow> ('e, 'm) frame"
    and run :: "bytes \<Rightarrow> 'm list \<times> 'e option \<times> bytes"
  assumes run_unfold: "run buf =
      (case front buf of
         Incomplete \<Rightarrow> ([], None, buf)
       | Corrupt e \<Rightarrow> ([], Some e, buf)
       | Framed ms r \<Rightarrow> (case run r of (ms', e, r') \<Rightarrow> (ms @ ms', e, r')))"
    and shorter: "front buf = Framed ms r \<Longrightarrow> length r < length buf"
    and framed_more: "front a = Framed ms r \<Longrightarrow> front (a @ b) = Framed ms (r @ b)"
    and corrupt_more: "front a = Corrupt e \<Longrightarrow> front (a @ b) = Corrupt e"
begin

lemma run_more:
  "run (a @ b) =
     (case run a of
        (ms, None, r) \<Rightarrow> (case run (r @ b) of (ms', e, r') \<Rightarrow> (ms @ ms', e, r'))
      | (ms, Some e, r) \<Rightarrow> (ms, Some e, r @ b))"
proof (induction "length a" arbitrary: a rule: less_induct)
  case less
  show ?case
  proof (cases "front a")
    case Incomplete
    then show ?thesis by (simp add: run_unfold [of a] split: prod.split)
  next
    case (Corrupt e)
    then show ?thesis by (simp add: run_unfold [of a] run_unfold [of "a @ b"] corrupt_more)
  next
    case (Framed ms r)
    then show ?thesis
      using less [OF shorter [OF Framed]]
      by (simp add: run_unfold [of a] run_unfold [of "a @ b"] framed_more [OF Framed]
          split: prod.split option.split)
  qed
qed

lemma run_idle: "run a = (ms, None, r) \<Longrightarrow> run r = ([], None, r)"
proof (induction "length a" arbitrary: a ms rule: less_induct)
  case less
  show ?case
  proof (cases "front a")
    case (Framed ms1 r1)
    then obtain ms2 where "run r1 = (ms2, None, r)"
      using less.prems by (auto simp: run_unfold [of a] split: prod.splits)
    then show ?thesis using less.hyps [OF shorter [OF Framed]] by blast
  next
    case Incomplete
    with less.prems have "r = a" by (simp add: run_unfold [of a])
    with Incomplete show ?thesis by (simp add: run_unfold [of a])
  next
    case (Corrupt e)
    with less.prems show ?thesis by (simp add: run_unfold [of a])
  qed
qed

lemma run_stuck: "run a = (ms, Some e, r) \<Longrightarrow> run (r @ b) = ([], Some e, r @ b)"
proof (induction "length a" arbitrary: a ms rule: less_induct)
  case less
  show ?case
  proof (cases "front a")
    case (Framed ms1 r1)
    then obtain ms2 where "run r1 = (ms2, Some e, r)"
      using less.prems by (auto simp: run_unfold [of a] split: prod.splits)
    then show ?thesis using less.hyps [OF shorter [OF Framed]] by blast
  next
    case Incomplete
    with less.prems show ?thesis by (simp add: run_unfold [of a])
  next
    case (Corrupt e')
    with less.prems have "r = a" "e' = e" by (auto simp: run_unfold [of a])
    with Corrupt show ?thesis by (simp add: run_unfold [of "a @ b"] corrupt_more)
  qed
qed

lemma feed_run: "run buf = ([], None, buf) \<Longrightarrow> feed run buf cs = run (buf @ concat cs)"
proof (induction cs arbitrary: buf)
  case Nil
  then show ?case by simp
next
  case (Cons c cs)
  obtain ms e r where r: "run (buf @ c) = (ms, e, r)" by (cases "run (buf @ c)")
  have more: "run (buf @ c @ concat cs) =
      (case e of None \<Rightarrow> (case run (r @ concat cs) of (ms', e, r') \<Rightarrow> (ms @ ms', e, r'))
       | Some e \<Rightarrow> (ms, Some e, r @ concat cs))"
    using run_more [of "buf @ c" "concat cs"] by (simp add: r split: option.split)
  show ?case
  proof (cases e)
    case None
    with r have "run r = ([], None, r)" using run_idle by blast
    with Cons.IH [OF this] more None r show ?thesis by simp
  next
    case (Some e')
    with more r show ?thesis by simp
  qed
qed

text \<open>
  A receiver that drops what it has handled from a copy of its buffer only: one frame that
  arrives in non-empty pieces is still handled once, with the last of them.
\<close>

lemma cut_incomplete: "front (a @ b) = Framed ms r \<Longrightarrow> length r < length b \<Longrightarrow> front a = Incomplete"
  using framed_more [of a _ _ b] corrupt_more [of a _ b] by (cases "front a") auto

lemma kept_feed:
  assumes "front [] = Incomplete" "front (buf @ concat cs) = Framed ms []" "list_all (\<lambda>c. c \<noteq> []) cs" "cs \<noteq> []"
  shows "feed (\<lambda>b. case run b of (ms, e, _) \<Rightarrow> (ms, e, b)) buf cs = (ms, None, buf @ concat cs)"
  using assms(2-4)
proof (induction cs arbitrary: buf)
  case (Cons c cs)
  show ?case
  proof (cases "cs = []")
    case True
    have "run [] = ([], None, [])" by (simp add: run_unfold [of "[]"] assms(1))
    then have "run (buf @ c) = (ms, None, [])" using Cons.prems(1) True by (simp add: run_unfold [of "buf @ c"])
    then show ?thesis using True by simp
  next
    case False
    then have "concat cs \<noteq> []" using Cons.prems(2) by (cases cs) auto
    then have "front (buf @ c) = Incomplete" using cut_incomplete [of "buf @ c" "concat cs" ms "[]"] Cons.prems(1) by simp
    then have "run (buf @ c) = ([], None, buf @ c)" by (simp add: run_unfold [of "buf @ c"])
    then show ?thesis using Cons.IH [of "buf @ c"] Cons.prems False by simp
  qed
qed simp

end

locale framing_codec = framing front run
  for front :: "bytes \<Rightarrow> ('e, 'm) frame" and run :: "bytes \<Rightarrow> 'm list \<times> 'e option \<times> bytes" +
  fixes enc :: "'m \<Rightarrow> bytes" and ok :: "'m \<Rightarrow> bool"
  assumes front_enc: "ok m \<Longrightarrow> front (enc m @ r) = Framed [m] r"
begin

lemma run_encoded:
  assumes "list_all ok ms" "front r = Incomplete"
  shows "run (concat (map enc ms) @ r) = (ms, None, r)"
  using assms(1)
proof (induction ms)
  case Nil
  then show ?case using assms(2) by (simp add: run_unfold [of r])
next
  case (Cons m ms)
  have "front (enc m @ concat (map enc ms) @ r) = Framed [m] (concat (map enc ms) @ r)"
    by (rule front_enc) (use Cons.prems in simp)
  then show ?case using Cons by (simp add: run_unfold [of "enc m @ concat (map enc ms) @ r"])
qed

lemma stream_roundtrip:
  assumes "list_all ok ms" "front r = Incomplete" "front [] = Incomplete"
    and "concat cs = concat (map enc ms) @ r"
  shows "feed run [] cs = (ms, None, r)"
  using feed_run [of "[]" cs] run_encoded [OF assms(1,2)] assms(3,4) run_unfold [of "[]"] by simp

end

end
