(* ===== verification/ServerFacts.thy ===== *)
theory ServerFacts
  imports TCPServer Wire
begin

text \<open>
  Servers: the contracts of connections and of the loop interpreted on the server, the
  invariant of the connection list, the system of a server and its threads, and the life of
  a connection from the acceptor to its destruction.
\<close>

section \<open>Frames\<close>

lemma more_srv:
  assumes "net_world.more w' = net_world.more (w :: 'z srv_world_scheme)"
  shows "srv_name w' = srv_name w" "srv_host w' = srv_host w" "srv_port w' = srv_port w"
    "srv_loop w' = srv_loop w" "connections w' = connections w" "threadPool w' = threadPool w"
    "nextConnId w' = nextConnId w" "made w' = made w" "accepts w' = accepts w"
    "srv_hasWriteComplete w' = srv_hasWriteComplete w"
  using assms by (cases w; cases w'; simp)+

lemma conn_inv_srv [simp]:
  fixes w :: "'z srv_world_scheme"
  shows "conn_inv (w\<lparr>connections := cs\<rparr>) = conn_inv w" "conn_inv (w\<lparr>accepts := as\<rparr>) = conn_inv w"
    "conn_inv (w\<lparr>acceptHandle := h\<rparr>) = conn_inv w" "conn_inv (w\<lparr>nextConnId := n\<rparr>) = conn_inv w"
    "conn_inv (w\<lparr>threadPool := p\<rparr>) = conn_inv w" "conn_inv (w\<lparr>made := m\<rparr>) = conn_inv w"
    "conn_inv (w\<lparr>listening := b\<rparr>) = conn_inv w" "conn_inv (w\<lparr>self := t\<rparr>) = conn_inv w"
  by (rule conn_inv_cong; simp)+

section \<open>The contract of the close callback\<close>

lemma removeConnection_keeps: "conn_inv w \<Longrightarrow> conn_inv (removeConnection c w)"
  by (simp add: removeConnection_def runTask_def removeConnectionInLoop_def Let_def)

lemma removeConnection_trace: "trace (removeConnection c w) = trace w"
  by (simp add: removeConnection_def runTask_def removeConnectionInLoop_def Let_def)

interpretation srv: close_contract "server_env U" for U :: "'z srv_world_scheme conn_env"
  by unfold_locales (simp_all add: server_env_def removeConnection_keeps removeConnection_trace)

section \<open>The contract of the loop\<close>

lemma newConnection_keeps: "conn_inv w \<Longrightarrow> conn_inv (newConnection U h w)"
  unfolding newConnection_def Let_def
  by (auto simp: runTask_def ctor_keeps srv.connectEstablished_keeps split: option.split)

lemma Acceptor_handleRecv_keeps: "conn_inv w \<Longrightarrow> conn_inv (Acceptor_handleRecv U w)"
  by (auto simp: Acceptor_handleRecv_def newConnection_keeps split: list.split accept_result.split)

lemma Acceptor_listen_keeps: "conn_inv (Acceptor_listen w) = conn_inv w"
  by (simp add: Acceptor_listen_def Let_def split: option.split)

lemma srv_exec_keeps: "conn_inv w \<Longrightarrow> conn_inv (srv_exec U f w)"
  by (cases f) (simp_all add: srv_exec_def srv.exec_conn_keeps removeConnectionInLoop_def Acceptor_listen_keeps Let_def)

interpretation srv_loop: loop_client alive "srv_cbs U" "srv_exec U" l conn_inv
  for alive :: "nat \<Rightarrow> 'z srv_world_scheme \<Rightarrow> bool" and U and l
  by unfold_locales
     (auto simp: srv_cbs_def conn_cbs_def no_cbs_def srv_exec_keeps Acceptor_handleRecv_keeps
        handleSend_keeps handleError_def srv.conn_handlers_keep split: chan_id.splits)

section \<open>The connection list\<close>

text \<open>The name of the \<open>k\<close>-th connection of a server.\<close>

definition name_of :: "'z srv_world_scheme \<Rightarrow> nat \<Rightarrow> string" where
  "name_of w k = srv_name w @ ''-'' @ srv_host w @ '':'' @ to_string (uint (srv_port w)) @ ''#'' @ to_string (int k)"

text \<open>
  The list holds no connection twice and only connections that were made; every connection
  made has a name of its own, with a number below the next one, when \<open>n\<close>, a bound on the answers
  of \<^verbatim>\<open>accept\<close>, those to come included, is below 2 to the 31, so that the \<^verbatim>\<open>int\<close> \<^verbatim>\<open>nextConnId_\<close> does not
  overflow.
\<close>

definition srv_inv :: "nat \<Rightarrow> 'z srv_world_scheme \<Rightarrow> bool" where
  "srv_inv n w \<longleftrightarrow> distinct (connections w) \<and> (\<forall>c \<in> set (connections w). c < made w) \<and>
     (n < 2 ^ 31 \<longrightarrow> unat (nextConnId w) + length (accepts w) \<le> n \<and>
       (\<exists>k. inj_on k {..<made w} \<and>
          (\<forall>c<made w. k c < unat (nextConnId w) \<and> conn_name (conns w c) = name_of w (k c))))"

lemma srv_inv_owned:
  fixes w :: "'z srv_world_scheme"
  assumes "same_owner w w'" "srv_inv n w"
  shows "srv_inv n w'"
proof -
  have more: "net_world.more w' = net_world.more w" and names: "conn_name (conns w' c) = conn_name (conns w c)" for c
    using assms(1) by (simp_all add: same_owner_def)
  show ?thesis using assms(2) by (simp add: srv_inv_def name_of_def more_srv [OF more] names)
qed

lemma srv_inv_fields [simp]:
  "srv_inv n (w\<lparr>acceptHandle := h\<rparr>) = srv_inv n w"
  "srv_inv n (w\<lparr>listening := b\<rparr>) = srv_inv n w" "srv_inv n (w\<lparr>threadPool := p\<rparr>) = srv_inv n w"
  by (simp_all add: srv_inv_def name_of_def)

lemma srv_inv_accepts: "srv_inv n w \<Longrightarrow> length as \<le> length (accepts w) \<Longrightarrow> srv_inv n (w\<lparr>accepts := as\<rparr>)"
  by (auto simp: srv_inv_def name_of_def)

lemma srv_inv_no_accepts [simp]: "srv_inv n w \<Longrightarrow> srv_inv n (w\<lparr>accepts := []\<rparr>)"
  by (simp add: srv_inv_accepts)

lemma srv_inv_remove: "srv_inv n w \<Longrightarrow> srv_inv n (w\<lparr>connections := remove1 c (connections w)\<rparr>)"
  using set_remove1_subset [of c "connections w"] by (auto simp: srv_inv_def name_of_def)

lemma srv_inv_same:
  fixes w :: "'z srv_world_scheme"
  shows "same_owner w w' \<Longrightarrow> srv_inv n w' = srv_inv n w"
proof -
  assume same: "same_owner w w'"
  then have "same_owner w' w" by (simp add: same_owner_def)
  with same show ?thesis by (blast intro: srv_inv_owned)
qed

lemma srv_inv_frame [simp]:
  fixes w :: "'z srv_world_scheme"
  shows "srv_inv n (pushTask l f w) = srv_inv n w" "srv_inv n (check b a w) = srv_inv n w"
    "srv_inv n (upd_loop l g w) = srv_inv n w" "srv_inv n (upd_chan ch e w) = srv_inv n w"
    "srv_inv n (assertInLoopThread l w) = srv_inv n w" "srv_inv n (handleRead l w) = srv_inv n w"
    "srv_inv n (w\<lparr>self := t\<rparr>) = srv_inv n w" "srv_inv n (run_action act w) = srv_inv n w"
    "srv_inv n (enableRecv ch w) = srv_inv n w"
  by (rule srv_inv_same; simp)+

lemma removeConnectionInLoop_inv: "srv_inv n w \<Longrightarrow> srv_inv n (removeConnectionInLoop c w)"
  unfolding removeConnectionInLoop_def Let_def by (simp add: srv_inv_remove)

lemma removeConnection_inv: "srv_inv n w \<Longrightarrow> srv_inv n (removeConnection c w)"
  by (simp add: removeConnection_def runTask_def removeConnectionInLoop_inv)

interpretation srv: owner_inv "server_env U" "srv_inv n" for U :: "'z srv_world_scheme conn_env" and n
  by unfold_locales (auto simp: server_env_def removeConnection_inv intro: srv_inv_owned)

text \<open>A new connection, up to its start.\<close>

definition added :: "loop_id \<Rightarrow> tcphandle \<Rightarrow> loop_pool \<Rightarrow> 'z srv_world_scheme \<Rightarrow> 'z srv_world_scheme" where
  "added l h p w =
     (let w1 = w\<lparr>nextConnId := nextConnId w + 1, threadPool := p\<rparr>;
          w2 = TCPConnection_ctor (made w) l h (connName w) (srv_hasWriteComplete w) (w1\<lparr>made := Suc (made w)\<rparr>)
      in w2\<lparr>connections := connections w2 @ [made w]\<rparr>)"

lemma added_simps [simp]:
  "connections (added l h p w) = connections w @ [made w]" "made (added l h p w) = Suc (made w)"
  "nextConnId (added l h p w) = nextConnId w + 1" "threadPool (added l h p w) = p"
  "conns (added l h p w) = (conns w)(made w := \<lparr>conn_name = connName w, conn_loop = l, recvBuffer = [],
     sendBuffer = [], conn_state = CONNECTING, conn_handle = h, hasWriteComplete = srv_hasWriteComplete w\<rparr>)"
  "chans (added l h p w) = (chans w)(ConnChan (made w) := Channel_ctor l (h_fd h))"
  "trace (added l h p w) = trace w @ [Created (made w)]"
  "self (added l h p w) = self w" "loops (added l h p w) = loops w" "violations (added l h p w) = violations w"
  "srv_name (added l h p w) = srv_name w" "srv_host (added l h p w) = srv_host w"
  "srv_port (added l h p w) = srv_port w" "srv_loop (added l h p w) = srv_loop w"
  "accepts (added l h p w) = accepts w"
  by (simp_all add: added_def Let_def TCPConnection_ctor_def log_def)

lemma newConnection_added:
  "fst (getNextLoop (threadPool w)) = Some l \<Longrightarrow>
   newConnection U h w = runTask l (connectEstablished (server_env U) (made w)) (ConnectEstablished (made w))
     (added l h (snd (getNextLoop (threadPool w))) w)"
  by (simp add: newConnection_def added_def Let_def connName_def)

lemma sint_small: "unat x < 2147483648 \<Longrightarrow> sint (x :: 32 word) = int (unat x)"
  using sint_word_of_nat [of "unat x"] by simp

lemma unat_next: "unat x < 2147483648 \<Longrightarrow> unat (x + 1 :: 32 word) = Suc (unat x)"
  by (simp add: unat_plus_if')

text \<open>One more connection, as long as the bound leaves room for it.\<close>

definition room :: "nat \<Rightarrow> 'z srv_world_scheme \<Rightarrow> bool" where
  "room n w \<longleftrightarrow> (n < 2 ^ 31 \<longrightarrow> unat (nextConnId w) + length (accepts w) < n)"

lemma srv_inv_numbers:
  assumes "srv_inv n w" "n < 2 ^ 31"
  obtains k where "inj_on k {..<made w}" "\<forall>c<made w. k c < unat (nextConnId w) \<and> conn_name (conns w c) = name_of w (k c)"
  using assms by (auto simp: srv_inv_def)

lemma srv_inv_added:
  assumes "srv_inv n w" "room n w"
  shows "srv_inv n (added l h p w)"
proof -
  have "\<exists>k'. inj_on k' {..<Suc (made w)} \<and> (\<forall>c<Suc (made w). k' c < unat (nextConnId w + 1) \<and>
      conn_name (conns (added l h p w) c) = name_of (added l h p w) (k' c))"
    and "unat (nextConnId w + 1) + length (accepts w) \<le> n" if n: "n < 2 ^ 31"
  proof -
    have small: "unat (nextConnId w) < 2147483648" using assms(2) n by (simp add: room_def)
    obtain k where k: "inj_on k {..<made w}"
      "\<forall>c<made w. k c < unat (nextConnId w) \<and> conn_name (conns w c) = name_of w (k c)"
      by (rule srv_inv_numbers [OF assms(1) n])
    define k' where "k' = k(made w := unat (nextConnId w))"
    have "inj_on k' {..<Suc (made w)}"
      using k by (auto simp: k'_def inj_on_def less_Suc_eq)
    moreover have "\<forall>c<Suc (made w). k' c < unat (nextConnId w + 1) \<and>
        conn_name (conns (added l h p w) c) = name_of (added l h p w) (k' c)"
      using k(2) by (auto simp: k'_def name_of_def connName_def sint_small [OF small] unat_next [OF small] less_Suc_eq)
    ultimately show "\<exists>k'. inj_on k' {..<Suc (made w)} \<and> (\<forall>c<Suc (made w). k' c < unat (nextConnId w + 1) \<and>
      conn_name (conns (added l h p w) c) = name_of (added l h p w) (k' c))" by blast
    show "unat (nextConnId w + 1) + length (accepts w) \<le> n"
      using assms(2) n by (simp add: room_def unat_next [OF small])
  qed
  then show ?thesis using assms(1) by (auto simp: srv_inv_def)
qed

lemma srv_inv_next:
  assumes "srv_inv n w" "room n w"
  shows "srv_inv n (w\<lparr>nextConnId := nextConnId w + 1\<rparr>)"
proof -
  have "\<exists>k. inj_on k {..<made w} \<and> (\<forall>c<made w. k c < unat (nextConnId w + 1) \<and> conn_name (conns w c) = name_of w (k c))"
    and "unat (nextConnId w + 1) + length (accepts w) \<le> n" if n: "n < 2 ^ 31"
  proof -
    have small: "unat (nextConnId w) < 2147483648" using assms(2) n by (simp add: room_def)
    obtain k where "inj_on k {..<made w}"
      "\<forall>c<made w. k c < unat (nextConnId w) \<and> conn_name (conns w c) = name_of w (k c)"
      by (rule srv_inv_numbers [OF assms(1) n])
    then show "\<exists>k. inj_on k {..<made w} \<and> (\<forall>c<made w. k c < unat (nextConnId w + 1) \<and> conn_name (conns w c) = name_of w (k c))"
      unfolding unat_next [OF small] by (blast intro: less_SucI)
    show "unat (nextConnId w + 1) + length (accepts w) \<le> n"
      using assms(2) n by (simp add: room_def unat_next [OF small])
  qed
  then show ?thesis using assms(1) by (auto simp: srv_inv_def name_of_def)
qed

lemma newConnection_inv:
  assumes "srv_inv n w" "room n w"
  shows "srv_inv n (newConnection U h w)"
proof (cases "fst (getNextLoop (threadPool w))")
  case None
  then show ?thesis using srv_inv_next [OF assms] by (simp add: newConnection_def)
next
  case (Some l)
  from srv_inv_added [OF assms] show ?thesis
    by (simp add: newConnection_added [OF Some] runTask_def srv.connectEstablished_owner)
qed

lemma Acceptor_handleRecv_inv:
  assumes "srv_inv n w"
  shows "srv_inv n (Acceptor_handleRecv U w)"
proof (cases "accepts w")
  case Nil
  with assms show ?thesis by (simp add: Acceptor_handleRecv_def)
next
  case (Cons a as)
  have "srv_inv n (w\<lparr>accepts := as, acceptHandle := h\<rparr>)" for h
    using srv_inv_accepts [OF assms, of as] Cons by simp
  moreover from this have "srv_inv n (newConnection U client (w\<lparr>accepts := as, acceptHandle := h\<rparr>))" for client h
    by (rule newConnection_inv) (use assms Cons in \<open>auto simp: srv_inv_def room_def\<close>)
  ultimately show ?thesis
    using assms Cons by (simp add: Acceptor_handleRecv_def split: accept_result.split)
qed

lemma Acceptor_listen_inv: "srv_inv n w \<Longrightarrow> srv_inv n (Acceptor_listen w)"
  by (simp add: Acceptor_listen_def Let_def split: option.split)

lemma srv_exec_inv: "srv_inv n w \<Longrightarrow> srv_inv n (srv_exec U f w)"
  by (cases f) (simp_all add: srv_exec_def srv.exec_conn_owner removeConnectionInLoop_inv Acceptor_listen_inv)

interpretation srv_list: loop_client alive "srv_cbs U" "srv_exec U" l "srv_inv n"
  for alive :: "nat \<Rightarrow> 'z srv_world_scheme \<Rightarrow> bool" and U and l and n
  by unfold_locales
     (auto simp: srv_cbs_def conn_cbs_def no_cbs_def handleError_def Acceptor_handleRecv_inv srv_exec_inv
        srv.conn_handlers_owner split: chan_id.splits)

section \<open>A server and its threads\<close>

text \<open>
  The steps of a program with a server. Every loop runs in the thread that made it; a step
  is one event handled, one functor taken from the front of a loop's queue and called, the
  end of a round of functors, the start of the server or a change of its number of threads,
  and one call of the application's on a connection, from any thread at all. So the handlers
  and calls of different threads interleave in any order; each is one step.
\<close>

inductive srv_step ::
  "'z srv_world_scheme conn_env \<Rightarrow> (nat \<Rightarrow> 'z srv_world_scheme \<Rightarrow> bool) \<Rightarrow>
   'z srv_world_scheme \<Rightarrow> 'z srv_world_scheme \<Rightarrow> bool" for U alive where
  dispatch: "srv_step U alive w (handle_one alive (srv_cbs U) (ch, got, t)
     (w\<lparr>self := threadId (loops w (ch_loop (chans w ch)))\<rparr>))"
| run: "taskQueue (loops w l) = f # fs \<Longrightarrow>
   srv_step U alive w (srv_exec U f
     (upd_loop l (\<lambda>L. L\<lparr>taskQueue := fs, doingTask := True\<rparr>) (w\<lparr>self := threadId (loops w l)\<rparr>)))"
| round_end: "srv_step U alive w (upd_loop l (\<lambda>L. L\<lparr>doingTask := False\<rparr>) w)"
| start: "TCPServer_start fresh (w\<lparr>self := t\<rparr>) = Some w' \<Longrightarrow> srv_step U alive w w'"
| threads: "srv_step U alive w (setThreadNum n w)"
| application: "srv_step U alive w (run_action a (w\<lparr>self := t\<rparr>))"

inductive srv_reach ::
  "'z srv_world_scheme conn_env \<Rightarrow> (nat \<Rightarrow> 'z srv_world_scheme \<Rightarrow> bool) \<Rightarrow>
   'z srv_world_scheme \<Rightarrow> 'z srv_world_scheme \<Rightarrow> bool" for U alive w0 where
  init: "srv_reach U alive w0 w0"
| step: "srv_reach U alive w0 w \<Longrightarrow> srv_step U alive w w' \<Longrightarrow> srv_reach U alive w0 w'"

lemma TCPServer_start_keeps:
  "TCPServer_start fresh w = Some w' \<Longrightarrow> conn_inv w \<and> srv_inv n w \<Longrightarrow> conn_inv w' \<and> srv_inv n w'"
  by (auto simp: TCPServer_start_def runTask_def Acceptor_listen_inv Acceptor_listen_keeps
      split: option.splits)

lemma srv_step_keeps: "srv_step U alive w w' \<Longrightarrow> conn_inv w \<and> srv_inv n w \<Longrightarrow> conn_inv w' \<and> srv_inv n w'"
proof (induction rule: srv_step.induct)
  case (dispatch w ch got t)
  then show ?case by (auto intro: srv_loop.handle_one_keeps srv_list.handle_one_keeps)
next
  case (run w l f fs)
  then show ?case by (auto intro!: srv_exec_keeps srv_exec_inv)
next
  case (start fresh w t w')
  then show ?case by (auto dest!: TCPServer_start_keeps)
next
  case (application w a t)
  then show ?case by (auto intro: run_action_keeps)
qed (auto simp: setThreadNum_def)

lemma srv_reach_keeps: "srv_reach U alive w0 w \<Longrightarrow> conn_inv w0 \<and> srv_inv n w0 \<Longrightarrow> conn_inv w \<and> srv_inv n w"
  by (induction rule: srv_reach.induct) (auto dest: srv_step_keeps)

lemma TCPServer_ctor_keeps: "conn_inv w \<Longrightarrow> conn_inv (TCPServer_ctor ip port l name h wc as lr null w) \<and>
  srv_inv (length as) (TCPServer_ctor ip port l name h wc as lr null w)"
proof -
  assume inv: "conn_inv w"
  have "conn_inv (TCPServer_ctor ip port l name h wc as lr null w) = conn_inv w"
    by (simp add: TCPServer_ctor_def net_world.defs conn_inv_def send_ok_def down_def)
  with inv show ?thesis
    by (simp add: TCPServer_ctor_def net_world.defs srv_inv_def)
qed

text \<open>
  C1. Whatever the application does in its callbacks and from its threads, whatever the
  kernel answers, and however the threads of a server interleave: for every connection, the
  bytes the kernel has taken followed by the send buffer are exactly the data taken for
  sending, in order, write interest is registered only while there are bytes to send, and
  bytes to send keep it registered until the connection is reported down.
\<close>

theorem server_streams:
  assumes "conn_inv w0" "srv_reach U alive (TCPServer_ctor ip port l name h wc as lr null w0) w"
  shows "sent_bytes c (trace w) @ sendBuffer (conns w c) = taken_bytes c (trace w) \<and>
    (if sendBuffer (conns w c) = [] then \<not> isSending (chan_of c w) else isSending (chan_of c w) \<or> down c w)"
proof -
  have "conn_inv w" using srv_reach_keeps [OF assms(2)] TCPServer_ctor_keeps [OF assms(1)] by blast
  then show ?thesis by (auto dest!: conn_invD [of w c] simp: send_ok_def)
qed

text \<open>
  C20. In every state a server reaches, its list holds no connection twice, all of them were
  made by it, and as long as fewer than 2 to the 31 connections are to be accepted, so that
  the \<^verbatim>\<open>int\<close> \<^verbatim>\<open>nextConnId_\<close> does not overflow, no two connections it made have the same name.
\<close>

theorem server_connection_names:
  assumes "conn_inv w0" "srv_reach U alive (TCPServer_ctor ip port l name h wc as lr null w0) w"
  shows "distinct (connections w) \<and> set (connections w) \<subseteq> {..<made w} \<and>
    (length as < 2 ^ 31 \<longrightarrow> inj_on (\<lambda>c. conn_name (conns w c)) {..<made w})"
proof -
  have inv: "srv_inv (length as) w" using srv_reach_keeps [OF assms(2)] TCPServer_ctor_keeps [OF assms(1)] by blast
  have "inj_on (\<lambda>c. conn_name (conns w c)) {..<made w}" if n: "length as < 2 ^ 31"
  proof -
    obtain k where k: "inj_on k {..<made w}"
      "\<forall>c<made w. k c < unat (nextConnId w) \<and> conn_name (conns w c) = name_of w (k c)"
      by (rule srv_inv_numbers [OF inv n])
    show ?thesis
    proof (rule inj_onI)
      fix c d assume cd: "c \<in> {..<made w}" "d \<in> {..<made w}" "conn_name (conns w c) = conn_name (conns w d)"
      then have "to_string (int (k c)) = to_string (int (k d))" using k(2) by (auto simp: name_of_def)
      then have "k c = k d" by (auto simp: to_string_nonneg dest!: nat_to_string_inj)
      then show "c = d" using k(1) cd by (auto dest: inj_onD)
    qed
  qed
  then show ?thesis using inv by (auto simp: srv_inv_def)
qed

section \<open>The end of a connection\<close>

lemma connections_push: "connections (pushTask l f w) = connections w"
  by (rule more_srv, rule more_net) (simp add: frame)

text \<open>
  C9. Closing a connection in its own loop, for a server that shares this loop: the
  connection is disconnected and its channel has no events any more; the application is told
  exactly once that the connection is down, before the server's close callback; the
  connection is off the list; and the functor that destroys it is the last one in the queue,
  behind everything queued before.
\<close>

theorem close_in_server_loop:
  fixes w :: "'z srv_world_scheme" and c :: conn_id
  assumes "isInLoopThread (srv_loop w) w" "conn_loop (conns w c) = srv_loop w"
  shows "let w' = handleClose (server_env U) c w in
    conn_state (conns w' c) = DISCONNECTED \<and> isNoneEvent (chan_of c w') \<and>
    notices c (trace w') = notices c (trace w) @ [ConnCalled c False, CloseCalled c] \<and>
    connections w' = remove1 c (connections w) \<and>
    (\<exists>fs. taskQueue (loops w' (srv_loop w)) = taskQueue (loops w (srv_loop w)) @ fs @ [ConnectDestroyed c])"
proof -
  define w2 where "w2 = log (ConnCalled c False) (disableAll (ConnChan c)
      (conn_setState DISCONNECTED c (assertInLoopThread (srv_loop w) w)))"
  define w3 where "w3 = log (CloseCalled c) (fold run_action (onConnection U c w2) w2)"
  have same: "same_owner w w3" by (simp add: w3_def w2_def)
  then have own: "srv_loop w3 = srv_loop w" "connections w3 = connections w"
      "conn_loop (conns w3 c) = srv_loop w"
    using assms(2) by (auto simp: same_owner_def dest: more_srv)
  have dis: "conn_state (conns w2 c) = DISCONNECTED" "isNoneEvent (chan_of c w2)"
    by (simp_all add: w2_def chan_op_defs effect isNoneEvent_def)
  then have dis3: "conn_state (conns w3 c) = DISCONNECTED" "isNoneEvent (chan_of c w3)"
    using actions_disconnected [of w2 c] by (simp_all add: w3_def)
  have grow: "queues_grow w w3"
    by (simp add: w3_def) (rule queues_grow_actions, simp add: w2_def chan_op_defs)
  then have thread: "isInLoopThread (srv_loop w3) w3"
    using assms(1) by (simp add: queues_grow_thread own)
  have close: "handleClose (server_env U) c w = removeConnectionInLoop c w3"
    by (simp add: handleClose_def Let_def server_env_def connectionCallback_def connected_def
        removeConnection_def runTask_def assms w2_def w3_def thread [unfolded w2_def w3_def])
  obtain fs where fs: "taskQueue (loops w3 (srv_loop w)) = taskQueue (loops w (srv_loop w)) @ fs"
    using grow by (auto simp: queues_grow_def)
  have rem: "removeConnectionInLoop c w3 =
      pushTask (srv_loop w) (ConnectDestroyed c) (w3\<lparr>connections := remove1 c (connections w)\<rparr>)"
    unfolding removeConnectionInLoop_def Let_def own(2) [symmetric] using own(3)
    by (cases "c \<in> set (connections w3)") (simp_all add: remove1_idem)
  define w4 where "w4 = w3\<lparr>connections := remove1 c (connections w)\<rparr>"
  have w4: "conn_state (conns w4 c) = DISCONNECTED" "isNoneEvent (chan_of c w4)"
      "connections w4 = remove1 c (connections w)"
      "taskQueue (loops w4 (srv_loop w)) = taskQueue (loops w (srv_loop w)) @ fs"
    using dis3 fs by (simp_all add: w4_def)
  show ?thesis
    unfolding Let_def srv.handleClose_notifies unfolding close rem w4_def [symmetric]
    by (simp add: w4 connections_push effect frame)
qed

text \<open>
  A connection that is closed by force and by its peer is closed twice:
  \<^verbatim>\<open>forceClose\<close> sets the state and queues \<^verbatim>\<open>handleClose\<close>, which does not look at the
  state; if the end of the stream is read before the queued functor runs, the application is
  told twice that the connection is down, and the functor that destroys it is queued twice.
\<close>

theorem force_close_then_eof:
  fixes w :: "'z srv_world_scheme" and c :: conn_id
  shows "notices c (trace (exec_conn (server_env U) (HandleClose c)
           (handleClose (server_env U) c (forceClose c w)))) =
    notices c (trace w) @ [ConnCalled c False, CloseCalled c, ConnCalled c False, CloseCalled c]"
proof -
  have "notices c (trace (forceClose c w)) = notices c (trace w)"
    using run_action_notes [of c "AForceClose c" w] by (simp add: run_action_def)
  then show ?thesis by (simp add: exec_conn_def srv.handleClose_notifies)
qed

section \<open>Examples\<close>

text \<open>A server accepts one connection, and the application sends \<open>abc\<close>; the kernel takes two bytes.\<close>

definition quiet_user :: "srv_world conn_env" where
  "quiet_user = default_env (\<lambda>c w. w)"

definition fresh_server :: srv_world where
  "fresh_server = TCPServer_ctor ''lo'' 80 0 ''S'' (TCPHandle_of_fd 3 zero_addr zero_addr) False
     [SysOk (7, zero_addr, zero_addr)] (SysOk ()) 4 (boot_net [Done 2 []])"

definition accepted_one :: srv_world where
  "accepted_one = handle_one (\<lambda>_ _. True) (srv_cbs quiet_user) (AcceptChan 0, EPOLLIN, 0)
     (fresh_server\<lparr>self := threadId (loops fresh_server (ch_loop (chans fresh_server (AcceptChan 0))))\<rparr>)"

definition served :: srv_world where
  "served = run_action (ASend 0 ''abc'') (accepted_one\<lparr>self := 0\<rparr>)"

lemma served_reach: "srv_reach quiet_user (\<lambda>_ _. True) fresh_server served"
  unfolding served_def accepted_one_def
  by (rule srv_reach.step [OF srv_reach.step [OF srv_reach.init srv_step.dispatch] srv_step.application])

lemma served_facts:
  "connections served = [0]" "conn_name (conns served 0) = ''S-lo:80#0''" "sendBuffer (conns served 0) = ''c''"
  "trace served = [Created 0, ConnCalled 0 True, Sent 0 ''ab'', Taken 0 ''abc'']"
  by code_simp+

theorem server_streams_witness:
  "sent_bytes 0 (trace served) @ ''c'' = taken_bytes 0 (trace served)"
  using server_streams [OF conn_inv_boot served_reach [unfolded fresh_server_def], of 0]
  unfolding served_facts(3) by blast

theorem server_connection_names_witness:
  "distinct (connections served) \<and> set (connections served) \<subseteq> {..<made served} \<and>
   inj_on (\<lambda>c. conn_name (conns served c)) {..<made served}"
  using server_connection_names [OF conn_inv_boot served_reach [unfolded fresh_server_def]] by simp

theorem close_in_server_loop_witness:
  "connections (handleClose (server_env quiet_user) 0 served) = []"
proof -
  have "isInLoopThread (srv_loop served) served" "conn_loop (conns served 0) = srv_loop served"
    by code_simp+
  from close_in_server_loop [OF this, of quiet_user] show ?thesis
    unfolding Let_def served_facts by simp
qed

end
