(* ===== verification/Connector.thy ===== *)
theory Connector
  imports ConnOwner
begin

text \<open>
  \<^verbatim>\<open>src/slite/Connector.h\<close> and \<^verbatim>\<open>Connector.cc\<close>: connecting to a server, again and again
  with growing delays, until it works or the connector is stopped.

  The world of connections is extended by one connector. The kernel's answers to the
  attempts (\<^verbatim>\<open>socket\<close> and \<^verbatim>\<open>connect\<close>) and to \<^verbatim>\<open>getsockopt\<close> are the lists \<open>dials\<close> and
  \<open>sockerrs\<close>; where the code ends the program, the list of attempts becomes empty. The delays
  asked of \<^verbatim>\<open>runAfter\<close>, in milliseconds, are the list \<open>retries\<close>; when one is over, the loop
  calls \<^verbatim>\<open>startInLoop\<close>.
\<close>

section \<open>State\<close>

datatype connector_state = CR_DISCONNECTED | CR_CONNECTING | CR_CONNECTED

record cr_world = net_world +
  cr_loop :: loop_id
  cr_connect :: bool
  cr_state :: connector_state
  retryMs :: int
  cr_handle :: "tcphandle option"
  connectChannel :: "nat option"
  channels_made :: nat
  retries :: "int list"
  dials :: "(fd option \<times> unit sys_result) list"
  sockerrs :: "errno option sys_result list"

definition maxRetryMs :: int where
  "maxRetryMs = 100000"

definition Connector_ctor ::
  "loop_id \<Rightarrow> (fd option \<times> unit sys_result) list \<Rightarrow> errno option sys_result list \<Rightarrow> net_world \<Rightarrow> cr_world" where
  "Connector_ctor l ds es w = net_world.extend w
     \<lparr>cr_loop = l, cr_connect = False, cr_state = CR_DISCONNECTED, retryMs = 1000, cr_handle = None,
      connectChannel = None, channels_made = 0, retries = [], dials = ds, sockerrs = es\<rparr>"

section \<open>Connecting\<close>

definition connector_connecting :: "'z cr_world_scheme \<Rightarrow> 'z cr_world_scheme" where
  "connector_connecting w =
     (let n = channels_made w;
          f = (case cr_handle w of Some h \<Rightarrow> h_fd h | None \<Rightarrow> -1);
          w1 = check (connectChannel w = None) ChannelStillSet (w\<lparr>cr_state := CR_CONNECTING\<rparr>);
          w2 = w1\<lparr>chans := (chans w1)(ConnectChan n := Channel_ctor (cr_loop w) f)\<rparr>
      in enableSend (ConnectChan n) (w2\<lparr>connectChannel := Some n, channels_made := Suc n\<rparr>))"

text \<open>A null channel pointer is logged as an assertion: the program would crash.\<close>

definition connector_removeChannel :: "'z cr_world_scheme \<Rightarrow> 'z cr_world_scheme" where
  "connector_removeChannel w =
     (case connectChannel w of
        None \<Rightarrow> check False NullChannel w
      | Some n \<Rightarrow> pushTask (cr_loop w) ConnectorResetChannel
                    (remove_chan (ConnectChan n) (disableAll (ConnectChan n) w)))"

definition connector_resetChannel :: "'z cr_world_scheme \<Rightarrow> 'z cr_world_scheme" where
  "connector_resetChannel w = w\<lparr>connectChannel := None\<rparr>"

definition connector_retry :: "'z cr_world_scheme \<Rightarrow> 'z cr_world_scheme" where
  "connector_retry w =
     (if cr_connect w then
        w\<lparr>cr_handle := None, cr_state := CR_DISCONNECTED, retries := retries w @ [retryMs w],
          retryMs := min (retryMs w * 2) maxRetryMs\<rparr>
      else w)"

definition connector_connect :: "'z cr_world_scheme \<Rightarrow> 'z cr_world_scheme" where
  "connector_connect w =
     (case dials w of
        [] \<Rightarrow> w
      | (s, r) # ds \<Rightarrow>
          (case TCPHandle_ctor s of
             None \<Rightarrow> w\<lparr>dials := []\<rparr>
           | Some h \<Rightarrow>
               let w1 = w\<lparr>dials := ds, cr_handle := Some h\<rparr>
               in case handle_connect r of
                    Connecting_ok \<Rightarrow> connector_connecting w1
                  | Connect_later \<Rightarrow> connector_retry w1
                  | ConnectFatal \<Rightarrow> w1\<lparr>dials := []\<rparr>))"

definition connector_startInLoop :: "'z cr_world_scheme \<Rightarrow> 'z cr_world_scheme" where
  "connector_startInLoop w =
     (let w1 = assertInLoopThread (cr_loop w) w
      in if cr_connect w1 then connector_connect w1 else w1)"

definition connector_start :: "'z cr_world_scheme \<Rightarrow> 'z cr_world_scheme" where
  "connector_start w =
     runTask (cr_loop w) connector_startInLoop ConnectorStartInLoop (w\<lparr>cr_connect := True\<rparr>)"

definition connector_restart :: "'z cr_world_scheme \<Rightarrow> 'z cr_world_scheme" where
  "connector_restart w =
     connector_startInLoop
       ((assertInLoopThread (cr_loop w) w)\<lparr>cr_state := CR_DISCONNECTED, retryMs := 1000, cr_connect := True\<rparr>)"

definition connector_stopInLoop :: "'z cr_world_scheme \<Rightarrow> 'z cr_world_scheme" where
  "connector_stopInLoop w =
     (let w1 = assertInLoopThread (cr_loop w) w
      in if cr_state w1 = CR_CONNECTING
         then connector_retry (connector_removeChannel (assertInLoopThread (cr_loop w1) w1)) else w1)"

definition connector_stop :: "'z cr_world_scheme \<Rightarrow> 'z cr_world_scheme" where
  "connector_stop w = pushTask (cr_loop w) ConnectorStopInLoop (w\<lparr>cr_connect := False\<rparr>)"

definition Connector_dtor :: "'z cr_world_scheme \<Rightarrow> 'z cr_world_scheme" where
  "Connector_dtor w = check (connectChannel w = None) ChannelStillSet w"

section \<open>Events\<close>

definition next_sockerr :: "'z cr_world_scheme \<Rightarrow> bool" where
  "next_sockerr w = (case sockerrs w of [] \<Rightarrow> True | r # _ \<Rightarrow> getSocketError r)"

text \<open>\<open>ncb\<close> is \<^verbatim>\<open>newConnectionCallback_\<close>.\<close>

definition connector_handleWrite ::
  "(tcphandle \<Rightarrow> 'z cr_world_scheme \<Rightarrow> 'z cr_world_scheme) \<Rightarrow> 'z cr_world_scheme \<Rightarrow> 'z cr_world_scheme" where
  "connector_handleWrite ncb w =
     (if cr_state w = CR_CONNECTING then
        let w1 = connector_removeChannel w;
            w2 = w1\<lparr>sockerrs := tl (sockerrs w1)\<rparr>
        in if \<not> next_sockerr w1 then connector_retry w2
           else
             let w3 = w2\<lparr>cr_state := CR_CONNECTED\<rparr>
             in case cr_handle w3 of Some h \<Rightarrow> ncb h w3 | None \<Rightarrow> w3
      else w)"

definition connector_handleError :: "'z cr_world_scheme \<Rightarrow> 'z cr_world_scheme" where
  "connector_handleError w =
     (if cr_state w = CR_CONNECTING then
        let w1 = connector_removeChannel w
        in connector_retry (w1\<lparr>sockerrs := tl (sockerrs w1)\<rparr>)
      else w)"

section \<open>Frames\<close>

lemma more_cr:
  assumes "net_world.more w' = net_world.more (w :: 'z cr_world_scheme)"
  shows "cr_loop w' = cr_loop w" "cr_connect w' = cr_connect w" "cr_state w' = cr_state w"
    "retryMs w' = retryMs w" "cr_handle w' = cr_handle w" "connectChannel w' = connectChannel w"
    "retries w' = retries w" "dials w' = dials w" "sockerrs w' = sockerrs w"
    "channels_made w' = channels_made w" "cr_world.more w' = cr_world.more w"
  using assms by (cases w; cases w'; simp)+

lemma cr_base [simp]:
  fixes w :: "'z cr_world_scheme"
  shows
  "cr_connect (assertInLoopThread l w) = cr_connect w"
  "cr_connect (check b a w) = cr_connect w"
  "cr_connect (pushTask l f w) = cr_connect w"
  "cr_connect (remove_chan ch w) = cr_connect w"
  "cr_connect (disableAll ch w) = cr_connect w"
  "cr_connect (enableSend ch w) = cr_connect w"
  "cr_state (assertInLoopThread l w) = cr_state w"
  "cr_state (check b a w) = cr_state w"
  "cr_state (pushTask l f w) = cr_state w"
  "cr_state (remove_chan ch w) = cr_state w"
  "cr_state (disableAll ch w) = cr_state w"
  "cr_state (enableSend ch w) = cr_state w"
  "retryMs (assertInLoopThread l w) = retryMs w"
  "retryMs (check b a w) = retryMs w"
  "retryMs (pushTask l f w) = retryMs w"
  "retryMs (remove_chan ch w) = retryMs w"
  "retryMs (disableAll ch w) = retryMs w"
  "retryMs (enableSend ch w) = retryMs w"
  "cr_handle (assertInLoopThread l w) = cr_handle w"
  "cr_handle (check b a w) = cr_handle w"
  "cr_handle (pushTask l f w) = cr_handle w"
  "cr_handle (remove_chan ch w) = cr_handle w"
  "cr_handle (disableAll ch w) = cr_handle w"
  "cr_handle (enableSend ch w) = cr_handle w"
  "connectChannel (assertInLoopThread l w) = connectChannel w"
  "connectChannel (check b a w) = connectChannel w"
  "connectChannel (pushTask l f w) = connectChannel w"
  "connectChannel (remove_chan ch w) = connectChannel w"
  "connectChannel (disableAll ch w) = connectChannel w"
  "connectChannel (enableSend ch w) = connectChannel w"
  "retries (assertInLoopThread l w) = retries w"
  "retries (check b a w) = retries w"
  "retries (pushTask l f w) = retries w"
  "retries (remove_chan ch w) = retries w"
  "retries (disableAll ch w) = retries w"
  "retries (enableSend ch w) = retries w"
  "dials (assertInLoopThread l w) = dials w"
  "dials (check b a w) = dials w"
  "dials (pushTask l f w) = dials w"
  "dials (remove_chan ch w) = dials w"
  "dials (disableAll ch w) = dials w"
  "dials (enableSend ch w) = dials w"
  "cr_loop (assertInLoopThread l w) = cr_loop w"
  "cr_loop (check b a w) = cr_loop w"
  "cr_loop (pushTask l f w) = cr_loop w"
  "cr_loop (remove_chan ch w) = cr_loop w"
  "cr_loop (disableAll ch w) = cr_loop w"
  "cr_loop (enableSend ch w) = cr_loop w"
  "channels_made (assertInLoopThread l w) = channels_made w"
  "channels_made (check b a w) = channels_made w"
  "channels_made (pushTask l f w) = channels_made w"
  "channels_made (remove_chan ch w) = channels_made w"
  "channels_made (disableAll ch w) = channels_made w"
  "channels_made (enableSend ch w) = channels_made w"
  by (rule more_cr, rule more_net, simp add: frame chan_op_defs)+

lemma conn_inv_cr [simp]:
  fixes w :: "'z cr_world_scheme"
  shows "conn_inv (w\<lparr>cr_connect := b\<rparr>) = conn_inv w" "conn_inv (w\<lparr>cr_state := s\<rparr>) = conn_inv w"
    "conn_inv (w\<lparr>retryMs := r\<rparr>) = conn_inv w" "conn_inv (w\<lparr>cr_handle := h\<rparr>) = conn_inv w"
    "conn_inv (w\<lparr>connectChannel := ch\<rparr>) = conn_inv w" "conn_inv (w\<lparr>channels_made := n\<rparr>) = conn_inv w"
    "conn_inv (w\<lparr>retries := rs\<rparr>) = conn_inv w" "conn_inv (w\<lparr>dials := ds\<rparr>) = conn_inv w"
    "conn_inv (w\<lparr>sockerrs := es\<rparr>) = conn_inv w"
  by (rule conn_inv_cong; simp)+

section \<open>The connector keeps the streams of the connections\<close>

lemma conn_inv_chan:
  assumes "conn_inv w" "\<And>c. ConnChan c \<noteq> ch"
  shows "m = chans w \<Longrightarrow> conn_inv (w\<lparr>chans := m(ch := x)\<rparr>)" "conn_inv (enableSend ch w)" "conn_inv (disableAll ch w)"
proof -
  have other: "chans (enableSend ch w) (ConnChan c) = chan_of c w" "chans (disableAll ch w) (ConnChan c) = chan_of c w" for c
    using assms(2) [of c] by simp_all
  show "conn_inv (w\<lparr>chans := m(ch := x)\<rparr>)" if "m = chans w"
    using that assms by (subst conn_inv_cong [of _ w]) (auto simp: fun_upd_def)
  show "conn_inv (enableSend ch w)" "conn_inv (disableAll ch w)"
    by (subst conn_inv_cong [of _ w]; simp add: other assms(1))+
qed

lemma connecting_keeps: "conn_inv w \<Longrightarrow> conn_inv (connector_connecting w)"
  unfolding connector_connecting_def Let_def by (rule conn_inv_chan(2)) (simp_all add: conn_inv_chan(1))

lemma removeChannel_keeps: "conn_inv w \<Longrightarrow> conn_inv (connector_removeChannel w)"
  by (simp add: connector_removeChannel_def conn_inv_chan split: option.split)

lemma resetChannel_keeps: "conn_inv w \<Longrightarrow> conn_inv (connector_resetChannel w)"
  by (simp add: connector_resetChannel_def)

lemma retry_keeps: "conn_inv w \<Longrightarrow> conn_inv (connector_retry w)"
  by (simp add: connector_retry_def)

lemma connect_keeps: "conn_inv w \<Longrightarrow> conn_inv (connector_connect w)"
  by (auto simp: connector_connect_def Let_def connecting_keeps retry_keeps
      split: list.split option.split connect_result.split)

lemma startInLoop_keeps: "conn_inv w \<Longrightarrow> conn_inv (connector_startInLoop w)"
  by (simp add: connector_startInLoop_def Let_def connect_keeps)

lemma start_keeps: "conn_inv w \<Longrightarrow> conn_inv (connector_start w)"
  by (simp add: connector_start_def runTask_def startInLoop_keeps)

lemma restart_keeps: "conn_inv w \<Longrightarrow> conn_inv (connector_restart w)"
  by (simp add: connector_restart_def startInLoop_keeps)

lemma stopInLoop_keeps: "conn_inv w \<Longrightarrow> conn_inv (connector_stopInLoop w)"
  by (simp add: connector_stopInLoop_def Let_def retry_keeps removeChannel_keeps)

lemma stop_keeps: "conn_inv w \<Longrightarrow> conn_inv (connector_stop w)"
  by (simp add: connector_stop_def)

lemma handleError_keeps: "conn_inv w \<Longrightarrow> conn_inv (connector_handleError w)"
  by (simp add: connector_handleError_def Let_def retry_keeps removeChannel_keeps)

lemma handleWrite_keeps:
  "(\<And>h w. conn_inv w \<Longrightarrow> conn_inv (ncb h w)) \<Longrightarrow> conn_inv w \<Longrightarrow> conn_inv (connector_handleWrite ncb w)"
  by (simp add: connector_handleWrite_def Let_def retry_keeps removeChannel_keeps split: option.split)

lemmas connector_keeps = startInLoop_keeps start_keeps restart_keeps stopInLoop_keeps stop_keeps
  handleError_keeps handleWrite_keeps resetChannel_keeps

section \<open>Properties\<close>

lemma startInLoop_refused:
  assumes "cr_connect w" "dials w = (Some f, SysErr e) # ds" "e \<in> connect_retry"
  shows "connector_startInLoop w = connector_retry ((assertInLoopThread (cr_loop w) w)\<lparr>dials := ds,
    cr_handle := Some \<lparr>h_fd = f, h_nullFd = 0, h_peer = zero_addr, h_local = zero_addr\<rparr>\<rparr>)"
  using assms by (auto simp: connector_startInLoop_def connector_connect_def Let_def TCPHandle_ctor_def
      handle_connect_def connect_retry_def connect_pending_def)

lemma backoff_step: "min (min (1000 * 2 ^ k) 100000 * 2) 100000 = min (1000 * 2 ^ Suc k) (100000 :: int)"
  by (simp add: min_def)

text \<open>
  C29. A connector whose attempts are all refused waits one second after the first, and after
  each further one twice as long as before, but never more than a hundred seconds; every
  timer starts exactly one new attempt.
\<close>

theorem connector_backoff:
  assumes "cr_connect w" "retryMs w = 1000" "length ds = k"
    and "dials w = map (\<lambda>(f, e). (Some f, SysErr e)) ds @ rest" "list_all (\<lambda>(f, e). e \<in> connect_retry) ds"
  shows "let w' = (connector_startInLoop ^^ k) w in
     retries w' = retries w @ map (\<lambda>i. min (1000 * 2 ^ i) 100000) [0..<k] \<and> dials w' = rest \<and>
     cr_connect w' \<and> retryMs w' = min (1000 * 2 ^ k) 100000"
  using assms(3-5)
proof (induction k arbitrary: ds rest)
  case 0
  then show ?case using assms(1,2) by simp
next
  case (Suc k)
  then obtain ds' f e where ds: "ds = ds' @ [(f, e)]" "length ds' = k"
    by (metis length_Suc_conv_rev prod.exhaust)
  define w1 where "w1 = (connector_startInLoop ^^ k) w"
  have w1: "retries w1 = retries w @ map (\<lambda>i. min (1000 * 2 ^ i) 100000) [0..<k]"
    "dials w1 = (Some f, SysErr e) # rest" "cr_connect w1" "retryMs w1 = min (1000 * 2 ^ k) 100000"
    using Suc.IH [OF ds(2), of "(Some f, SysErr e) # rest"] Suc.prems ds
    by (simp_all add: w1_def Let_def)
  have "e \<in> connect_retry" using Suc.prems ds by simp
  from startInLoop_refused [OF w1(3,2) this] show ?case
    using w1 backoff_step [of k]
    by (simp add: w1_def [symmetric] Let_def connector_retry_def maxRetryMs_def)
qed

text \<open>
  A connector that is stopped while it is connecting stays in the state of a connector
  that is connecting; stopping it once more, after its channel is gone, dereferences the null
  pointer that is left.
\<close>

theorem connector_second_stop:
  assumes "cr_state w = CR_CONNECTING" "\<not> cr_connect w" "connectChannel w = Some n"
  shows "let w1 = connector_resetChannel (connector_stopInLoop w) in
     cr_state w1 = CR_CONNECTING \<and> NullChannel \<in> set (violations (connector_stopInLoop w1))"
proof -
  define w1 where "w1 = connector_resetChannel (connector_stopInLoop w)"
  have w1: "cr_state w1 = CR_CONNECTING" "\<not> cr_connect w1" "connectChannel w1 = None"
    using assms by (simp_all add: w1_def connector_resetChannel_def connector_stopInLoop_def Let_def
        connector_retry_def connector_removeChannel_def)
  then have "NullChannel \<in> set (violations (connector_stopInLoop w1))"
    by (simp add: connector_stopInLoop_def Let_def connector_removeChannel_def connector_retry_def)
  with w1(1) show ?thesis by (simp add: w1_def [symmetric] Let_def)
qed

section \<open>Examples\<close>

definition dialing :: "(fd option \<times> unit sys_result) list \<Rightarrow> cr_world" where
  "dialing ds = (Connector_ctor 0 ds [] (boot_net []))\<lparr>cr_connect := True\<rparr>"

theorem connector_backoff_witness:
  "retries ((connector_startInLoop ^^ 2) (dialing [(Some 5, SysErr ECONNREFUSED), (Some 6, SysErr ENETUNREACH)])) =
     [1000, 2000]"
proof -
  let ?ds = "[(5, ECONNREFUSED), (6, ENETUNREACH)] :: (fd \<times> errno) list"
  have "cr_connect (dialing ds)" "retryMs (dialing ds) = 1000" "dials (dialing ds) = ds" "retries (dialing ds) = []" for ds
    by (simp_all add: dialing_def Connector_ctor_def net_world.defs)
  note D = this
  have "dials (dialing [(Some 5, SysErr ECONNREFUSED), (Some 6, SysErr ENETUNREACH)]) =
      map (\<lambda>(f, e). (Some f, SysErr e)) ?ds @ []" by (simp add: D)
  from connector_backoff [OF D(1,2) _ this, of 2] show ?thesis
    by (simp add: D connect_retry_def Let_def upt_rec)
qed

theorem connector_second_stop_witness:
  "cr_state (connector_resetChannel (connector_stopInLoop
     ((connector_startInLoop (dialing [(Some 5, SysOk ())]))\<lparr>cr_connect := False\<rparr>))) = CR_CONNECTING"
proof -
  let ?w = "(connector_startInLoop (dialing [(Some 5, SysOk ())]))\<lparr>cr_connect := False\<rparr>"
  have "cr_state ?w = CR_CONNECTING" "\<not> cr_connect ?w" "connectChannel ?w = Some 0"
    by (simp_all add: connector_startInLoop_def dialing_def Connector_ctor_def net_world.defs connector_connect_def
        connector_connecting_def Let_def TCPHandle_ctor_def handle_connect_def)
  from connector_second_stop [OF this] show ?thesis by (simp add: Let_def)
qed

end
