(* ===== verification/TCPClient.thy ===== *)
theory TCPClient
  imports Connector CxxString
begin

text \<open>
  \<^verbatim>\<open>src/slite/TCPClient.h\<close> and \<^verbatim>\<open>TCPClient.cc\<close>: one connection at a time, made again by the
  connector whenever it closes. The world of the connector is extended by the client;
  \<open>detached\<close> says which connections have had their close callback replaced by the destructor
  of the client, and \<open>cli_made\<close> names the next connection object.
\<close>

section \<open>State\<close>

record cli_world = cr_world +
  cli_name :: string
  cli_host :: string
  cli_port :: "16 word"
  cli_connection :: "conn_id option"
  cli_hasWriteComplete :: bool
  cli_nextConnId :: "32 word"
  cli_made :: conn_id
  detached :: "conn_id set"

definition TCPClient_ctor :: "string \<Rightarrow> 16 word \<Rightarrow> string \<Rightarrow> bool \<Rightarrow> cr_world \<Rightarrow> cli_world" where
  "TCPClient_ctor host port name wc w = cr_world.extend w
     \<lparr>cli_name = name, cli_host = host, cli_port = port, cli_connection = None, cli_hasWriteComplete = wc,
      cli_nextConnId = 1, cli_made = 0, detached = {}\<rparr>"

section \<open>Operations\<close>

definition client_connect :: "'z cli_world_scheme \<Rightarrow> 'z cli_world_scheme" where
  "client_connect w = connector_start w"

definition client_disconnect :: "'z cli_world_scheme \<Rightarrow> 'z cli_world_scheme" where
  "client_disconnect w = (case cli_connection w of Some c \<Rightarrow> shutdown c w | None \<Rightarrow> w)"

definition client_stop :: "'z cli_world_scheme \<Rightarrow> 'z cli_world_scheme" where
  "client_stop w = connector_stop w"

definition client_removeConnection :: "conn_id \<Rightarrow> 'z cli_world_scheme \<Rightarrow> 'z cli_world_scheme" where
  "client_removeConnection c w =
     (let w1 = assertInLoopThread (cr_loop w) w;
          w2 = check (cr_loop w1 = conn_loop (conns w1 c)) WrongLoop w1;
          w3 = w2\<lparr>cli_connection := None\<rparr>
      in connector_restart (pushTask (cr_loop w3) (ConnectDestroyed c) w3))"

text \<open>The close callback: the client's, or the one that its destructor leaves behind.\<close>

definition client_onClose :: "conn_id \<Rightarrow> 'z cli_world_scheme \<Rightarrow> 'z cli_world_scheme" where
  "client_onClose c w =
     (if c \<in> detached w then pushTask (cr_loop w) (ConnectDestroyed c) w else client_removeConnection c w)"

definition client_env :: "'z cli_world_scheme conn_env \<Rightarrow> 'z cli_world_scheme conn_env" where
  "client_env U = U\<lparr>onClose := client_onClose\<rparr>"

definition client_connName :: "'z cli_world_scheme \<Rightarrow> string" where
  "client_connName w = cli_name w @ ''-'' @ cli_host w @ '':'' @ to_string (uint (cli_port w)) @ ''#''
     @ to_string (sint (cli_nextConnId w))"

definition client_newConnection ::
  "'z cli_world_scheme conn_env \<Rightarrow> tcphandle \<Rightarrow> 'z cli_world_scheme \<Rightarrow> 'z cli_world_scheme" where
  "client_newConnection U h w =
     (let w1 = assertInLoopThread (cr_loop w) w;
          name = client_connName w1;
          c = cli_made w1;
          w2 = w1\<lparr>cli_nextConnId := cli_nextConnId w1 + 1, cli_made := Suc c\<rparr>;
          w3 = TCPConnection_ctor c (cr_loop w2) h name (cli_hasWriteComplete w2) w2
      in connectEstablished (client_env U) c (w3\<lparr>cli_connection := Some c\<rparr>))"

text \<open>\<open>unique\<close> is what \<^verbatim>\<open>connection_.unique()\<close> answers. The timer of the other branch does nothing.\<close>

definition setCloseCallback :: "conn_id \<Rightarrow> 'z cli_world_scheme \<Rightarrow> 'z cli_world_scheme" where
  "setCloseCallback c w = w\<lparr>detached := insert c (detached w)\<rparr>"

definition TCPClient_dtor :: "bool \<Rightarrow> 'z cli_world_scheme \<Rightarrow> 'z cli_world_scheme" where
  "TCPClient_dtor unique w =
     (case cli_connection w of
        Some c \<Rightarrow>
          let w1 = runTask (cr_loop w) (setCloseCallback c) (SetCloseCallback c) w
          in if unique then forceClose c w1 else w1
      | None \<Rightarrow> connector_stop w)"

section \<open>The loop of a client\<close>

definition cli_cbs ::
  "'z cli_world_scheme conn_env \<Rightarrow> chan_id \<Rightarrow> 'z cli_world_scheme chan_callbacks" where
  "cli_cbs U ch =
     (let none = \<lparr>recvCallback = None, sendCallback = None, closeCallback = None, errorCallback = None\<rparr> in
      case ch of
        ConnChan c \<Rightarrow> conn_cbs (client_env U) c
      | ConnectChan _ \<Rightarrow> none\<lparr>sendCallback := Some (connector_handleWrite (client_newConnection U)),
                              errorCallback := Some connector_handleError\<rparr>
      | WakeupChan l \<Rightarrow> none\<lparr>recvCallback := Some (\<lambda>t. handleRead l)\<rparr>
      | _ \<Rightarrow> none)"

definition cli_exec ::
  "'z cli_world_scheme conn_env \<Rightarrow> task \<Rightarrow> 'z cli_world_scheme \<Rightarrow> 'z cli_world_scheme" where
  "cli_exec U f w =
     (case f of
        ConnectorStartInLoop \<Rightarrow> connector_startInLoop w
      | ConnectorStopInLoop \<Rightarrow> connector_stopInLoop w
      | ConnectorResetChannel \<Rightarrow> connector_resetChannel w
      | SetCloseCallback c \<Rightarrow> setCloseCallback c w
      | _ \<Rightarrow> exec_conn (client_env U) f w)"

section \<open>The contracts of connections and of the loop\<close>

lemma conn_inv_cli [simp]:
  fixes w :: "'z cli_world_scheme"
  shows "conn_inv (w\<lparr>cli_connection := x\<rparr>) = conn_inv w" "conn_inv (w\<lparr>cli_nextConnId := n\<rparr>) = conn_inv w"
    "conn_inv (w\<lparr>cli_made := m\<rparr>) = conn_inv w" "conn_inv (w\<lparr>detached := D\<rparr>) = conn_inv w"
  by (rule conn_inv_cong; simp)+

lemma connector_trace [simp]:
  "trace (connector_startInLoop w) = trace w" "trace (connector_restart w) = trace w"
proof -
  have s: "trace (connector_startInLoop w) = trace w" for w :: "'a cr_world_scheme"
    by (auto simp: connector_startInLoop_def connector_connect_def connector_connecting_def connector_retry_def Let_def
        split: list.split option.split connect_result.split)
  then show "trace (connector_startInLoop w) = trace w" "trace (connector_restart w) = trace w"
    by (simp_all add: connector_restart_def)
qed

lemma client_removeConnection_keeps: "conn_inv w \<Longrightarrow> conn_inv (client_removeConnection c w)"
  by (simp add: client_removeConnection_def Let_def restart_keeps)

lemma client_onClose_keeps: "conn_inv w \<Longrightarrow> conn_inv (client_onClose c w)"
  by (simp add: client_onClose_def client_removeConnection_keeps)

lemma client_onClose_trace: "trace (client_onClose c w) = trace w"
  by (simp add: client_onClose_def client_removeConnection_def Let_def)

interpretation cli: close_contract "client_env U" for U :: "'z cli_world_scheme conn_env"
  by unfold_locales (simp_all add: client_env_def client_onClose_keeps client_onClose_trace)

lemma client_newConnection_keeps: "conn_inv w \<Longrightarrow> conn_inv (client_newConnection U h w)"
  unfolding client_newConnection_def Let_def by (intro cli.connectEstablished_keeps) (simp add: ctor_keeps)

lemma cli_exec_keeps: "conn_inv w \<Longrightarrow> conn_inv (cli_exec U f w)"
  by (cases f) (simp_all add: cli_exec_def cli.exec_conn_keeps setCloseCallback_def connector_keeps)

interpretation cli_loop: loop_client alive "cli_cbs U" "cli_exec U" l conn_inv
  for alive :: "nat \<Rightarrow> 'z cli_world_scheme \<Rightarrow> bool" and U and l
  by unfold_locales
     (auto simp: cli_cbs_def conn_cbs_def Let_def cli_exec_keeps client_newConnection_keeps handleError_keeps
        handleSend_keeps handleError_def cli.conn_handlers_keep intro!: handleWrite_keeps split: chan_id.splits)

section \<open>Properties\<close>

text \<open>
  C31. A client loses no data either: whatever its loop polls and runs, whatever the kernel
  answers and the application's callbacks do, across all the connections it makes one after
  the other, the bytes sent on a connection followed by its send buffer are the data taken
  for it, in order.
\<close>

theorem client_streams:
  assumes "conn_inv w"
  shows "let w' = snd (loop_run alive (cli_cbs U) (cli_exec U) l polls w) in
    sent_bytes c (trace w') @ sendBuffer (conns w' c) = taken_bytes c (trace w')"
  using conn_invD [OF cli_loop.loop_run_keeps [OF assms, where alive = alive and U = U and l = l and prs = polls], of c]
  by (simp add: Let_def send_ok_def)

lemma ev_more_cli:
  assumes "ev_world.more w' = ev_world.more (w :: 'z cli_world_scheme)"
  shows "cli_connection w' = cli_connection w" "detached w' = detached w" "cr_loop w' = cr_loop w"
    "dials w' = dials w" "retries w' = retries w"
  using assms by (cases w; cases w'; simp)+

lemma cli_base [simp]:
  fixes w :: "'z cli_world_scheme"
  shows "cli_connection (pushTask l g w) = cli_connection w" "cli_connection (assertInLoopThread l w) = cli_connection w"
  by (rule ev_more_cli, simp add: frame)+

lemma cli_frame [simp]:
  fixes w :: "'z cli_world_scheme"
  shows "cli_connection (check b a w) = cli_connection w" "cli_connection (enableSend ch w) = cli_connection w"
    "retries (enableSend ch w) = retries w" "dials (enableSend ch w) = dials w"
    "dials (check b a w) = dials w" "retries (check b a w) = retries w"
  by (rule ev_more_cli, simp add: frame chan_op_defs)+

lemma enableSend_rest [simp]:
  "ch_fd (chans (enableSend ch w) ch) = ch_fd (chans w ch)"
  "taskQueue (loops (enableSend ch w) l) = taskQueue (loops w l)"
  by (simp_all add: chan_op_defs effect frame)

text \<open>
  C30. When the connection of a client closes, the client forgets it, queues its destruction in
  the loop, and connects again at once, with the retry delay back at one second however long
  the delays had grown before. When \<^verbatim>\<open>connect\<close> succeeds or is under way, a channel on the new
  socket waits for it to become writable, and nothing is retried; when it is refused for a while,
  the next attempt is one second later, and the delay after that is two; any other error, or
  no socket, ends the program.
\<close>

theorem client_reconnects:
  fixes w :: "'z cli_world_scheme"
  assumes "c \<notin> detached w"
  shows "let w' = client_onClose c w; n = channels_made w in
    cli_connection w' = None \<and>
    taskQueue (loops w' (cr_loop w)) = taskQueue (loops w (cr_loop w)) @ [ConnectDestroyed c] \<and>
    (case dials w of
       (Some f, r) # ds \<Rightarrow>
         (case handle_connect r of
            Connecting_ok \<Rightarrow> dials w' = ds \<and> cr_state w' = CR_CONNECTING \<and> connectChannel w' = Some n \<and>
              ch_fd (chans w' (ConnectChan n)) = f \<and> isSending (chans w' (ConnectChan n)) \<and>
              retries w' = retries w \<and> retryMs w' = 1000
          | Connect_later \<Rightarrow> dials w' = ds \<and> cr_state w' = CR_DISCONNECTED \<and>
              retries w' = retries w @ [1000] \<and> retryMs w' = 2000
          | ConnectFatal \<Rightarrow> dials w' = [])
     | _ \<Rightarrow> dials w' = [] \<and> retries w' = retries w \<and> retryMs w' = 1000)"
proof -
  define w3 where "w3 = pushTask (cr_loop w) (ConnectDestroyed c)
     ((check (cr_loop w = conn_loop (conns w c)) WrongLoop (assertInLoopThread (cr_loop w) w))\<lparr>cli_connection := None\<rparr>)"
  have close: "client_onClose c w = connector_restart w3"
    using assms(1) by (simp add: client_onClose_def client_removeConnection_def Let_def w3_def)
  have w3: "dials w3 = dials w" "retries w3 = retries w" "cr_loop w3 = cr_loop w" "channels_made w3 = channels_made w"
    "cli_connection w3 = None"
    "taskQueue (loops w3 (cr_loop w)) = taskQueue (loops w (cr_loop w)) @ [ConnectDestroyed c]"
    by (simp_all add: w3_def effect frame)
  note run = connector_restart_def connector_startInLoop_def connector_connect_def connector_connecting_def
    connector_retry_def TCPHandle_ctor_def maxRetryMs_def Channel_ctor_def
  show ?thesis
    unfolding Let_def close
    using w3 by (auto simp: run Let_def frame split: list.split option.split connect_result.split)
qed

section \<open>Examples\<close>

definition one_client :: cli_world where
  "one_client = TCPClient_ctor ''lo'' 80 ''C'' False
     (Connector_ctor 0 [(Some 5, SysErr ECONNREFUSED)] [] (boot_net []))"

lemma conn_inv_one_client: "conn_inv one_client"
  by (simp add: one_client_def TCPClient_ctor_def Connector_ctor_def net_world.defs cr_world.defs boot_net_def
      conn_inv_def send_ok_def Channel_ctor_def isSending_def NoneEvent_def)

theorem client_streams_witness:
  "let w' = snd (loop_run (\<lambda>_ _. True) (cli_cbs (default_env (\<lambda>c w. w)))
      (cli_exec (default_env (\<lambda>c w. w))) 0 [PollEvents [(ConnectChan 0, EPOLLOUT, 0)], PollError] one_client) in
    sent_bytes 0 (trace w') @ sendBuffer (conns w' 0) = taken_bytes 0 (trace w')"
  by (rule client_streams [OF conn_inv_one_client])

theorem client_reconnects_witness:
  "retries (client_onClose 0 one_client) = [1000] \<and>
   cr_state (client_onClose 0 (one_client\<lparr>dials := [(Some 6, SysErr EINPROGRESS)]\<rparr>)) = CR_CONNECTING"
proof -
  have none: "0 \<notin> detached one_client" "0 \<notin> detached (one_client\<lparr>dials := ds\<rparr>)"
    and one: "dials one_client = [(Some 5, SysErr ECONNREFUSED)]" "retries one_client = []" for ds
    by (simp_all add: one_client_def TCPClient_ctor_def Connector_ctor_def net_world.defs cr_world.defs)
  note defs = Let_def handle_connect_def connect_pending_def connect_retry_def
  show ?thesis
    using client_reconnects [OF none(1)] client_reconnects [OF none(2) [of "[(Some 6, SysErr EINPROGRESS)]"]] one
    by (simp add: defs)
qed

end
