(* ===== verification/Timer.thy ===== *)
theory Timer
  imports LoopTask Complex_Main "HOL-Library.Signed_Division"
begin

text \<open>
  \<^verbatim>\<open>src/slite/Timer.h\<close>, \<^verbatim>\<open>Timer.cc\<close> and the timer operations of \<^verbatim>\<open>EventLoop\<close>. The world
  is extended by the timer objects, named by their sequence numbers. A \<^verbatim>\<open>double\<close> is a
  rational number: its rounding is not modelled. The descriptor that \<^verbatim>\<open>timerfd_create\<close> gives
  is an argument, and so is what calling a functor does.
\<close>

section \<open>State\<close>

record itimerspec =
  value_sec :: int
  value_nsec :: int
  interval_sec :: int
  interval_nsec :: int

record 'f timer =
  t_fd :: fd
  t_loop :: loop_id
  timerCallback :: "'f option"
  t_spec :: itimerspec

record 'f timer_world = "'f ev_world" +
  timer_of :: "int \<Rightarrow> 'f timer"
  numCreate :: int

definition upd_timer ::
  "int \<Rightarrow> ('f timer \<Rightarrow> 'f timer) \<Rightarrow> ('f, 'z) timer_world_scheme \<Rightarrow> ('f, 'z) timer_world_scheme" where
  "upd_timer s g w = w\<lparr>timer_of := (timer_of w)(s := g (timer_of w s))\<rparr>"

definition zero_spec :: itimerspec where
  "zero_spec = \<lparr>value_sec = 0, value_nsec = 0, interval_sec = 0, interval_nsec = 0\<rparr>"

definition Timer_ctor ::
  "loop_id \<Rightarrow> fd \<Rightarrow> ('f, 'z) timer_world_scheme \<Rightarrow> int \<times> ('f, 'z) timer_world_scheme" where
  "Timer_ctor l f w =
     (let s = numCreate w + 1 in
      (s, w\<lparr>numCreate := s,
            timer_of := (timer_of w)(s := \<lparr>t_fd = f, t_loop = l, timerCallback = None, t_spec = zero_spec\<rparr>),
            chans := (chans w)(TimerChan s := Channel_ctor l f)\<rparr>))"

definition Timer_dtor :: "int \<Rightarrow> ('f, 'z) ev_world_scheme \<Rightarrow> ('f, 'z) ev_world_scheme" where
  "Timer_dtor s w = remove_chan (TimerChan s) (disableAll (TimerChan s) w)"

section \<open>Setting a timer\<close>

text \<open>\<^verbatim>\<open>static_cast<int64_t>\<close> truncates towards zero; so do \<^verbatim>\<open>/\<close> and \<^verbatim>\<open>%\<close>.\<close>

definition trunc :: "rat \<Rightarrow> int" where
  "trunc x = (if x < 0 then - \<lfloor>- x\<rfloor> else \<lfloor>x\<rfloor>)"

definition timer_spec :: "rat \<Rightarrow> rat \<Rightarrow> itimerspec" where
  "timer_spec time interval =
     (let time = (if \<bar>time\<bar> < 1 / 10 ^ 15 then 1 / 1000 else time);
          v = trunc (time * 1000);
          i = trunc (interval * 1000)
      in \<lparr>value_sec = v sdiv 1000, value_nsec = (v smod 1000) * 1000,
          interval_sec = i sdiv 1000, interval_nsec = (i smod 1000) * 1000\<rparr>)"

definition addTimerInLoop ::
  "int \<Rightarrow> rat \<Rightarrow> rat \<Rightarrow> 'f \<Rightarrow> ('f, 'z) timer_world_scheme \<Rightarrow> ('f, 'z) timer_world_scheme" where
  "addTimerInLoop s time interval cb w =
     upd_timer s (\<lambda>t. t\<lparr>timerCallback := Some cb, t_spec := timer_spec time interval\<rparr>)
       (assertInLoopThread (t_loop (timer_of w s)) w)"

text \<open>\<open>bound\<close> is the functor that binds the call of \<^verbatim>\<open>addTimerInLoop\<close>.\<close>

definition addTimer ::
  "'f \<Rightarrow> int \<Rightarrow> rat \<Rightarrow> rat \<Rightarrow> 'f \<Rightarrow> ('f, 'z) timer_world_scheme \<Rightarrow> ('f, 'z) timer_world_scheme" where
  "addTimer bound s time interval cb w =
     (let w1 = upd_chan (TimerChan s) (tie (nat s)) (enableRecv (TimerChan s) w)
      in runTask (t_loop (timer_of w s)) (addTimerInLoop s time interval cb) bound w1)"

section \<open>The timers of a loop\<close>

definition run_timer ::
  "loop_id \<Rightarrow> fd \<Rightarrow> 'f \<Rightarrow> rat \<Rightarrow> rat \<Rightarrow> 'f \<Rightarrow> ('f, 'z) timer_world_scheme \<Rightarrow> int \<times> ('f, 'z) timer_world_scheme" where
  "run_timer l f bound time interval cb w =
     (case Timer_ctor l f w of
        (s, w1) \<Rightarrow> (s, upd_loop l (\<lambda>L. L\<lparr>timers := (timers L)(s \<mapsto> nat s)\<rparr>)
                          (addTimer bound s time interval cb w1)))"

definition runAfter ::
  "loop_id \<Rightarrow> fd \<Rightarrow> 'f \<Rightarrow> rat \<Rightarrow> 'f \<Rightarrow> ('f, 'z) timer_world_scheme \<Rightarrow> int \<times> ('f, 'z) timer_world_scheme" where
  "runAfter l f bound delay cb w = run_timer l f bound delay 0 cb w"

definition runEvery ::
  "loop_id \<Rightarrow> fd \<Rightarrow> 'f \<Rightarrow> rat \<Rightarrow> 'f \<Rightarrow> ('f, 'z) timer_world_scheme \<Rightarrow> int \<times> ('f, 'z) timer_world_scheme" where
  "runEvery l f bound interval cb w = run_timer l f bound interval interval cb w"

text \<open>
  Erasing the timer destroys it, unless its events are being handled: then the guard in
  \<^verbatim>\<open>handleEvents\<close> holds it till that returns.
\<close>

definition cancel :: "loop_id \<Rightarrow> int \<Rightarrow> ('f, 'z) ev_world_scheme \<Rightarrow> ('f, 'z) ev_world_scheme" where
  "cancel l s w =
     (if timers (loops w l) s \<noteq> None then
        let w1 = upd_loop l (\<lambda>L. L\<lparr>timers := (timers L)(s := None)\<rparr>) w
        in if ch_handling (chans w1 (TimerChan s)) then w1 else Timer_dtor s w1
      else w)"

section \<open>Firing\<close>

definition timer_handleRead ::
  "('f \<Rightarrow> ('f, 'z) timer_world_scheme \<Rightarrow> ('f, 'z) timer_world_scheme) \<Rightarrow> int \<Rightarrow>
   ('f, 'z) timer_world_scheme \<Rightarrow> ('f, 'z) timer_world_scheme" where
  "timer_handleRead exec s w =
     (let w1 = (case timerCallback (timer_of w s) of Some cb \<Rightarrow> exec cb w | None \<Rightarrow> w);
          howlong = t_spec (timer_of w1 s)
      in if interval_sec howlong = 0 \<and> interval_nsec howlong = 0 then cancel (t_loop (timer_of w1 s)) s w1 else w1)"

definition timer_cbs ::
  "('f \<Rightarrow> ('f, 'z) timer_world_scheme \<Rightarrow> ('f, 'z) timer_world_scheme) \<Rightarrow> int \<Rightarrow>
   ('f, 'z) timer_world_scheme chan_callbacks" where
  "timer_cbs exec s = \<lparr>recvCallback = Some (\<lambda>t. timer_handleRead exec s), sendCallback = None,
     closeCallback = None, errorCallback = None\<rparr>"

text \<open>The event of a timer: the map of its loop keeps it alive; the last reference destroys it.\<close>

definition timer_fires ::
  "('f \<Rightarrow> ('f, 'z) timer_world_scheme \<Rightarrow> ('f, 'z) timer_world_scheme) \<Rightarrow> int \<Rightarrow> int \<Rightarrow>
   ('f, 'z) timer_world_scheme \<Rightarrow> ('f, 'z) timer_world_scheme" where
  "timer_fires exec s t w =
     (let l = t_loop (timer_of w s);
          alive = (\<lambda>owner w. timers (loops w l) (int owner) \<noteq> None);
          w1 = handle_one alive (\<lambda>_. timer_cbs exec s) (TimerChan s, EPOLLIN, t) w
      in if timers (loops w l) s \<noteq> None \<and> timers (loops w1 l) s = None then Timer_dtor s w1 else w1)"

section \<open>What the kernel is told\<close>

text \<open>The first expiry in nanoseconds; zero disarms the timer.\<close>

definition expiry :: "itimerspec \<Rightarrow> int" where
  "expiry p = value_sec p * 1000000000 + value_nsec p"

lemma trunc_nonneg: "0 \<le> x \<Longrightarrow> trunc x = \<lfloor>x\<rfloor> \<and> 0 \<le> trunc x"
  by (simp add: trunc_def)

lemma sdiv_smod_nonneg: "0 \<le> k \<Longrightarrow> k sdiv 1000 = k div 1000 \<and> k smod 1000 = k mod (1000 :: int)"
  by (simp add: sgn_if signed_divide_int_def signed_modulo_int_def mult.commute minus_div_mult_eq_mod)

lemma expiry_spec:
  assumes "1 / 10 ^ 15 \<le> time"
  shows "expiry (timer_spec time interval) =
    (let k = \<lfloor>time * 1000\<rfloor> in k div 1000 * 1000000000 + k mod 1000 * 1000)"
proof -
  have pos: "0 < time" by (rule less_le_trans [OF _ assms]) simp
  then have not_small: "\<not> \<bar>time\<bar> < 1 / 10 ^ 15" using assms by simp
  have t: "trunc (time * 1000) = \<lfloor>time * 1000\<rfloor>" "0 \<le> \<lfloor>time * 1000\<rfloor>"
    using trunc_nonneg [of "time * 1000"] pos by simp_all
  have "expiry (timer_spec time interval) =
      (\<lfloor>time * 1000\<rfloor> sdiv 1000) * 1000000000 + (\<lfloor>time * 1000\<rfloor> smod 1000) * 1000"
    unfolding expiry_def timer_spec_def Let_def if_not_P [OF not_small] t(1) by simp
  then show ?thesis using sdiv_smod_nonneg [OF t(2)] by (simp add: Let_def)
qed

lemma addTimer_timer:
  assumes "isInLoopThread (t_loop (timer_of w s)) w"
  shows "timer_of (addTimer bound s time interval cb w) s =
    (timer_of w s)\<lparr>timerCallback := Some cb, t_spec := timer_spec time interval\<rparr>"
proof -
  have same: "timer_of w' = timer_of v" if "ev_world.more w' = ev_world.more v" for v w' :: "('a, 'b) timer_world_scheme"
    using that by (cases v; cases w'; simp)
  have a: "timer_of (assertInLoopThread l v) = timer_of v" for l and v :: "('a, 'b) timer_world_scheme"
    by (rule same) (simp add: assertInLoopThread_def)
  have b: "timer_of (upd_chan (TimerChan s) (tie (nat s)) (enableRecv (TimerChan s) w)) = timer_of w"
    by (rule same) (simp add: chan_op_defs frame)
  have c: "isInLoopThread k (upd_chan (TimerChan s) (tie (nat s)) (enableRecv (TimerChan s) w)) = isInLoopThread k w" for k
    by (simp add: chan_op_defs frame)
  show ?thesis
    using assms by (simp add: addTimer_def runTask_def addTimerInLoop_def upd_timer_def a b c Let_def)
qed

text \<open>
  When \<^verbatim>\<open>runAfter\<close> is asked for a delay, the timer is set to expire after the whole
  seconds of the delay and as many \<^emph>\<open>microseconds\<close> as the rest has milliseconds: the first
  expiry is the delay, to the millisecond, exactly when the delay is a whole number of
  seconds, and a delay below one millisecond disarms the timer.
\<close>

theorem runAfter_expiry:
  assumes "isInLoopThread l w" "1 / 10 ^ 15 \<le> delay"
  shows "let k = \<lfloor>delay * 1000\<rfloor>; e = expiry (t_spec (timer_of (snd (runAfter l f bound delay cb w)) (numCreate w + 1))) in
     e = k div 1000 * 1000000000 + k mod 1000 * 1000 \<and> (e = k * 1000000) = (k mod 1000 = 0) \<and>
     (e = 0) = (k = 0)"
proof -
  define s where "s = numCreate w + 1"
  define k where "k = \<lfloor>delay * 1000\<rfloor>"
  define w1 where "w1 = snd (Timer_ctor l f w)"
  have w1: "isInLoopThread (t_loop (timer_of w1 s)) w1"
    using assms(1) by (simp add: w1_def s_def Timer_ctor_def Let_def isInLoopThread_def)
  have pos: "0 < delay" by (rule less_le_trans [OF _ assms(2)]) simp
  then have k: "0 \<le> k" by (simp add: k_def)
  have upd: "timer_of (upd_loop l g v) = timer_of v" for g and v :: "('a, 'b) timer_world_scheme"
    by (simp add: upd_loop_def)
  have "t_spec (timer_of (snd (runAfter l f bound delay cb w)) s) = timer_spec delay 0"
    unfolding runAfter_def run_timer_def
    using addTimer_timer [OF w1, of bound delay 0 cb]
    by (simp add: upd w1_def s_def Timer_ctor_def Let_def)
  then have e: "expiry (t_spec (timer_of (snd (runAfter l f bound delay cb w)) s)) =
      k div 1000 * 1000000000 + k mod 1000 * 1000"
    using expiry_spec [OF assms(2), of 0] by (simp add: k_def Let_def)
  have m: "k = k div 1000 * 1000 + k mod 1000" "0 \<le> k mod 1000" "k mod 1000 < 1000" "0 \<le> k div 1000"
    using k by simp_all
  have "(k div 1000 * 1000000000 + k mod 1000 * 1000 = k * 1000000) = (k mod 1000 = 0)"
    using m by linarith
  moreover have "(k div 1000 * 1000000000 + k mod 1000 * 1000 = 0) = (k = 0)"
    using m by (metis add_nonneg_eq_0_iff mult_eq_0_iff mult_nonneg_nonneg zero_le_numeral zero_neq_numeral
        div_0 mod_0)
  ultimately show ?thesis unfolding s_def [symmetric] k_def [symmetric] Let_def e by blast
qed

section \<open>The end of a timer\<close>

text \<open>A call that leaves a timer, its channel and its entry in the loop alone.\<close>

definition leaves_timer ::
  "int \<Rightarrow> loop_id \<Rightarrow> (('f, 'z) timer_world_scheme \<Rightarrow> ('f, 'z) timer_world_scheme) \<Rightarrow> bool" where
  "leaves_timer s l g \<longleftrightarrow> (\<forall>w. chans (g w) (TimerChan s) = chans w (TimerChan s) \<and>
     timer_of (g w) s = timer_of w s \<and> timers (loops (g w) l) s = timers (loops w l) s \<and>
     (reg_inv w \<longrightarrow> reg_inv (g w)))"

lemma only_EPOLLIN:
  "\<not> has EPOLLIN EPOLLHUP" "\<not> has EPOLLIN EPOLLERR" "\<not> has EPOLLIN EPOLLOUT"
  "has EPOLLIN (EPOLLIN OR EPOLLPRI OR EPOLLRDHUP)"
  by (simp_all add: has_def event_defs)

lemma reg_inv_flags [simp]:
  "reg_inv (upd_chan ch (\<lambda>c. c\<lparr>ch_revents := r\<rparr>) w) = reg_inv w"
  "reg_inv (upd_chan ch (\<lambda>c. c\<lparr>ch_handling := b\<rparr>) w) = reg_inv w"
  "reg_inv (upd_loop l (\<lambda>L. L\<lparr>timers := m L\<rparr>) w) = reg_inv w"
  by (rule reg_inv_cong; simp)+

text \<open>The state in which the callback runs.\<close>

definition firing :: "int \<Rightarrow> ('f, 'z) timer_world_scheme \<Rightarrow> ('f, 'z) timer_world_scheme" where
  "firing s w = upd_chan (TimerChan s) (\<lambda>c. c\<lparr>ch_handling := True\<rparr>)
     (upd_chan (TimerChan s) (\<lambda>c. c\<lparr>ch_revents := EPOLLIN\<rparr>) w)"

lemma firing_simps [simp]:
  "timer_of (firing s w) = timer_of w" "loops (firing s w) = loops w" "reg_inv (firing s w) = reg_inv w"
  "chans (firing s w) (TimerChan s) = (chans w (TimerChan s))\<lparr>ch_revents := EPOLLIN, ch_handling := True\<rparr>"
proof -
  show "timer_of (firing s w) = timer_of w" by (simp add: firing_def upd_chan_def)
qed (simp_all add: firing_def)

lemma handle_timer_event:
  assumes "ch_tied (chans w (TimerChan s))" "ch_tie (chans w (TimerChan s)) = nat s" "0 \<le> s"
    and "timers (loops w l) s \<noteq> None"
    and "ch_revents (chans (timer_handleRead exec s (firing s w)) (TimerChan s)) = EPOLLIN"
  shows "handle_one (\<lambda>owner w. timers (loops w l) (int owner) \<noteq> None) (\<lambda>_. timer_cbs exec s)
      (TimerChan s, EPOLLIN, t) w =
    upd_chan (TimerChan s) (\<lambda>c. c\<lparr>ch_handling := False\<rparr>) (timer_handleRead exec s (firing s w))"
  using assms
  by (simp add: handle_one_def handleEvents_def handleEventsWithGuard_def firing_def timer_cbs_def Let_def
      only_EPOLLIN call_def)

text \<open>What the event of a timer finds.\<close>

definition armed :: "loop_id \<Rightarrow> int \<Rightarrow> 'f \<Rightarrow> ('f, 'z) timer_world_scheme \<Rightarrow> bool" where
  "armed l s cb w \<longleftrightarrow> 0 \<le> s \<and> timers (loops w l) s = Some (nat s) \<and> t_loop (timer_of w s) = l \<and>
     timerCallback (timer_of w s) = Some cb \<and> ch_tied (chans w (TimerChan s)) \<and>
     ch_tie (chans w (TimerChan s)) = nat s \<and> ch_state (chans w (TimerChan s)) = ADD"

definition one_shot :: "itimerspec \<Rightarrow> bool" where
  "one_shot p \<longleftrightarrow> interval_sec p = 0 \<and> interval_nsec p = 0"

lemma armed_called:
  assumes "armed l s cb w" "leaves_timer s l (exec cb)"
  shows "armed l s cb (exec cb (firing s w))" "t_spec (timer_of (exec cb (firing s w)) s) = t_spec (timer_of w s)"
    "ch_revents (chans (exec cb (firing s w)) (TimerChan s)) = EPOLLIN"
    "ch_handling (chans (exec cb (firing s w)) (TimerChan s))"
  using assms by (simp_all add: armed_def leaves_timer_def)

lemma periodic_fires:
  assumes "armed l s cb w" "leaves_timer s l (exec cb)" "\<not> one_shot (t_spec (timer_of w s))"
  shows "timer_fires exec s t w = upd_chan (TimerChan s) (\<lambda>c. c\<lparr>ch_handling := False\<rparr>) (exec cb (firing s w))"
proof -
  note C = armed_called [of l s cb w exec, OF assms(1,2)]
  have tm: "timers (loops w l) s \<noteq> None" "t_loop (timer_of w s) = l" "timerCallback (timer_of w s) = Some cb"
    "timers (loops (exec cb (firing s w)) l) s \<noteq> None"
    using assms(1) C(1) by (auto simp: armed_def)
  have read: "timer_handleRead exec s (firing s w) = exec cb (firing s w)"
    using assms(3) C(2) tm(3) by (auto simp: timer_handleRead_def one_shot_def)
  have one: "handle_one (\<lambda>owner w. timers (loops w l) (int owner) \<noteq> None) (\<lambda>_. timer_cbs exec s) (TimerChan s, EPOLLIN, t) w =
      upd_chan (TimerChan s) (\<lambda>c. c\<lparr>ch_handling := False\<rparr>) (exec cb (firing s w))"
    unfolding read [symmetric]
    by (rule handle_timer_event) (use assms(1) C(3) read in \<open>auto simp: armed_def\<close>)
  then show ?thesis
    unfolding timer_fires_def tm(2) Let_def one using tm(4) by auto
qed

lemma one_shot_fires:
  assumes "armed l s cb w" "leaves_timer s l (exec cb)" "one_shot (t_spec (timer_of w s))"
  shows "timer_fires exec s t w = Timer_dtor s (upd_chan (TimerChan s) (\<lambda>c. c\<lparr>ch_handling := False\<rparr>)
    (upd_loop l (\<lambda>L. L\<lparr>timers := (timers L)(s := None)\<rparr>) (exec cb (firing s w))))"
proof -
  define v where "v = exec cb (firing s w)"
  define v1 where "v1 = upd_loop l (\<lambda>L. L\<lparr>timers := (timers L)(s := None)\<rparr>) v"
  note C = armed_called [of l s cb w exec, OF assms(1,2), folded v_def]
  have tm: "timers (loops w l) s \<noteq> None" "t_loop (timer_of w s) = l" "timerCallback (timer_of w s) = Some cb"
    "timers (loops v l) s \<noteq> None" "t_loop (timer_of v s) = l"
    using assms(1) C(1) by (auto simp: armed_def)
  have read: "timer_handleRead exec s (firing s w) = v1"
    using assms(3) C(2,4) tm by (simp add: timer_handleRead_def v_def [symmetric] v1_def cancel_def Let_def one_shot_def)
  have one: "handle_one (\<lambda>owner w. timers (loops w l) (int owner) \<noteq> None) (\<lambda>_. timer_cbs exec s) (TimerChan s, EPOLLIN, t) w =
      upd_chan (TimerChan s) (\<lambda>c. c\<lparr>ch_handling := False\<rparr>) v1"
    unfolding read [symmetric]
    by (rule handle_timer_event) (use assms(1) C(3) read in \<open>auto simp: armed_def v1_def\<close>)
  show ?thesis
    unfolding timer_fires_def tm(2) Let_def one using tm(1) by (simp add: v1_def v_def)
qed

text \<open>The destruction of a timer frees its descriptor.\<close>

lemma Timer_dtor_frees:
  assumes "reg_inv w" "ch_state (chans w (TimerChan s)) = ADD"
  defines "f \<equiv> ch_fd (chans w (TimerChan s))" and "m \<equiv> ch_loop (chans w (TimerChan s))"
    and "w' \<equiv> Timer_dtor s w"
  shows "reg_inv w'" "channels (loops w' m) f = None" "epoll (loops w' m) f = None"
    "timers (loops w' l) = timers (loops w l)" "\<And>ch. ch \<noteq> TimerChan s \<Longrightarrow> chans w' ch = chans w ch"
proof -
  define v where "v = disableAll (TimerChan s) w"
  have "reg_inv v"
    unfolding v_def chan_op_defs by (rule set_events_reg [OF assms(1)]) (simp add: can_register_known assms(2))
  moreover have c: "ch_state (chans v (TimerChan s)) \<noteq> NEW" "isNoneEvent (chans v (TimerChan s))"
    "ch_fd (chans v (TimerChan s)) = f" "ch_loop (chans v (TimerChan s)) = m"
    using assms(2) by (simp_all add: v_def chan_op_defs effect next_state_def isNoneEvent_def f_def m_def)
  ultimately have inv: "reg_inv w'"
    unfolding w'_def Timer_dtor_def v_def [symmetric] by (intro remove_chan_reg)
  then show "reg_inv w'" .
  show free: "channels (loops w' m) f = None"
    unfolding w'_def Timer_dtor_def v_def [symmetric] using remove_chan_loops [of "TimerChan s" v] c by simp
  show "epoll (loops w' m) f = None" by (rule reg_fresh_epoll [OF inv free])
  show "timers (loops w' l) = timers (loops w l)"
    by (simp add: w'_def Timer_dtor_def frame chan_op_defs)
  show "chans w' ch = chans w ch" if "ch \<noteq> TimerChan s" for ch
    using that by (simp add: w'_def Timer_dtor_def chan_op_defs effect)
qed

text \<open>
  A timer that was set with \<^verbatim>\<open>runAfter\<close> is gone once it has fired: when its event is
  handled, the callback runs, the loop forgets the timer, and its channel is taken out of
  the channel map and the interest list, which stay consistent; nothing of it is destroyed
  before the callback has returned.
\<close>

theorem one_shot_timer_ends:
  assumes "reg_inv w" "timers (loops w l) s = Some (nat s)" "0 \<le> s" "t_loop (timer_of w s) = l"
    and "timerCallback (timer_of w s) = Some cb" "leaves_timer s l (exec cb)"
    and "interval_sec (t_spec (timer_of w s)) = 0" "interval_nsec (t_spec (timer_of w s)) = 0"
    and "ch_tied (chans w (TimerChan s))" "ch_tie (chans w (TimerChan s)) = nat s"
    and "ch_state (chans w (TimerChan s)) = ADD"
  shows "let w' = timer_fires exec s t w; f = ch_fd (chans w (TimerChan s)); m = ch_loop (chans w (TimerChan s)) in
    timers (loops w' l) s = None \<and> channels (loops w' m) f = None \<and> epoll (loops w' m) f = None \<and> reg_inv w'"
proof -
  have armed: "armed l s cb w" and once: "one_shot (t_spec (timer_of w s))"
    using assms by (simp_all add: armed_def one_shot_def)
  define v where "v = upd_chan (TimerChan s) (\<lambda>c. c\<lparr>ch_handling := False\<rparr>)
    (upd_loop l (\<lambda>L. L\<lparr>timers := (timers L)(s := None)\<rparr>) (exec cb (firing s w)))"
  have "chans (exec cb (firing s w)) (TimerChan s) = chans (firing s w) (TimerChan s)" "reg_inv (exec cb (firing s w))"
    using assms(1,6) by (simp_all add: leaves_timer_def)
  then have "reg_inv v" "ch_state (chans v (TimerChan s)) = ADD" "timers (loops v l) s = None"
    "ch_fd (chans v (TimerChan s)) = ch_fd (chans w (TimerChan s))"
    "ch_loop (chans v (TimerChan s)) = ch_loop (chans w (TimerChan s))"
    using assms(11) by (simp_all add: v_def)
  with Timer_dtor_frees [of v s] show ?thesis
    unfolding one_shot_fires [of l s cb w exec t, OF armed assms(6) once] v_def [symmetric] by (simp add: Let_def)
qed

section \<open>Examples\<close>

definition half_second :: "nat timer_world" where
  "half_second = snd (runAfter 0 9 1 (1 / 2) 2 (ev_world.extend (boot_world 0)
     \<lparr>timer_of = (\<lambda>_. \<lparr>t_fd = 0, t_loop = 0, timerCallback = None, t_spec = zero_spec\<rparr>), numCreate = 0\<rparr>))"

text \<open>A timer for half a second expires after half a millisecond.\<close>

theorem runAfter_expiry_witness: "expiry (t_spec (timer_of half_second 1)) = 500000"
proof -
  let ?w = "ev_world.extend (boot_world 0)
     \<lparr>timer_of = (\<lambda>_. \<lparr>t_fd = 0, t_loop = 0, timerCallback = None, t_spec = zero_spec\<rparr>), numCreate = 0\<rparr> :: nat timer_world"
  have w: "isInLoopThread 0 ?w" "numCreate ?w = 0"
    by (simp_all add: isInLoopThread_def ev_world.defs boot_world_def boot_loop_def)
  from runAfter_expiry [OF w(1), of "1 / 2" 9 1 2] show ?thesis
    unfolding half_second_def Let_def w(2) by simp
qed

text \<open>A timer that was set, as its event finds it.\<close>

lemma run_timer_registers:
  fixes w :: "('f, 'z) timer_world_scheme" and time interval :: rat and bound cb :: 'f
  assumes "reg_inv w" "isInLoopThread l w" "ch_state (chans w (TimerChan s)) = NEW" "s = numCreate w + 1"
    and "channels (loops w l) f = None"
  defines "w' \<equiv> snd (run_timer l f bound time interval cb w)"
  shows "reg_inv w'" "timers (loops w' l) s = Some (nat s)" "t_loop (timer_of w' s) = l"
    "timerCallback (timer_of w' s) = Some cb" "t_spec (timer_of w' s) = timer_spec time interval"
    "ch_tied (chans w' (TimerChan s))" "ch_tie (chans w' (TimerChan s)) = nat s"
    "ch_state (chans w' (TimerChan s)) = ADD"
    "ch_fd (chans w' (TimerChan s)) = f" "ch_loop (chans w' (TimerChan s)) = l"
proof -
  define w1 where "w1 = snd (Timer_ctor l f w)"
  define w2 where "w2 = upd_chan (TimerChan s) (tie (nat s)) (enableRecv (TimerChan s) w1)"
  have w1: "chans w1 = (chans w)(TimerChan s := Channel_ctor l f)" "loops w1 = loops w"
    "t_loop (timer_of w1 s) = l" "isInLoopThread k w1 = isInLoopThread k w" for k
    by (simp_all add: w1_def Timer_ctor_def Let_def assms(4) isInLoopThread_def)
  have "reg_inv w1 = reg_inv (w\<lparr>chans := (chans w)(TimerChan s := Channel_ctor l f)\<rparr>)"
    by (rule reg_inv_cong) (simp_all add: w1)
  then have "reg_inv w1" using reg_inv_new_channel [OF assms(1,3)] by simp
  moreover have "can_register (TimerChan s) w1" by (simp add: can_register_def w1 assms(5) Channel_ctor_def)
  ultimately have r: "reg_inv (enableRecv (TimerChan s) w1)" unfolding chan_op_defs by (rule set_events_reg)
  have "reg_inv w2 = reg_inv (enableRecv (TimerChan s) w1)"
    unfolding w2_def by (rule reg_inv_cong) (simp_all add: tie_def)
  with r have r2: "reg_inv w2" by simp
  have thread: "isInLoopThread (t_loop (timer_of w1 s)) w2"
    using assms(2) w1 by (simp add: w2_def chan_op_defs frame)
  define w3 where "w3 = addTimerInLoop s time interval cb w2"
  have w': "w' = upd_loop l (\<lambda>L. L\<lparr>timers := (timers L)(s \<mapsto> nat s)\<rparr>) w3"
    using thread by (simp add: w'_def run_timer_def addTimer_def Let_def w3_def w2_def runTask_def w1_def Timer_ctor_def
        assms(4) split: prod.split)
  have w3: "chans w3 = chans w2" "loops w3 = loops w2"
    by (simp_all add: w3_def addTimerInLoop_def upd_timer_def assertInLoopThread_def)
  have "reg_inv w3 = reg_inv w2" by (rule reg_inv_cong) (simp_all add: w3)
  with r2 show "reg_inv w'" by (simp add: w')
  have c: "chans w' (TimerChan s) = tie (nat s) (chans (enableRecv (TimerChan s) w1) (TimerChan s))"
    by (simp add: w' w3 w2_def)
  show "ch_tied (chans w' (TimerChan s))" "ch_tie (chans w' (TimerChan s)) = nat s"
    "ch_state (chans w' (TimerChan s)) = ADD" "ch_fd (chans w' (TimerChan s)) = f" "ch_loop (chans w' (TimerChan s)) = l"
    by (simp_all add: c tie_def chan_op_defs effect next_state_def w1 Channel_ctor_def)
  show "timers (loops w' l) s = Some (nat s)" by (simp add: w')
  have upd: "timer_of (upd_loop l g v) = timer_of v" for g and v :: "('f, 'z) timer_world_scheme"
    by (simp add: upd_loop_def)
  have "timer_of w' s = timer_of (addTimer bound s time interval cb w1) s"
    using thread by (simp add: w' upd w3_def addTimer_def Let_def w2_def runTask_def)
  also have "\<dots> = (timer_of w1 s)\<lparr>timerCallback := Some cb, t_spec := timer_spec time interval\<rparr>"
    by (rule addTimer_timer) (simp add: w1 assms(2))
  finally show "t_loop (timer_of w' s) = l" "timerCallback (timer_of w' s) = Some cb"
    "t_spec (timer_of w' s) = timer_spec time interval"
    using w1(3) by simp_all
qed

theorem one_shot_timer_ends_witness:
  "timers (loops (timer_fires (\<lambda>_ v. v) 1 0 half_second) 0) 1 = None"
proof -
  let ?w = "ev_world.extend (boot_world 0)
     \<lparr>timer_of = (\<lambda>_. \<lparr>t_fd = 0, t_loop = 0, timerCallback = None, t_spec = zero_spec\<rparr>), numCreate = 0\<rparr> :: nat timer_world"
  have "reg_inv ?w" by (simp add: reg_inv_def ev_world.defs boot_world_def boot_loop_def Channel_ctor_def)
  moreover have "isInLoopThread 0 ?w" "ch_state (chans ?w (TimerChan 1)) = NEW" "1 = numCreate ?w + 1"
    "channels (loops ?w 0) 9 = None"
    by (simp_all add: isInLoopThread_def ev_world.defs boot_world_def boot_loop_def Channel_ctor_def)
  ultimately have T: "reg_inv half_second" "timers (loops half_second 0) 1 = Some (nat 1)"
    "t_loop (timer_of half_second 1) = 0" "timerCallback (timer_of half_second 1) = Some 2"
    "t_spec (timer_of half_second 1) = timer_spec (1 / 2) 0" "ch_tied (chans half_second (TimerChan 1))"
    "ch_tie (chans half_second (TimerChan 1)) = nat 1" "ch_state (chans half_second (TimerChan 1)) = ADD"
    unfolding half_second_def runAfter_def by (rule run_timer_registers)+
  have "interval_sec (timer_spec (1 / 2) 0) = 0" "interval_nsec (timer_spec (1 / 2) 0) = 0"
    by (simp_all add: timer_spec_def trunc_def Let_def)
  with one_shot_timer_ends [OF T(1,2) _ T(3,4) _ _ _ T(6,7,8), of "\<lambda>_ v. v" 0] show ?thesis
    by (simp add: T leaves_timer_def Let_def)
qed

end
