(* ===== verification/ProtobufCodec.thy ===== *)
theory ProtobufCodec
  imports Wire
begin

text \<open>
  \<^verbatim>\<open>src/slite/protobuf/ProtobufCodec.h\<close> and \<^verbatim>\<open>ProtobufCodec.cc\<close>: messages of any
  registered type, framed with a length, the type name and a check sum. The protobuf
  library and zlib are not part of the sources: what the codec calls of them is the record
  \<open>proto\<close>, an argument of every operation. The calls of the message and error callbacks are
  the messages delivered and the error of the result, in the order they happen: the code
  makes at most one error call, and it is the last.
\<close>

section \<open>The libraries\<close>

record 'm proto =
  GetTypeName :: "'m \<Rightarrow> string"
  serialize :: "'m \<Rightarrow> bytes"                       \<comment> \<open>\<^verbatim>\<open>SerializeWithCachedSizesToArray\<close>\<close>
  registered :: "string \<Rightarrow> bool"                   \<comment> \<open>the generated pool knows the type\<close>
  ParseFromArray :: "string \<Rightarrow> bytes \<Rightarrow> 'm option"  \<comment> \<open>of a new message of this type\<close>
  adler32 :: "bytes \<Rightarrow> 32 word"                    \<comment> \<open>\<^verbatim>\<open>::adler32(1, ...)\<close>\<close>

section \<open>Encoding\<close>

definition fillEmptyBuffer :: "'m proto \<Rightarrow> 'm \<Rightarrow> bytes" where
  "fillEmptyBuffer P m =
     (let typeName = GetTypeName P m;
          nameLen = length typeName + 1;
          buf1 = be32 (word_of_nat nameLen) @ typeName @ [CHR 0x00];
          buf2 = buf1 @ serialize P m;
          buf3 = buf2 @ be32 (adler32 P buf2)
      in be32 (word_of_nat (length buf3)) @ buf3)"

section \<open>Decoding\<close>

definition kMinMessageLen :: nat where
  "kMinMessageLen = 2 * kHeaderLen + 2"

text \<open>
  \<open>buf\<close> holds the \<open>len\<close> bytes of a frame. The message of a failed parse is not looked at by
  the caller, so the result is the error or the message.
\<close>

definition codec_parse :: "'m proto \<Rightarrow> bytes \<Rightarrow> nat \<Rightarrow> ErrorCode + 'm" where
  "codec_parse P buf len =
     (let expectedCheckSum = asInt32 (drop (len - kHeaderLen) buf);
          checkSum = adler32 P (take (len - kHeaderLen) buf)
      in if checkSum = expectedCheckSum then
           (let nameLen = sint (asInt32 buf) in
            if 2 \<le> nameLen \<and> nameLen \<le> int len - 2 * int kHeaderLen then
              (let n = nat nameLen;
                   typeName = take (n - 1) (drop kHeaderLen buf)
               in if registered P typeName then
                    (case ParseFromArray P typeName
                            (take (len - n - 2 * kHeaderLen) (drop (kHeaderLen + n) buf)) of
                       Some m \<Rightarrow> Inr m
                     | None \<Rightarrow> Inl kParseError)
                  else Inl kUnknownMessageType)
            else Inl kInvalidNameLen)
         else Inl kCheckSumError)"

text \<open>
  The loop of \<^verbatim>\<open>onMessage\<close>. \<^verbatim>\<open>len\<close> is signed and compared as such.
\<close>

function codec_onMessage :: "'m proto \<Rightarrow> bytes \<Rightarrow> 'm list \<times> ErrorCode option \<times> bytes" where
  "codec_onMessage P buf =
     (if kMinMessageLen + kHeaderLen \<le> length buf then
        (let len = sint (asInt32 buf) in
         if int kMaxMessageLen < len \<or> len < int kMinMessageLen then ([], Some kInvalidLength, buf)
         else if nat len + kHeaderLen \<le> length buf then
           (case codec_parse P (take (nat len) (drop kHeaderLen buf)) (nat len) of
              Inr m \<Rightarrow>
                (case codec_onMessage P (drop (kHeaderLen + nat len) buf) of
                   (ms, e, r) \<Rightarrow> (m # ms, e, r))
            | Inl e \<Rightarrow> ([], Some e, buf))
         else ([], None, buf))
      else ([], None, buf))"
  by pat_completeness auto

termination by (relation "measure (\<lambda>(P, buf). length buf)") (auto simp: kHeaderLen_def)

declare codec_onMessage.simps [simp del]

section \<open>The framing contract\<close>

definition codec_front :: "'m proto \<Rightarrow> bytes \<Rightarrow> (ErrorCode, 'm) frame" where
  "codec_front P buf =
     (let len = sint (asInt32 buf) in
      if length buf < kMinMessageLen + kHeaderLen then Incomplete
      else if int kMaxMessageLen < len \<or> len < int kMinMessageLen then Corrupt kInvalidLength
      else if length buf < nat len + kHeaderLen then Incomplete
      else (case codec_parse P (take (nat len) (drop kHeaderLen buf)) (nat len) of
              Inr m \<Rightarrow> Framed [m] (drop (kHeaderLen + nat len) buf)
            | Inl e \<Rightarrow> Corrupt e))"

lemma codec_onMessage_front:
  "codec_onMessage P buf =
     (case codec_front P buf of
        Incomplete \<Rightarrow> ([], None, buf)
      | Corrupt e \<Rightarrow> ([], Some e, buf)
      | Framed ms r \<Rightarrow> (case codec_onMessage P r of (ms', e, r') \<Rightarrow> (ms @ ms', e, r')))"
  by (subst codec_onMessage.simps) (auto simp: codec_front_def Let_def split: sum.split prod.split)

lemma codec_front_asInt32: "codec_front P a \<noteq> Incomplete \<Longrightarrow> asInt32 (a @ b) = asInt32 a"
  by (rule asInt32_append) (auto simp: codec_front_def kMinMessageLen_def kHeaderLen_def Let_def split: if_splits)

text \<open>What a well-formed message is: the protobuf library reads back what it wrote.\<close>

definition codec_ok :: "'m proto \<Rightarrow> 'm \<Rightarrow> bool" where
  "codec_ok P m \<longleftrightarrow> GetTypeName P m \<noteq> [] \<and> registered P (GetTypeName P m) \<and>
     ParseFromArray P (GetTypeName P m) (serialize P m) = Some m \<and>
     length (GetTypeName P m) + 1 + length (serialize P m) + 2 * kHeaderLen \<le> kMaxMessageLen"

definition frame_body :: "'m proto \<Rightarrow> 'm \<Rightarrow> bytes" where
  "frame_body P m = be32 (word_of_nat (length (GetTypeName P m) + 1)) @ GetTypeName P m @ [CHR 0x00] @ serialize P m"

lemma length_frame_body: "length (frame_body P m) = length (GetTypeName P m) + length (serialize P m) + 5"
  by (simp add: frame_body_def)

lemma fillEmptyBuffer_frame:
  "fillEmptyBuffer P m = be32 (word_of_nat (length (frame_body P m) + 4)) @ frame_body P m @ be32 (adler32 P (frame_body P m))"
  by (simp add: fillEmptyBuffer_def frame_body_def Let_def)

lemma codec_parse_frame:
  assumes "codec_ok P m"
  shows "codec_parse P (frame_body P m @ be32 (adler32 P (frame_body P m))) (length (frame_body P m) + 4) = Inr m"
proof -
  let ?t = "GetTypeName P m"
  have small: "length ?t + 1 < 2147483648"
    using assms by (simp add: codec_ok_def kMaxMessageLen_def kHeaderLen_def)
  have len: "sint (asInt32 (frame_body P m @ r)) = int (length ?t + 1)" for r
    by (simp only: frame_body_def append_assoc asInt32_be32 sint_word_of_nat [OF small])
  have name: "take (length ?t) (drop 4 (frame_body P m @ r)) = ?t" for r
    by (simp add: frame_body_def)
  have data: "take (length (serialize P m)) (drop (4 + Suc (length ?t)) (frame_body P m @ r)) = serialize P m" for r
    by (simp add: frame_body_def)
  show ?thesis
    using assms len [of "be32 (adler32 P (frame_body P m))"] name data
    by (simp add: codec_parse_def Let_def kHeaderLen_def codec_ok_def length_frame_body nat_add_distrib Suc_le_eq)
qed

lemma codec_front_encoded:
  assumes "codec_ok P m"
  shows "codec_front P (fillEmptyBuffer P m @ r) = Framed [m] r"
proof -
  define n where "n = length (frame_body P m) + 4"
  define body where "body = frame_body P m @ be32 (adler32 P (frame_body P m))"
  have enc: "fillEmptyBuffer P m = be32 (word_of_nat n) @ body" and body: "length body = n"
    by (simp_all add: fillEmptyBuffer_frame n_def body_def)
  have n: "kMinMessageLen \<le> n" "n \<le> kMaxMessageLen"
    using assms by (auto simp: n_def codec_ok_def length_frame_body kMinMessageLen_def kHeaderLen_def Suc_le_eq)
  then have len: "sint (asInt32 (fillEmptyBuffer P m @ r)) = int n"
    unfolding enc append_assoc asInt32_be32 by (intro sint_word_of_nat) (simp add: kMaxMessageLen_def)
  have "codec_parse P body n = Inr m"
    unfolding body_def n_def by (rule codec_parse_frame [OF assms])
  then show ?thesis
    unfolding codec_front_def Let_def len using n body by (simp add: enc kHeaderLen_def)
qed

interpretation codec: framing_codec "codec_front P" "codec_onMessage P" "fillEmptyBuffer P" "codec_ok P"
  for P :: "'m proto"
proof unfold_locales
  show "codec_onMessage P buf =
     (case codec_front P buf of
        Incomplete \<Rightarrow> ([], None, buf)
      | Corrupt e \<Rightarrow> ([], Some e, buf)
      | Framed ms r \<Rightarrow> (case codec_onMessage P r of (ms', e, r') \<Rightarrow> (ms @ ms', e, r')))" for buf
    by (rule codec_onMessage_front)
  show "length r < length buf" if "codec_front P buf = Framed ms r" for buf ms r
    using that by (auto simp: codec_front_def Let_def kHeaderLen_def split: if_splits sum.splits)
  show "codec_front P (a @ b) = Framed ms (r @ b)" if "codec_front P a = Framed ms r" for a b ms r
    using that codec_front_asInt32 [of P a b]
    by (auto simp: codec_front_def Let_def split: if_splits sum.splits)
  show "codec_front P (a @ b) = Corrupt e" if "codec_front P a = Corrupt e" for a b e
    using that codec_front_asInt32 [of P a b]
    by (auto simp: codec_front_def Let_def split: if_splits sum.splits)
  show "codec_front P (fillEmptyBuffer P m @ r) = Framed [m] r" if "codec_ok P m" for m r
    using that by (rule codec_front_encoded)
qed

section \<open>Properties\<close>

text \<open>
  C4. However the network cuts the stream into reads, a receiver delivers exactly the
  messages the sender encoded, in order, and keeps exactly the bytes of an unfinished frame:
  for messages that the protobuf library reads back and that fit the length limit, followed
  by any bytes that do not yet hold a whole frame.
\<close>

theorem codec_stream_roundtrip:
  assumes "list_all (codec_ok P) ms" "codec_front P r = Incomplete"
    and "concat reads = concat (map (fillEmptyBuffer P) ms) @ r"
  shows "feed (codec_onMessage P) [] reads = (ms, None, r)"
  by (rule codec.stream_roundtrip [OF assms(1,2) _ assms(3)])
     (simp add: codec_front_def kMinMessageLen_def kHeaderLen_def Let_def)

text \<open>
  An error is final: the codec does not drop the bytes it reports an error for, so with
  whatever is received later it delivers nothing more and reports the same error again on
  every read.
\<close>

theorem codec_error_sticks:
  assumes "codec_onMessage P buf = (ms, Some e, r)"
  shows "codec_onMessage P (r @ later) = ([], Some e, r @ later)"
  using assms by (rule codec.run_stuck)

text \<open>
  C39. A frame of a legal length that has arrived in full but whose check sum is wrong is
  never delivered: the codec reports \<^verbatim>\<open>kCheckSumError\<close>, whatever its content.
\<close>

theorem codec_checksum_guards:
  assumes "kMinMessageLen \<le> n" "n \<le> kMaxMessageLen" "length body + 4 = n" "chk \<noteq> adler32 P body"
  shows "codec_onMessage P (be32 (word_of_nat n) @ body @ be32 chk @ later) =
    ([], Some kCheckSumError, be32 (word_of_nat n) @ body @ be32 chk @ later)"
proof -
  let ?buf = "be32 (word_of_nat n) @ body @ be32 chk @ later"
  have len: "sint (asInt32 ?buf) = int n"
    unfolding asInt32_be32 by (rule sint_word_of_nat) (use assms(2) in \<open>simp add: kMaxMessageLen_def\<close>)
  have "codec_parse P (body @ be32 chk) n = Inl kCheckSumError"
    using assms(3,4) by (auto simp: codec_parse_def Let_def kHeaderLen_def)
  moreover have "take n (drop kHeaderLen ?buf) = body @ be32 chk"
    using assms(3) by (simp add: kHeaderLen_def)
  ultimately have "codec_front P ?buf = Corrupt kCheckSumError"
    unfolding codec_front_def Let_def len using assms(1-3) by (simp add: kHeaderLen_def)
  then show ?thesis by (simp add: codec_onMessage_front)
qed

section \<open>Examples\<close>

text \<open>A library whose messages are byte strings, all of one type, with zlib's check sum.\<close>

definition adler_step :: "char \<Rightarrow> nat \<times> nat \<Rightarrow> nat \<times> nat" where
  "adler_step c s = (case s of (a, b) \<Rightarrow>
     (let a' = (a + of_char c) mod 65521 in (a', (b + a') mod 65521)))"

definition adler_of :: "bytes \<Rightarrow> 32 word" where
  "adler_of bs = (case fold adler_step bs (1, 0) of (a, b) \<Rightarrow> word_of_nat (b * 65536 + a))"

definition text_proto :: "bytes proto" where
  "text_proto = \<lparr>GetTypeName = (\<lambda>m. ''Text''), serialize = (\<lambda>m. m), registered = (\<lambda>t. t = ''Text''),
     ParseFromArray = (\<lambda>t bs. Some bs), adler32 = adler_of\<rparr>"

lemma text_ok: "codec_ok text_proto ''hello'' \<and> codec_ok text_proto ''''"
  by (simp add: codec_ok_def text_proto_def kHeaderLen_def kMaxMessageLen_def)

theorem codec_stream_roundtrip_witness:
  "feed (codec_onMessage text_proto) []
     [take 7 (fillEmptyBuffer text_proto ''hello''),
      drop 7 (fillEmptyBuffer text_proto ''hello'') @ fillEmptyBuffer text_proto '''' @ ''xy''] =
   ([''hello'', ''''], None, ''xy'')"
proof (rule codec_stream_roundtrip)
  have cut: "concat [take 7 e, drop 7 e @ f @ r] = concat [e, f] @ r" for e f r :: bytes
    by (simp add: append_assoc [symmetric] del: append_assoc)
  show "concat [take 7 (fillEmptyBuffer text_proto ''hello''),
      drop 7 (fillEmptyBuffer text_proto ''hello'') @ fillEmptyBuffer text_proto '''' @ ''xy''] =
    concat (map (fillEmptyBuffer text_proto) [''hello'', '''']) @ ''xy''"
    unfolding list.map by (rule cut)
  show "list_all (codec_ok text_proto) [''hello'', '''']" using text_ok by simp
  show "codec_front text_proto ''xy'' = Incomplete"
    by (simp add: codec_front_def kMinMessageLen_def kHeaderLen_def Let_def)
qed

theorem codec_checksum_guards_witness:
  "codec_onMessage text_proto (be32 11 @ ''abcdefg'' @ be32 0) =
     ([], Some kCheckSumError, be32 11 @ ''abcdefg'' @ be32 0)"
proof -
  have "0 \<noteq> adler32 text_proto ''abcdefg''"
    by (simp add: text_proto_def adler_of_def adler_step_def)
  moreover have "kMinMessageLen \<le> 11" "11 \<le> kMaxMessageLen" "length ''abcdefg'' + 4 = 11"
    by (simp_all add: kMinMessageLen_def kHeaderLen_def kMaxMessageLen_def)
  ultimately show ?thesis
    using codec_checksum_guards [of 11 "''abcdefg''" 0 text_proto "[]"]
    by (simp only: append_Nil2 of_nat_numeral simp_thms)
qed

theorem codec_error_sticks_witness:
  "codec_onMessage text_proto ((be32 0 @ ''abcdefghij'') @ ''k'') =
     ([], Some kInvalidLength, (be32 0 @ ''abcdefghij'') @ ''k'')"
proof (rule codec_error_sticks)
  have "codec_front text_proto (be32 0 @ ''abcdefghij'') = Corrupt kInvalidLength"
    unfolding codec_front_def Let_def asInt32_be32
    by (simp add: kMinMessageLen_def kHeaderLen_def kMaxMessageLen_def)
  then show "codec_onMessage text_proto (be32 0 @ ''abcdefghij'') = ([], Some kInvalidLength, be32 0 @ ''abcdefghij'')"
    by (simp add: codec_onMessage_front)
qed

end
