(* ===== verification/ProtobufCodecLite.thy ===== *)
theory ProtobufCodecLite
  imports ProtobufCodec
begin

text \<open>
  \<^verbatim>\<open>src/slite/protobuf/ProtobufCodecLite.h\<close>, \<^verbatim>\<open>ProtobufCodecLite.cc\<close> and
  \<^verbatim>\<open>src/slite/protorpc/RpcCodec.h\<close>: messages of one type, framed with a length, a tag and
  a check sum. The result of \<^verbatim>\<open>onMessage\<close> lists the calls of the raw and of the message
  callback in order; the error call, if any, is the last.
\<close>

section \<open>State\<close>

record 'm lite =
  tag :: string
  prototype :: string                               \<comment> \<open>the type of \<^verbatim>\<open>prototype_\<close>\<close>
  rawMessageCallback :: "(bytes \<Rightarrow> bool) option"
  lib :: "'m proto"

datatype 'm lite_call = RawCall bytes | MessageCall 'm

definition kChecksumLen :: nat where
  "kChecksumLen = 4"

definition lite_kMinMessageLen :: "'m lite \<Rightarrow> nat" where
  "lite_kMinMessageLen C = length (tag C) + kChecksumLen"

section \<open>Encoding and decoding\<close>

definition lite_fillEmptyBuffer :: "'m lite \<Rightarrow> 'm \<Rightarrow> bytes" where
  "lite_fillEmptyBuffer C m =
     (let buf1 = tag C @ serialize (lib C) m;
          buf2 = buf1 @ be32 (adler32 (lib C) buf1)
      in be32 (word_of_nat (length buf2)) @ buf2)"

text \<open>
  \<open>buf\<close> holds the \<open>len\<close> bytes of a frame; \<open>message\<close> says that the pointer passed is not
  null. \<^verbatim>\<open>memcmp\<close> answers non-zero when the bytes differ, and it is given the bytes
  from offset 4 on.
\<close>

definition lite_parse :: "'m lite \<Rightarrow> bytes \<Rightarrow> nat \<Rightarrow> bool \<Rightarrow> ErrorCode + 'm" where
  "lite_parse C buf len message =
     (let expectedCheckSum = asInt32 (drop (len - kHeaderLen) buf);
          checkSum = adler32 (lib C) (take (len - kHeaderLen) buf)
      in if checkSum = expectedCheckSum then
           if take (length (tag C)) (drop kHeaderLen buf) \<noteq> tag C then
             if message then
               (case ParseFromArray (lib C) (prototype C)
                       (take (len - kChecksumLen - length (tag C)) (drop (length (tag C)) buf)) of
                  Some m \<Rightarrow> Inr m
                | None \<Rightarrow> Inl kParseError)
             else Inl kUnknownMessageType
           else Inl kInvalidNameLen
         else Inl kCheckSumError)"

function lite_onMessage :: "'m lite \<Rightarrow> bytes \<Rightarrow> 'm lite_call list \<times> ErrorCode option \<times> bytes" where
  "lite_onMessage C buf =
     (if lite_kMinMessageLen C + kHeaderLen \<le> length buf then
        (let len = sint (asInt32 buf) in
         if int kMaxMessageLen < len \<or> len < int (lite_kMinMessageLen C) then ([], Some kInvalidLength, buf)
         else if nat len + kHeaderLen \<le> length buf then
           (let frame = take (nat len) (drop kHeaderLen buf);
                later = drop (kHeaderLen + nat len) buf;
                raw = (case rawMessageCallback C of None \<Rightarrow> [] | Some f \<Rightarrow> [RawCall frame])
            in if (case rawMessageCallback C of None \<Rightarrow> False | Some f \<Rightarrow> \<not> f frame) then
                 (case lite_onMessage C later of (cs, e, r) \<Rightarrow> (raw @ cs, e, r))
               else
                 (case lite_parse C frame (nat len) True of
                    Inr m \<Rightarrow> (case lite_onMessage C later of (cs, e, r) \<Rightarrow> (raw @ MessageCall m # cs, e, r))
                  | Inl e \<Rightarrow> (raw, Some e, buf)))
         else ([], None, buf))
      else ([], None, buf))"
  by pat_completeness auto

termination by (relation "measure (\<lambda>(C, buf). length buf)") (auto simp: kHeaderLen_def)

declare lite_onMessage.simps [simp del]

text \<open>
  \<^verbatim>\<open>ProtobufCodecLiteT::onMessage\<close> takes the buffer by value: what the codec drops is
  dropped from a copy.
\<close>

definition liteT_onMessage :: "'m lite \<Rightarrow> bytes \<Rightarrow> 'm lite_call list \<times> ErrorCode option \<times> bytes" where
  "liteT_onMessage C buf = (case lite_onMessage C buf of (cs, e, _) \<Rightarrow> (cs, e, buf))"

text \<open>\<^verbatim>\<open>RpcCodec\<close>: the tag is \<^verbatim>\<open>rpctag\<close>, and there is no raw callback.\<close>

definition RpcCodec :: "string \<Rightarrow> 'm proto \<Rightarrow> 'm lite" where
  "RpcCodec t P = \<lparr>tag = ''RPC0'', prototype = t, rawMessageCallback = None, lib = P\<rparr>"

section \<open>The framing contract\<close>

text \<open>
  An error after a raw call is one that keeps the call: the contract has errors only, so it
  is stated for codecs without a raw callback, as every codec of the sources is.
\<close>

definition lite_front :: "'m lite \<Rightarrow> bytes \<Rightarrow> (ErrorCode, 'm lite_call) frame" where
  "lite_front C buf =
     (let len = sint (asInt32 buf) in
      if length buf < lite_kMinMessageLen C + kHeaderLen then Incomplete
      else if int kMaxMessageLen < len \<or> len < int (lite_kMinMessageLen C) then Corrupt kInvalidLength
      else if length buf < nat len + kHeaderLen then Incomplete
      else (case lite_parse C (take (nat len) (drop kHeaderLen buf)) (nat len) True of
              Inr m \<Rightarrow> Framed [MessageCall m] (drop (kHeaderLen + nat len) buf)
            | Inl e \<Rightarrow> Corrupt e))"

lemma lite_onMessage_front:
  "rawMessageCallback C = None \<Longrightarrow> lite_onMessage C buf =
     (case lite_front C buf of
        Incomplete \<Rightarrow> ([], None, buf)
      | Corrupt e \<Rightarrow> ([], Some e, buf)
      | Framed ms r \<Rightarrow> (case lite_onMessage C r of (ms', e, r') \<Rightarrow> (ms @ ms', e, r')))"
  by (subst lite_onMessage.simps) (auto simp: lite_front_def Let_def split: sum.split prod.split)

lemma lite_front_asInt32: "lite_front C a \<noteq> Incomplete \<Longrightarrow> asInt32 (a @ b) = asInt32 a"
  by (rule asInt32_append)
     (auto simp: lite_front_def lite_kMinMessageLen_def kChecksumLen_def kHeaderLen_def Let_def split: if_splits)

text \<open>The body of the frame of a message, without its check sum.\<close>

definition lite_body :: "'m lite \<Rightarrow> 'm \<Rightarrow> bytes" where
  "lite_body C m = tag C @ serialize (lib C) m"

definition lite_sum :: "'m lite \<Rightarrow> 'm \<Rightarrow> bytes" where
  "lite_sum C m = be32 (adler32 (lib C) (lite_body C m))"

lemma lite_fill: "lite_fillEmptyBuffer C m =
    be32 (word_of_nat (length (lite_body C m) + 4)) @ lite_body C m @ lite_sum C m"
  by (simp add: lite_fillEmptyBuffer_def lite_body_def lite_sum_def Let_def)

lemma length_lite_sum [simp]: "length (lite_sum C m) = 4"
  by (simp add: lite_sum_def)

text \<open>What the comparison with the tag really looks at.\<close>

definition compared :: "'m lite \<Rightarrow> 'm \<Rightarrow> bytes" where
  "compared C m = take (length (tag C)) (drop 4 (lite_body C m @ lite_sum C m))"

text \<open>A message the library reads back, whose frame has a legal length.\<close>

definition lite_fits :: "'m lite \<Rightarrow> 'm \<Rightarrow> bool" where
  "lite_fits C m \<longleftrightarrow> ParseFromArray (lib C) (prototype C) (serialize (lib C) m) = Some m \<and>
     length (lite_body C m) + 4 \<le> kMaxMessageLen"

lemma lite_parse_frame:
  assumes "length (tag C') = length (tag C)" "lib C' = lib C"
  shows "lite_parse C (lite_body C' m @ lite_sum C' m) (length (lite_body C' m) + 4) True =
    (if take (length (tag C)) (drop 4 (lite_body C' m @ lite_sum C' m)) = tag C then Inl kInvalidNameLen
     else case ParseFromArray (lib C) (prototype C) (serialize (lib C) m) of Some m \<Rightarrow> Inr m | None \<Rightarrow> Inl kParseError)"
proof -
  let ?b = "lite_body C' m"
  have "length ?b - length (tag C) = length (serialize (lib C) m)"
    "drop (length (tag C)) ?b = serialize (lib C) m" "length (tag C) \<le> length ?b"
    using assms by (simp_all add: lite_body_def)
  then show ?thesis
    using assms(2)
    by (auto simp: lite_parse_def Let_def kHeaderLen_def kChecksumLen_def lite_sum_def split: option.split)
qed

lemma lite_front_frame:
  assumes "length (tag C') = length (tag C)" "lib C' = lib C" "length (lite_body C' m) + 4 \<le> kMaxMessageLen"
  shows "lite_front C (lite_fillEmptyBuffer C' m @ r) =
    (if take (length (tag C)) (drop 4 (lite_body C' m @ lite_sum C' m)) = tag C then Corrupt kInvalidNameLen
     else case ParseFromArray (lib C) (prototype C) (serialize (lib C) m) of
       Some m \<Rightarrow> Framed [MessageCall m] r | None \<Rightarrow> Corrupt kParseError)"
proof -
  define n where "n = length (lite_body C' m) + 4"
  define body where "body = lite_body C' m @ lite_sum C' m"
  have enc: "lite_fillEmptyBuffer C' m = be32 (word_of_nat n) @ body" and body: "length body = n"
    by (simp_all add: lite_fill n_def body_def)
  have n: "lite_kMinMessageLen C \<le> n" "n \<le> kMaxMessageLen"
    using assms by (simp_all add: n_def lite_kMinMessageLen_def kChecksumLen_def lite_body_def)
  then have len: "sint (asInt32 (lite_fillEmptyBuffer C' m @ r)) = int n"
    unfolding enc append_assoc asInt32_be32 by (intro sint_word_of_nat) (simp add: kMaxMessageLen_def)
  show ?thesis
    using n body lite_parse_frame [OF assms(1,2), of m, folded body_def n_def]
    unfolding lite_front_def Let_def len body_def [symmetric]
    by (auto simp: enc kHeaderLen_def split: option.split)
qed

text \<open>Messages as the calls they lead to.\<close>

definition lite_ok :: "'m lite \<Rightarrow> 'm lite_call \<Rightarrow> bool" where
  "lite_ok C c \<longleftrightarrow> (case c of RawCall _ \<Rightarrow> False | MessageCall m \<Rightarrow> lite_fits C m \<and> compared C m \<noteq> tag C)"

definition lite_enc :: "'m lite \<Rightarrow> 'm lite_call \<Rightarrow> bytes" where
  "lite_enc C c = (case c of RawCall bs \<Rightarrow> bs | MessageCall m \<Rightarrow> lite_fillEmptyBuffer C m)"

lemma lite_front_encoded: "lite_ok C c \<Longrightarrow> lite_front C (lite_enc C c @ r) = Framed [c] r"
  using lite_front_frame [of C C]
  by (cases c) (simp_all add: lite_ok_def lite_enc_def lite_fits_def compared_def)

interpretation lite: framing_codec "lite_front (C\<lparr>rawMessageCallback := None\<rparr>)"
    "lite_onMessage (C\<lparr>rawMessageCallback := None\<rparr>)" "lite_enc (C\<lparr>rawMessageCallback := None\<rparr>)"
    "lite_ok (C\<lparr>rawMessageCallback := None\<rparr>)"
  for C :: "'m lite"
proof unfold_locales
  let ?C = "C\<lparr>rawMessageCallback := None\<rparr>"
  show "lite_onMessage ?C buf =
     (case lite_front ?C buf of
        Incomplete \<Rightarrow> ([], None, buf)
      | Corrupt e \<Rightarrow> ([], Some e, buf)
      | Framed ms r \<Rightarrow> (case lite_onMessage ?C r of (ms', e, r') \<Rightarrow> (ms @ ms', e, r')))" for buf
    by (rule lite_onMessage_front) simp
  show "length r < length buf" if "lite_front ?C buf = Framed ms r" for buf ms r
    using that by (auto simp: lite_front_def Let_def kHeaderLen_def split: if_splits sum.splits)
  show "lite_front ?C (a @ b) = Framed ms (r @ b)" if "lite_front ?C a = Framed ms r" for a b ms r
    using that lite_front_asInt32 [of ?C a b]
    by (auto simp: lite_front_def Let_def split: if_splits sum.splits)
  show "lite_front ?C (a @ b) = Corrupt e" if "lite_front ?C a = Corrupt e" for a b e
    using that lite_front_asInt32 [of ?C a b]
    by (auto simp: lite_front_def Let_def split: if_splits sum.splits)
  show "lite_front ?C (lite_enc ?C c @ r) = Framed [c] r" if "lite_ok ?C c" for c r
    using that by (rule lite_front_encoded)
qed

lemma no_raw: "rawMessageCallback C = None \<Longrightarrow> C\<lparr>rawMessageCallback := None\<rparr> = C"
  by simp

section \<open>Properties\<close>

text \<open>
  C16. However the stream is cut into reads, a receiver with the codec delivers the messages
  the sender encoded, each once and in order, and keeps the bytes of an unfinished frame,
  provided that for no message the bytes the codec compares with its tag are equal to it.
\<close>

theorem lite_stream_roundtrip:
  assumes "rawMessageCallback C = None" "list_all (\<lambda>m. lite_fits C m \<and> compared C m \<noteq> tag C) ms"
    and "lite_front C r = Incomplete" "concat reads = concat (map (lite_fillEmptyBuffer C) ms) @ r"
  shows "feed (lite_onMessage C) [] reads = (map MessageCall ms, None, r)"
proof -
  have "list_all (lite_ok C) (map MessageCall ms)" using assms(2) by (simp add: list.pred_map comp_def lite_ok_def)
  moreover have "concat reads = concat (map (lite_enc C) (map MessageCall ms)) @ r"
    by (simp add: assms(4) comp_def lite_enc_def)
  moreover have "lite_front C [] = Incomplete"
    by (simp add: lite_front_def lite_kMinMessageLen_def kHeaderLen_def kChecksumLen_def Let_def)
  ultimately show ?thesis
    using lite.stream_roundtrip [of C "map MessageCall ms" r reads] assms(3) unfolding no_raw [OF assms(1)] by blast
qed

text \<open>
  The comparison of the tag is the wrong way round and at the wrong place: a frame that
  carries any tag of the same length is delivered exactly when the bytes after its first
  four are \<^emph>\<open>not\<close> the codec's own tag, and refused with \<^verbatim>\<open>kInvalidNameLen\<close> when they are.
\<close>

theorem lite_tag_check:
  assumes "rawMessageCallback C = None" "length t = length (tag C)" "lite_fits (C\<lparr>tag := t\<rparr>) m"
  shows "lite_onMessage C (lite_fillEmptyBuffer (C\<lparr>tag := t\<rparr>) m) =
    (if take (length t) (drop 4 (t @ serialize (lib C) m @ lite_sum (C\<lparr>tag := t\<rparr>) m)) = tag C
     then ([], Some kInvalidNameLen, lite_fillEmptyBuffer (C\<lparr>tag := t\<rparr>) m)
     else ([MessageCall m], None, []))"
proof -
  have empty: "lite_onMessage C [] = ([], None, [])"
    by (simp add: lite_onMessage.simps kHeaderLen_def)
  have "lite_front C (lite_fillEmptyBuffer (C\<lparr>tag := t\<rparr>) m @ []) =
    (if take (length (tag C)) (drop 4 (lite_body (C\<lparr>tag := t\<rparr>) m @ lite_sum (C\<lparr>tag := t\<rparr>) m)) = tag C
     then Corrupt kInvalidNameLen else Framed [MessageCall m] [])"
    by (subst lite_front_frame) (use assms(2,3) in \<open>simp_all add: lite_fits_def\<close>)
  then show ?thesis
    using assms(2) empty by (subst lite_onMessage_front [OF assms(1)]) (simp add: lite_body_def)
qed

text \<open>
  An RPC channel delivers a message again on every later read: \<^verbatim>\<open>onMessage\<close> has its own
  copy of the receive buffer, so nothing is ever dropped from the connection's.
\<close>

theorem rpc_redelivers:
  assumes "rawMessageCallback C = None" "lite_fits C m" "compared C m \<noteq> tag C" "lite_front C r = Incomplete"
  shows "feed (liteT_onMessage C) [] [lite_fillEmptyBuffer C m, r] =
    ([MessageCall m, MessageCall m], None, lite_fillEmptyBuffer C m @ r)"
proof -
  have "lite_onMessage C (lite_fillEmptyBuffer C m @ s) = ([MessageCall m], None, s)"
    if "lite_front C s = Incomplete" for s
    using lite.run_encoded [of C "[MessageCall m]" s] that assms(2,3) unfolding no_raw [OF assms(1)]
    by (simp add: lite_ok_def lite_enc_def)
  moreover have "lite_front C [] = Incomplete"
    by (simp add: lite_front_def lite_kMinMessageLen_def kHeaderLen_def kChecksumLen_def Let_def)
  ultimately have "lite_onMessage C (lite_fillEmptyBuffer C m) = ([MessageCall m], None, [])"
    "lite_onMessage C (lite_fillEmptyBuffer C m @ r) = ([MessageCall m], None, r)"
    using assms(4) by (metis append_Nil2)+
  then show ?thesis by (simp add: liteT_onMessage_def)
qed

section \<open>Examples\<close>

definition rpc_text :: "bytes lite" where
  "rpc_text = RpcCodec ''Text'' text_proto"

lemma rpc_text_simps:
  "rawMessageCallback rpc_text = None" "tag rpc_text = ''RPC0''" "prototype rpc_text = ''Text''"
  "serialize (lib rpc_text) m = m" "ParseFromArray (lib rpc_text) t m = Some m"
  by (simp_all add: rpc_text_def RpcCodec_def text_proto_def)

lemma rpc_text_hello: "lite_fits rpc_text ''hello''" "compared rpc_text ''hello'' \<noteq> tag rpc_text"
  by (simp_all add: lite_fits_def compared_def lite_body_def rpc_text_simps kMaxMessageLen_def)

lemma rpc_text_short: "lite_front rpc_text ''x'' = Incomplete"
  by (simp add: lite_front_def lite_kMinMessageLen_def kHeaderLen_def kChecksumLen_def Let_def)

theorem lite_stream_roundtrip_witness:
  "feed (lite_onMessage rpc_text) [] [lite_fillEmptyBuffer rpc_text ''hello'', ''x''] =
     ([MessageCall ''hello''], None, ''x'')"
  by (rule lite_stream_roundtrip [OF rpc_text_simps(1) _ rpc_text_short, of "[''hello'']", simplified list.map])
     (use rpc_text_hello in simp_all)

theorem rpc_redelivers_witness:
  "feed (liteT_onMessage rpc_text) [] [lite_fillEmptyBuffer rpc_text ''hello'', ''x''] =
    ([MessageCall ''hello'', MessageCall ''hello''], None, lite_fillEmptyBuffer rpc_text ''hello'' @ ''x'')"
  by (rule rpc_redelivers [OF rpc_text_simps(1) rpc_text_hello rpc_text_short])

text \<open>A frame tagged \<open>SPAM\<close> is delivered, and a message that starts with the tag is refused.\<close>

theorem lite_tag_check_witness:
  "lite_onMessage rpc_text (lite_fillEmptyBuffer (rpc_text\<lparr>tag := ''SPAM''\<rparr>) ''hello'') =
     ([MessageCall ''hello''], None, []) \<and>
   fst (snd (lite_onMessage rpc_text (lite_fillEmptyBuffer rpc_text ''RPC0''))) = Some kInvalidNameLen"
proof
  have "lite_fits (rpc_text\<lparr>tag := ''SPAM''\<rparr>) ''hello''"
    by (simp add: lite_fits_def lite_body_def rpc_text_simps kMaxMessageLen_def)
  from lite_tag_check [OF rpc_text_simps(1) _ this]
  show "lite_onMessage rpc_text (lite_fillEmptyBuffer (rpc_text\<lparr>tag := ''SPAM''\<rparr>) ''hello'') =
     ([MessageCall ''hello''], None, [])"
    by (simp add: rpc_text_simps)
  have same: "rpc_text\<lparr>tag := ''RPC0''\<rparr> = rpc_text" by (simp add: rpc_text_def RpcCodec_def)
  have "lite_fits (rpc_text\<lparr>tag := ''RPC0''\<rparr>) ''RPC0''"
    by (simp add: lite_fits_def lite_body_def rpc_text_simps kMaxMessageLen_def)
  from lite_tag_check [OF rpc_text_simps(1) _ this]
  show "fst (snd (lite_onMessage rpc_text (lite_fillEmptyBuffer rpc_text ''RPC0''))) = Some kInvalidNameLen"
    unfolding same by (simp add: rpc_text_simps)
qed

end
