(* ===== verification/Rpc.thy ===== *)
theory Rpc
  imports ProtobufCodecLite
begin

text \<open>
  \<^verbatim>\<open>src/slite/protorpc\<close>: \<^verbatim>\<open>RpcChannel\<close> and \<^verbatim>\<open>RpcServer\<close>, remote calls over the messages of
  \<^verbatim>\<open>rpc.proto\<close>. An operation gives the new state of the channel and the calls it makes, in
  order: on its codec, its client, its loop, on the services and on the caller's response
  and closure objects, which are named by numbers. What a service computes is its own code:
  the call \<open>Invoke\<close> is all the channel does.
\<close>

section \<open>Messages\<close>

datatype MessageType = REQUEST | RESPONSE | ERROR

datatype RpcError =
    NO_ERROR | WRONG_PROTO | NO_SERVICE | NO_METHOD | INVALID_REQUEST | INVALID_RESPONSE | TIMEOUT

record RpcMessage =
  msg_type :: MessageType
  msg_id :: "64 word"
  msg_service :: string
  msg_method :: string
  msg_request :: bytes
  msg_response :: "bytes option"
  msg_error :: "RpcError option"

definition empty_msg :: "MessageType \<Rightarrow> 64 word \<Rightarrow> RpcMessage" where
  "empty_msg t i = \<lparr>msg_type = t, msg_id = i, msg_service = [], msg_method = [], msg_request = [],
     msg_response = None, msg_error = None\<rparr>"

section \<open>State\<close>

text \<open>
  A service, as the channel sees it: \<^verbatim>\<open>FindMethodByName\<close>, and whether the bytes of a
  request parse as the request type of a method.
\<close>

record service =
  FindMethodByName :: "string \<Rightarrow> bool"
  ParseRequest :: "string \<Rightarrow> bytes \<Rightarrow> bool"

record OutstandingCall =
  response :: nat
  done_closure :: "nat option"

record RpcChannel =
  chan_conn :: "conn_id option"
  chan_id :: "64 word"
  outstandings :: "64 word \<rightharpoonup> OutstandingCall"

datatype rpc_call =
    Send "conn_id option" RpcMessage       \<comment> \<open>\<^verbatim>\<open>codec_.send(conn, message)\<close>\<close>
  | Invoke string string bytes "64 word"   \<comment> \<open>\<^verbatim>\<open>service->CallMethod\<close>, with \<^verbatim>\<open>doneCallback\<close> of this id\<close>
  | Parse nat bytes                        \<comment> \<open>\<^verbatim>\<open>response->ParseFromString\<close>\<close>
  | Run nat                                \<comment> \<open>\<^verbatim>\<open>done->Run()\<close>\<close>
  | Delete nat
  | SetCallbacks RpcMessage                \<comment> \<open>of the client, the request bound into the first\<close>
  | Connect | Disconnect | Loop | Quit
  | AssertFails

definition RpcChannel_ctor :: "conn_id option \<Rightarrow> 64 word \<Rightarrow> RpcChannel" where
  "RpcChannel_ctor conn i = \<lparr>chan_conn = conn, chan_id = i, outstandings = Map.empty\<rparr>"

definition setConnection :: "conn_id \<Rightarrow> RpcChannel \<Rightarrow> RpcChannel" where
  "setConnection conn C = C\<lparr>chan_conn := Some conn\<rparr>"

section \<open>Calling\<close>

text \<open>\<open>request\<close> is the serialised request.\<close>

definition CallMethod ::
  "string \<Rightarrow> string \<Rightarrow> bytes \<Rightarrow> nat \<Rightarrow> nat option \<Rightarrow> RpcChannel \<Rightarrow> rpc_call list \<times> RpcChannel" where
  "CallMethod svc method request resp cl C =
     (let i = chan_id C;
          message = (empty_msg REQUEST i)\<lparr>msg_service := svc, msg_method := method, msg_request := request\<rparr>
      in ([SetCallbacks message, Connect, Loop],
          C\<lparr>chan_id := i + 1,
            outstandings := (outstandings C)(i \<mapsto> \<lparr>response = resp, done_closure = cl\<rparr>)\<rparr>))"

definition connectedCallback ::
  "conn_id \<Rightarrow> bool \<Rightarrow> RpcMessage \<Rightarrow> RpcChannel \<Rightarrow> rpc_call list \<times> RpcChannel" where
  "connectedCallback conn up request C =
     (if up then ([Send (Some conn) request], C\<lparr>chan_conn := Some conn\<rparr>) else ([], C))"

definition doneCallback :: "bytes \<Rightarrow> 64 word \<Rightarrow> RpcChannel \<Rightarrow> rpc_call list" where
  "doneCallback resp i C = [Send (chan_conn C) ((empty_msg RESPONSE i)\<lparr>msg_response := Some resp\<rparr>)]"

section \<open>Receiving\<close>

text \<open>\<open>services\<close> is what the pointer \<^verbatim>\<open>services_\<close> points to, \<^const>\<open>None\<close> when it is null.\<close>

definition request_error :: "(string \<rightharpoonup> service) option \<Rightarrow> RpcMessage \<Rightarrow> RpcError" where
  "request_error services m =
     (case services of
        None \<Rightarrow> NO_SERVICE
      | Some S \<Rightarrow>
          (case S (msg_service m) of
             None \<Rightarrow> NO_SERVICE
           | Some s \<Rightarrow>
               if FindMethodByName s (msg_method m) then
                 if ParseRequest s (msg_method m) (msg_request m) then NO_ERROR else INVALID_REQUEST
               else NO_METHOD))"

definition onRpcMessage ::
  "(string \<rightharpoonup> service) option \<Rightarrow> conn_id \<Rightarrow> RpcMessage \<Rightarrow> RpcChannel \<Rightarrow> rpc_call list \<times> RpcChannel" where
  "onRpcMessage services conn m C =
     (let a1 = (if chan_conn C = Some conn then [] else [AssertFails]) in
      case msg_type m of
        RESPONSE \<Rightarrow>
          let i = msg_id m;
              a2 = (if msg_response m \<noteq> None \<or> msg_error m \<noteq> None then [] else [AssertFails])
          in (case outstandings C i of
                None \<Rightarrow> (a1 @ a2, C)
              | Some out \<Rightarrow>
                  (a1 @ a2 @
                   (case msg_response m of Some r \<Rightarrow> [Parse (response out) r] | None \<Rightarrow> []) @
                   (case done_closure out of Some d \<Rightarrow> [Run d, Disconnect, Quit] | None \<Rightarrow> []) @
                   [Delete (response out)],
                   C\<lparr>outstandings := (outstandings C)(i := None)\<rparr>))
      | REQUEST \<Rightarrow>
          (let error = request_error services m in
           (a1 @ (if error = NO_ERROR
                  then [Invoke (msg_service m) (msg_method m) (msg_request m) (msg_id m)]
                  else [Send (chan_conn C) ((empty_msg RESPONSE (msg_id m))\<lparr>msg_error := Some error\<rparr>)]),
            C))
      | ERROR \<Rightarrow> (a1, C))"

section \<open>The server\<close>

record RpcServer =
  services_of :: "string \<rightharpoonup> service"
  channel_of :: "conn_id \<rightharpoonup> RpcChannel"   \<comment> \<open>the context of each connection\<close>

definition registerService :: "string \<Rightarrow> service \<Rightarrow> RpcServer \<Rightarrow> RpcServer" where
  "registerService full_name s S = S\<lparr>services_of := (services_of S)(full_name \<mapsto> s)\<rparr>"

definition RpcServer_onConnection :: "conn_id \<Rightarrow> bool \<Rightarrow> 64 word \<Rightarrow> RpcServer \<Rightarrow> RpcServer" where
  "RpcServer_onConnection conn up i S =
     (if up then S\<lparr>channel_of := (channel_of S)(conn \<mapsto> RpcChannel_ctor (Some conn) i)\<rparr>
      else S\<lparr>channel_of := (channel_of S)(conn := None)\<rparr>)"

text \<open>The message callback of a connection, which the server binds to its channel.\<close>

definition RpcServer_onRpcMessage :: "conn_id \<Rightarrow> RpcMessage \<Rightarrow> RpcServer \<Rightarrow> rpc_call list \<times> RpcServer" where
  "RpcServer_onRpcMessage conn m S =
     (case channel_of S conn of
        None \<Rightarrow> ([], S)
      | Some C \<Rightarrow>
          (case onRpcMessage (Some (services_of S)) conn m C of
             (cs, C') \<Rightarrow> (cs, S\<lparr>channel_of := (channel_of S)(conn \<mapsto> C')\<rparr>)))"

section \<open>Properties\<close>

text \<open>
  A server answers every request on a connection it knows in exactly one way: it invokes
  the method with the request's id when the service is registered, has the method and the
  request parses, and otherwise sends exactly one error response with the same id, which
  names the first of these that fails. Its channels stay as they were.
\<close>

theorem rpc_request_answered:
  assumes "msg_type m = REQUEST" "channel_of S conn = Some C" "chan_conn C = Some conn"
  shows "RpcServer_onRpcMessage conn m S =
    ([case services_of S (msg_service m) of
        None \<Rightarrow> Send (Some conn) ((empty_msg RESPONSE (msg_id m))\<lparr>msg_error := Some NO_SERVICE\<rparr>)
      | Some s \<Rightarrow>
          if \<not> FindMethodByName s (msg_method m)
          then Send (Some conn) ((empty_msg RESPONSE (msg_id m))\<lparr>msg_error := Some NO_METHOD\<rparr>)
          else if \<not> ParseRequest s (msg_method m) (msg_request m)
          then Send (Some conn) ((empty_msg RESPONSE (msg_id m))\<lparr>msg_error := Some INVALID_REQUEST\<rparr>)
          else Invoke (msg_service m) (msg_method m) (msg_request m) (msg_id m)], S)"
  using assms
  by (auto simp: RpcServer_onRpcMessage_def onRpcMessage_def request_error_def Let_def fun_upd_idem
      split: option.split)

text \<open>
  Each call is answered once: the response to an outstanding call parses into the
  caller's response object, runs its closure, disconnects the client and quits its loop, in
  this order; the call is then no longer outstanding, all others are, and a second response
  with its id does nothing.
\<close>

theorem rpc_response_once:
  assumes "msg_type m = RESPONSE" "msg_response m = Some r" "chan_conn C = Some conn"
    and "outstandings C (msg_id m) = Some \<lparr>response = p, done_closure = Some d\<rparr>"
  shows "let (cs, C') = onRpcMessage S conn m C in
     cs = [Parse p r, Run d, Disconnect, Quit, Delete p] \<and>
     outstandings C' = (outstandings C)(msg_id m := None) \<and>
     onRpcMessage S conn m C' = ([], C')"
  using assms by (simp add: onRpcMessage_def Let_def)

text \<open>
  A remote call, from end to end: the client's channel sends a request when it is
  connected; the server's channel invokes the method asked for with the bytes of the
  request; the closure it hands to the service sends the result back; and the client parses
  exactly this result into the response object of the call and runs the call's closure. The
  client's channel is then as before, but for its next id and the connection.
\<close>

theorem rpc_end_to_end:
  assumes "services_of S svc = Some s" "FindMethodByName s method" "ParseRequest s method request"
    and "channel_of S sconn = Some D" "chan_conn D = Some sconn"
    and "outstandings C (chan_id C) = None"
  shows "let (_, C1) = CallMethod svc method request p (Some d) C;
      req = (empty_msg REQUEST (chan_id C))\<lparr>msg_service := svc, msg_method := method, msg_request := request\<rparr>;
      (sent, C2) = connectedCallback cconn True req C1;
      (invoked, S') = RpcServer_onRpcMessage sconn req S;
      resp = (empty_msg RESPONSE (chan_id C))\<lparr>msg_response := Some result\<rparr>;
      (got, C3) = onRpcMessage None cconn resp C2
    in sent = [Send (Some cconn) req] \<and>
       invoked = [Invoke svc method request (chan_id C)] \<and>
       doneCallback result (chan_id C) D = [Send (Some sconn) resp] \<and>
       got = [Parse p result, Run d, Disconnect, Quit, Delete p] \<and>
       C3 = C\<lparr>chan_id := chan_id C + 1, chan_conn := Some cconn\<rparr>"
proof -
  have "(outstandings C)(chan_id C := None) = outstandings C"
    using assms(6) by (rule fun_upd_idem)
  then have "C\<lparr>chan_id := chan_id C + 1, chan_conn := Some cconn, outstandings := (outstandings C)(chan_id C := None)\<rparr> =
      C\<lparr>chan_id := chan_id C + 1, chan_conn := Some cconn\<rparr>"
    by simp
  then show ?thesis
    using assms(1-5)
    by (simp add: CallMethod_def connectedCallback_def RpcServer_onRpcMessage_def onRpcMessage_def
        request_error_def doneCallback_def empty_msg_def Let_def)
qed

section \<open>Examples\<close>

definition echo_service :: service where
  "echo_service = \<lparr>FindMethodByName = (\<lambda>n. n = ''Echo''), ParseRequest = (\<lambda>n bs. True)\<rparr>"

definition echo_server :: RpcServer where
  "echo_server = RpcServer_onConnection 7 True 0
     (registerService ''EchoService'' echo_service \<lparr>services_of = Map.empty, channel_of = Map.empty\<rparr>)"

lemma echo_server_simps:
  "services_of echo_server ''EchoService'' = Some echo_service"
  "channel_of echo_server 7 = Some (RpcChannel_ctor (Some 7) 0)"
  by (simp_all add: echo_server_def RpcServer_onConnection_def registerService_def)

theorem rpc_request_answered_witness:
  "fst (RpcServer_onRpcMessage 7 ((empty_msg REQUEST 3)\<lparr>msg_service := ''Nope''\<rparr>) echo_server) =
     [Send (Some 7) ((empty_msg RESPONSE 3)\<lparr>msg_error := Some NO_SERVICE\<rparr>)]"
  by (subst rpc_request_answered [OF _ echo_server_simps(2)])
     (simp_all add: empty_msg_def RpcChannel_ctor_def echo_server_def RpcServer_onConnection_def registerService_def)

theorem rpc_end_to_end_witness:
  "fst (RpcServer_onRpcMessage 7 ((empty_msg REQUEST 5)\<lparr>msg_service := ''EchoService'', msg_method := ''Echo'',
      msg_request := ''hi''\<rparr>) echo_server) = [Invoke ''EchoService'' ''Echo'' ''hi'' 5]"
  using rpc_end_to_end [OF echo_server_simps(1) _ _ echo_server_simps(2), of "''Echo''" "''hi''"
      "RpcChannel_ctor None 5" 1 2 9 "''ho''"]
  by (simp add: echo_service_def RpcChannel_ctor_def Let_def split: prod.splits)

theorem rpc_response_once_witness:
  "fst (onRpcMessage None 9 ((empty_msg RESPONSE 5)\<lparr>msg_response := Some ''ho''\<rparr>)
     \<lparr>chan_conn = Some 9, chan_id = 6, outstandings = [5 \<mapsto> \<lparr>response = 1, done_closure = Some 2\<rparr>]\<rparr>) =
   [Parse 1 ''ho'', Run 2, Disconnect, Quit, Delete 1]"
  using rpc_response_once [of "(empty_msg RESPONSE 5)\<lparr>msg_response := Some ''ho''\<rparr>" "''ho''"
      "\<lparr>chan_conn = Some 9, chan_id = 6, outstandings = [5 \<mapsto> \<lparr>response = 1, done_closure = Some 2\<rparr>]\<rparr>" 9 1 2 None]
  by (simp add: empty_msg_def Let_def split: prod.splits)

end
