(* ===== verification/ProtobufDispatcher.thy ===== *)
theory ProtobufDispatcher
  imports Prelude
begin

text \<open>
  \<^verbatim>\<open>src/slite/protobuf/ProtobufDispatcher.h\<close>: a message is handed to the callback that was
  registered for its descriptor. A callback is a function from the message and the time to a
  transformer of the program's state; the cast in \<^verbatim>\<open>CallbackT\<close> gives it the same message.
  \<open>descr\<close> is \<^verbatim>\<open>GetDescriptor\<close>.
\<close>

type_synonym ('m, 'w) message_callback = "nat \<Rightarrow> 'm \<Rightarrow> int \<Rightarrow> 'w \<Rightarrow> 'w"

record ('d, 'm, 'w) dispatcher =
  callbacks :: "'d \<rightharpoonup> ('m, 'w) message_callback"
  defaultCallback :: "('m, 'w) message_callback"

definition ProtobufDispatcher_ctor :: "('m, 'w) message_callback \<Rightarrow> ('d, 'm, 'w) dispatcher" where
  "ProtobufDispatcher_ctor f = \<lparr>callbacks = Map.empty, defaultCallback = f\<rparr>"

definition CallbackT_onMessage :: "('m, 'w) message_callback \<Rightarrow> ('m, 'w) message_callback" where
  "CallbackT_onMessage callback conn message t = callback conn message t"

definition registerMessageCallback ::
  "'d \<times> ('m, 'w) message_callback \<Rightarrow> ('d, 'm, 'w) dispatcher \<Rightarrow> ('d, 'm, 'w) dispatcher" where
  "registerMessageCallback e D =
     (case e of (d, callback) \<Rightarrow> D\<lparr>callbacks := (callbacks D)(d \<mapsto> CallbackT_onMessage callback)\<rparr>)"

definition onProtobufMessage :: "('m \<Rightarrow> 'd) \<Rightarrow> ('d, 'm, 'w) dispatcher \<Rightarrow> ('m, 'w) message_callback" where
  "onProtobufMessage descr D conn message t =
     (case callbacks D (descr message) of
        Some f \<Rightarrow> f conn message t
      | None \<Rightarrow> defaultCallback D conn message t)"

lemma callbacks_registered:
  "callbacks (fold registerMessageCallback es D) d =
     (case map_of (rev es) d of Some f \<Rightarrow> Some (CallbackT_onMessage f) | None \<Rightarrow> callbacks D d)"
  by (induction es arbitrary: D)
     (auto simp: registerMessageCallback_def map_add_def split: option.split)

lemma map_of_find: "map_of fs d = map_option snd (find (\<lambda>e. fst e = d) fs)"
  by (induction fs) auto

lemma default_registered: "defaultCallback (fold registerMessageCallback es D) = defaultCallback D"
  by (rule fold_measure_eq) (auto simp: registerMessageCallback_def)

text \<open>
  A message is handed, unchanged and once, to the callback registered last for its
  descriptor, and to the default callback when there is none.
\<close>

theorem dispatch_last_registered:
  "onProtobufMessage descr (fold registerMessageCallback es (ProtobufDispatcher_ctor dflt)) conn m t =
     (case find (\<lambda>e. fst e = descr m) (rev es) of Some e \<Rightarrow> snd e conn m t | None \<Rightarrow> dflt conn m t)"
  by (auto simp: onProtobufMessage_def callbacks_registered default_registered ProtobufDispatcher_ctor_def
      CallbackT_onMessage_def map_of_find split: option.split)

end
