(* ===== verification/HTTP.thy ===== *)
theory HTTP
  imports CxxString
begin

text \<open>
  \<^verbatim>\<open>src/slite/http\<close>: \<^verbatim>\<open>HTTPRequest\<close>, \<^verbatim>\<open>HTTPResponse\<close> and \<^verbatim>\<open>HTTPCodec\<close>. The parser is
  written with the wrap-around of \<^verbatim>\<open>size_t\<close> and with the exceptions of \<^verbatim>\<open>substr\<close>. Fields
  that the constructors leave uninitialised (the method of a request, the status and the
  length of a response) are arguments.
\<close>

section \<open>Header maps\<close>

text \<open>
  A \<^verbatim>\<open>std::map<std::string, std::string>\<close> as the list of its entries in the order of the
  keys, which compare as byte strings.
\<close>

fun str_less :: "string \<Rightarrow> string \<Rightarrow> bool" where
  "str_less [] t = (t \<noteq> [])"
| "str_less (a # s) [] = False"
| "str_less (a # s) (b # t) = (of_char a < (of_char b :: nat) \<or> a = b \<and> str_less s t)"

type_synonym headers = "(string \<times> string) list"

fun header_set :: "string \<Rightarrow> string \<Rightarrow> headers \<Rightarrow> headers" where
  "header_set k v [] = [(k, v)]"
| "header_set k v ((k', v') # hs) =
     (if k = k' then (k, v) # hs
      else if str_less k k' then (k, v) # (k', v') # hs else (k', v') # header_set k v hs)"

text \<open>\<^verbatim>\<open>header_[field]\<close> inserts an empty value when there is none.\<close>

definition header_at :: "string \<Rightarrow> headers \<Rightarrow> string \<times> headers" where
  "header_at k hs = (case map_of hs k of Some v \<Rightarrow> (v, hs) | None \<Rightarrow> ([], header_set k [] hs))"

lemma map_of_header_set: "map_of (header_set k v hs) = (map_of hs)(k \<mapsto> v)"
  by (induction hs) auto

section \<open>Requests\<close>

datatype HTTPMethod = GET | POST

record HTTPRequest =
  req_method :: HTTPMethod
  req_path :: string
  req_version :: string
  req_header :: headers

definition HTTPRequest_ctor :: "HTTPMethod \<Rightarrow> HTTPRequest" where
  "HTTPRequest_ctor m = \<lparr>req_method = m, req_path = [], req_version = [], req_header = []\<rparr>"

definition getHeader :: "string \<Rightarrow> HTTPRequest \<Rightarrow> string \<times> HTTPRequest" where
  "getHeader field q = (case header_at field (req_header q) of (v, hs) \<Rightarrow> (v, q\<lparr>req_header := hs\<rparr>))"

definition addHeader :: "string \<Rightarrow> string \<Rightarrow> HTTPRequest \<Rightarrow> HTTPRequest" where
  "addHeader field value q = q\<lparr>req_header := header_set field value (req_header q)\<rparr>"

section \<open>Responses\<close>

record HTTPResponse =
  res_version :: string
  res_status :: int
  res_length :: nat
  res_type :: string
  res_body :: string
  res_header :: headers

definition HTTPResponse_ctor :: "int \<Rightarrow> nat \<Rightarrow> HTTPResponse" where
  "HTTPResponse_ctor s n = \<lparr>res_version = ''HTTP/1.1'', res_status = s, res_length = n, res_type = [],
     res_body = [], res_header = []\<rparr>"

definition st_OK :: int where "st_OK = 200"
definition st_BAD_REQUEST :: int where "st_BAD_REQUEST = 400"
definition st_NOT_FOUND :: int where "st_NOT_FOUND = 404"
definition st_SERVER_ERROR :: int where "st_SERVER_ERROR = 500"

definition statusToString :: "int \<Rightarrow> string" where
  "statusToString s =
     (if s = st_OK then ''OK'' else if s = st_BAD_REQUEST then ''Bad Request''
      else if s = st_NOT_FOUND then ''Not Found'' else ''unknowStatus'')"

definition kCRLF :: string where
  "kCRLF = [CHR 0x0D, CHR 0x0A]"

definition response_toString :: "HTTPResponse \<Rightarrow> string" where
  "response_toString p =
     res_version p @ '' '' @ to_string (res_status p) @ '' '' @ statusToString (res_status p) @ kCRLF @
     (if res_length p \<noteq> 0 then ''Content-Length: '' @ to_string (int (res_length p)) @ kCRLF else []) @
     (if res_type p \<noteq> [] then ''Content-Type: '' @ res_type p @ kCRLF else []) @
     concat (map (\<lambda>(k, v). k @ '': '' @ v @ kCRLF) (res_header p)) @ kCRLF @ res_body p"

section \<open>Parsing\<close>

text \<open>Both give \<^const>\<open>None\<close> when \<^verbatim>\<open>substr\<close> throws.\<close>

definition parseRequestLine :: "HTTPRequest \<Rightarrow> string \<Rightarrow> HTTPRequest option" where
  "parseRequestLine q line =
     (let curPos = find_first_of line CHR '' '' 0 in
      case substr line 0 curPos of None \<Rightarrow> None | Some verb \<Rightarrow>
      (let q1 = q\<lparr>req_method := if verb = ''GET'' then GET else POST\<rparr>;
           prevPos = curPos;
           curPos = find_first_of line CHR '' '' (sz_add prevPos 1)
       in case substr line (sz_add prevPos 1) (sz_sub (sz_sub curPos prevPos) 1) of None \<Rightarrow> None | Some path \<Rightarrow>
       (let q2 = q1\<lparr>req_path := path\<rparr>;
            prevPos = find_last_of line CHR '' ''
        in case substr line (sz_add prevPos 1) (sz_sub (sz_sub (length line) prevPos) 1) of
             None \<Rightarrow> None
           | Some version \<Rightarrow> Some (q2\<lparr>req_version := version\<rparr>))))"

definition parseRequestHeader :: "HTTPRequest \<Rightarrow> string \<Rightarrow> (bool \<times> HTTPRequest) option" where
  "parseRequestHeader q line =
     (case substr line 0 (find_first_of line CHR '':'' 0) of None \<Rightarrow> None | Some field \<Rightarrow>
      if field \<noteq> [] then
        (case substr line (sz_add (find_first_of line CHR '':'' 0) 2) (sz_sub (length line) (length field)) of
           None \<Rightarrow> None
         | Some value \<Rightarrow> Some (False, addHeader field value q))
      else Some (True, q))"

section \<open>The codec\<close>

datatype HTTPRequestState = kRequestLine | kRequestHeaders | kRequestBody | kGotAll

datatype http_call = HttpSend string | HttpShutdown

text \<open>
  How a call of \<^verbatim>\<open>onMessage\<close> ends: an exception, or a return, with the calls made on the
  connection, the state of the codec and the buffer.
\<close>

datatype http_end = Threw | Returned "http_call list" HTTPRequestState string

text \<open>What is done when a request is complete. \<open>cb\<close> is \<^verbatim>\<open>requestCallback_\<close>, \<open>resp\<close> the new response.\<close>

definition http_respond ::
  "(HTTPRequest \<Rightarrow> HTTPResponse \<Rightarrow> HTTPResponse) \<Rightarrow> HTTPResponse \<Rightarrow> HTTPRequest \<Rightarrow> http_call list" where
  "http_respond cb resp q =
     (let p1 = (cb q resp)\<lparr>res_version := req_version q\<rparr>;
          (c, q1) = getHeader ''Connection'' q;
          p2 = p1\<lparr>res_header := header_set ''Connection'' c (res_header p1)\<rparr>
      in HttpSend (response_toString p2) # (if fst (getHeader ''Connection'' q1) = ''close'' then [HttpShutdown] else []))"

text \<open>
  The \<^verbatim>\<open>while\<close> loop. In the state \<^const>\<open>kRequestBody\<close>, which the code never enters, it
  would not end; the result is then \<^const>\<open>None\<close>.
\<close>

partial_function (option) http_loop ::
  "(HTTPRequest \<Rightarrow> HTTPResponse \<Rightarrow> HTTPResponse) \<Rightarrow> HTTPResponse \<Rightarrow> HTTPRequest \<Rightarrow> HTTPRequestState \<Rightarrow>
   string \<Rightarrow> http_end option" where
  "http_loop cb resp q st buf =
     (case st of
        kRequestLine \<Rightarrow>
          (case search2 CHR 0x0D CHR 0x0A buf of
             None \<Rightarrow> Some (Returned [] st buf)
           | Some i \<Rightarrow>
               (case parseRequestLine q (take i buf) of
                  None \<Rightarrow> Some Threw
                | Some q1 \<Rightarrow> http_loop cb resp q1 kRequestHeaders (drop (i + 2) buf)))
      | kRequestHeaders \<Rightarrow>
          (case search2 CHR 0x0D CHR 0x0A buf of
             None \<Rightarrow> Some (Returned [] st buf)
           | Some i \<Rightarrow>
               (case parseRequestHeader q (take i buf) of
                  None \<Rightarrow> Some Threw
                | Some (isLast, q1) \<Rightarrow>
                    http_loop cb resp q1 (if isLast then kGotAll else kRequestHeaders) (drop (i + 2) buf)))
      | kGotAll \<Rightarrow> Some (Returned (http_respond cb resp q) kRequestLine buf)
      | kRequestBody \<Rightarrow> http_loop cb resp q st buf)"

declare http_loop.simps [code]

text \<open>
  \<^verbatim>\<open>onMessage\<close> works on a copy of the request in the context of the connection, and does
  not put it back; \<open>st\<close> is \<^verbatim>\<open>state_\<close>, which all connections of a server share.
\<close>

definition http_onMessage ::
  "(HTTPRequest \<Rightarrow> HTTPResponse \<Rightarrow> HTTPResponse) \<Rightarrow> HTTPResponse \<Rightarrow> HTTPRequest \<Rightarrow> HTTPRequestState \<Rightarrow>
   string \<Rightarrow> http_end option" where
  "http_onMessage cb resp ctx st buf = http_loop cb resp ctx st buf"

section \<open>Parsing what a client writes\<close>

lemma find_first_of_at:
  "ch \<notin> set xs \<Longrightarrow> find_first_of (zs @ xs @ ch # ys) ch (length zs) = length zs + length xs"
  by (simp add: find_first_of_def index_from_append)

lemma find_first_of_none: "ch \<notin> set xs \<Longrightarrow> find_first_of (zs @ xs) ch (length zs) = npos"
  by (simp add: find_first_of_def index_from_None [THEN iffD2])

lemma find_last_of_at: "ch \<notin> set zs \<Longrightarrow> find_last_of (xs @ ch # zs) ch = length xs"
  using index_from_append [of ch "rev zs" 0 "rev xs"] by (simp add: find_last_of_def)

text \<open>A request line, and a line of the header.\<close>

definition request_line :: "string \<Rightarrow> string \<Rightarrow> string \<Rightarrow> string" where
  "request_line verb path version = verb @ CHR '' '' # path @ CHR '' '' # version"

definition header_line :: "string \<times> string \<Rightarrow> string" where
  "header_line h = fst h @ CHR '':'' # CHR '' '' # snd h"

definition line_ok :: "string \<Rightarrow> string \<Rightarrow> string \<Rightarrow> bool" where
  "line_ok verb path version \<longleftrightarrow> CHR '' '' \<notin> set verb \<union> set path \<union> set version \<and>
     CHR 0x0A \<notin> set verb \<union> set path \<union> set version \<and> length (request_line verb path version) < npos - 2"

definition header_ok :: "string \<times> string \<Rightarrow> bool" where
  "header_ok h \<longleftrightarrow> fst h \<noteq> [] \<and> CHR '':'' \<notin> set (fst h) \<and> CHR 0x0A \<notin> set (fst h) \<union> set (snd h) \<and>
     length (header_line h) < npos - 2"

lemma parseRequestLine_line:
  assumes "line_ok verb path version"
  shows "parseRequestLine q (request_line verb path version) =
    Some (q\<lparr>req_method := if verb = ''GET'' then GET else POST, req_path := path, req_version := version\<rparr>)"
proof -
  let ?l = "request_line verb path version"
  have len: "length verb + length path + length version + 2 < npos - 2"
    and sp: "CHR '' '' \<notin> set verb" "CHR '' '' \<notin> set path" "CHR '' '' \<notin> set version"
    using assms by (auto simp: line_ok_def request_line_def)
  then have small: "length verb + length path + length version + 4 < size_mod" by (simp add: npos_def)
  have f1: "find_first_of ?l CHR '' '' 0 = length verb"
    using find_first_of_at [OF sp(1), of "[]"] by (simp add: request_line_def)
  have f2: "find_first_of ?l CHR '' '' (Suc (length verb)) = length verb + 1 + length path"
    using find_first_of_at [OF sp(2), of "verb @ '' ''"] by (simp add: request_line_def)
  have f3: "find_last_of ?l CHR '' '' = length verb + 1 + length path"
    using find_last_of_at [OF sp(3), of "verb @ CHR '' '' # path"] by (simp add: request_line_def)
  have a: "sz_add (length verb) 1 = Suc (length verb)" "sz_add (length verb + 1 + length path) 1 = length verb + length path + 2"
    using small by (simp_all add: sz_add_small)
  have b: "sz_sub (sz_sub (length verb + 1 + length path) (length verb)) 1 = length path"
    "sz_sub (sz_sub (length ?l) (length verb + 1 + length path)) 1 = length version"
    using small by (simp_all add: sz_sub_small request_line_def)
  have s: "substr ?l 0 (length verb) = Some verb" "substr ?l (Suc (length verb)) (length path) = Some path"
    "substr ?l (length verb + length path + 2) (length version) = Some version"
    by (simp_all add: substr_def request_line_def)
  show ?thesis
    unfolding parseRequestLine_def Let_def f1 f3 a b s option.case f2 by simp
qed

lemma parseRequestHeader_line:
  assumes "header_ok h"
  shows "parseRequestHeader q (header_line h) = Some (False, addHeader (fst h) (snd h) q)"
proof -
  have len: "length (fst h) + length (snd h) + 4 < size_mod" and colon: "CHR '':'' \<notin> set (fst h)" and ne: "fst h \<noteq> []"
    using assms by (auto simp: header_ok_def header_line_def npos_def)
  have f: "find_first_of (header_line h) CHR '':'' 0 = length (fst h)"
    using find_first_of_at [OF colon, of "[]"] by (simp add: header_line_def)
  have "sz_add (length (fst h)) 2 = length (fst h) + 2"
    "sz_sub (length (header_line h)) (length (fst h)) = length (snd h) + 2"
    using len by (simp_all add: sz_add_small sz_sub_small header_line_def)
  moreover have "substr (header_line h) 0 (length (fst h)) = Some (fst h)"
    "substr (header_line h) (length (fst h) + 2) (length (snd h) + 2) = Some (snd h)"
    by (simp_all add: substr_def header_line_def)
  ultimately show ?thesis using ne by (simp add: parseRequestHeader_def f)
qed

lemma parseRequestHeader_end: "parseRequestHeader q [] = Some (True, q)"
  by (simp add: parseRequestHeader_def substr_def)

text \<open>A header line with nothing behind its colon.\<close>

lemma parseRequestHeader_bare:
  assumes "k \<noteq> []" "CHR '':'' \<notin> set k" "length k < npos - 2"
  shows "parseRequestHeader q (k @ '':'') = None"
proof -
  have f: "find_first_of (k @ '':'') CHR '':'' 0 = length k"
    using find_first_of_at [OF assms(2), of "[]"] by simp
  have "sz_add (length k) 2 = length k + 2" using assms(3) by (simp add: sz_add_small npos_def)
  with assms(1) show ?thesis by (simp add: parseRequestHeader_def f substr_def)
qed

lemma crlf_first: "CHR 0x0A \<notin> set l \<Longrightarrow> search2 CHR 0x0D CHR 0x0A (l @ kCRLF @ rest) = Some (length l)"
  by (simp add: kCRLF_def search2_first)

lemma drop_crlf [simp]: "drop (length l + 2) (l @ kCRLF @ rest) = rest" "take (length l) (l @ kCRLF @ rest) = l"
  "drop (Suc (Suc (length l))) (l @ kCRLF @ rest) = rest"
  by (simp_all add: kCRLF_def)

lemma http_loop_line:
  assumes "CHR 0x0A \<notin> set l"
  shows "http_loop cb resp q kRequestLine (l @ kCRLF @ rest) =
    (case parseRequestLine q l of None \<Rightarrow> Some Threw | Some q1 \<Rightarrow> http_loop cb resp q1 kRequestHeaders rest)"
  by (subst http_loop.simps) (simp add: crlf_first [OF assms] del: drop_append take_append split: option.split)

lemma http_loop_header:
  assumes "CHR 0x0A \<notin> set l"
  shows "http_loop cb resp q kRequestHeaders (l @ kCRLF @ rest) =
    (case parseRequestHeader q l of None \<Rightarrow> Some Threw
     | Some (isLast, q1) \<Rightarrow> http_loop cb resp q1 (if isLast then kGotAll else kRequestHeaders) rest)"
  by (subst http_loop.simps)
     (simp add: crlf_first [OF assms] del: drop_append take_append split: option.split prod.split)

definition header_text :: "(string \<times> string) list \<Rightarrow> string" where
  "header_text hs = concat (map (\<lambda>h. header_line h @ kCRLF) hs)"

lemma http_loop_headers:
  "list_all header_ok hs \<Longrightarrow>
   http_loop cb resp q kRequestHeaders (header_text hs @ rest) =
     http_loop cb resp (fold (\<lambda>h. addHeader (fst h) (snd h)) hs q) kRequestHeaders rest"
proof (induction hs arbitrary: q)
  case (Cons h hs)
  have "CHR 0x0A \<notin> set (header_line h)" using Cons.prems by (auto simp: header_ok_def header_line_def)
  from http_loop_header [OF this, of cb resp q "header_text hs @ rest"] show ?case
    using Cons by (simp add: header_text_def parseRequestHeader_line)
qed (simp add: header_text_def)

text \<open>
  A request that arrives in one piece is parsed as it was written: from a request line,
  any header fields and the empty line, the callback gets the request with this method, path
  and version and the header fields entered in order; one response is sent; the bytes behind
  the request stay in the buffer, and the codec waits for the next request line.
\<close>

theorem http_request_parsed:
  assumes "line_ok verb path version" "list_all header_ok hs"
  shows "http_onMessage cb resp ctx kRequestLine
      (request_line verb path version @ kCRLF @ header_text hs @ kCRLF @ rest) =
    Some (Returned (http_respond cb resp (fold (\<lambda>h. addHeader (fst h) (snd h)) hs
      (ctx\<lparr>req_method := if verb = ''GET'' then GET else POST, req_path := path, req_version := version\<rparr>)))
      kRequestLine rest)"
proof -
  have lf: "CHR 0x0A \<notin> set (request_line verb path version)"
    using assms(1) by (auto simp: line_ok_def request_line_def)
  have last: "http_loop cb resp q kRequestHeaders (kCRLF @ rest) = http_loop cb resp q kGotAll rest" for q
    using http_loop_header [of "[]" cb resp q rest] by (simp add: parseRequestHeader_end)
  show ?thesis
    unfolding http_onMessage_def http_loop_line [OF lf] parseRequestLine_line [OF assms(1)] option.case
      http_loop_headers [OF assms(2)] last
    by (simp add: http_loop.simps)
qed

text \<open>A line that is a field name and its colon; the only lines a parser throws on.\<close>

definition bare_field :: "string \<Rightarrow> bool" where
  "bare_field l \<longleftrightarrow> (\<exists>k. l = k @ '':'' \<and> k \<noteq> [] \<and> CHR '':'' \<notin> set k)"

lemma find_first_of_bound: "find_first_of s ch i = npos \<or> find_first_of s ch i < length s \<or> length s < i"
  using index_from_Some [of ch i "drop i s"] by (auto simp: find_first_of_def split: option.split)

lemma find_last_of_bound: "find_last_of s ch = npos \<or> find_last_of s ch < length s"
  using index_from_Some [of ch 0 "rev s"] by (auto simp: find_last_of_def split: option.split)

lemma substr_behind: "length s < npos \<Longrightarrow> p = npos \<or> p < length s \<Longrightarrow> substr s (sz_add p 1) n \<noteq> None"
  by (auto simp: substr_def sz_add_def npos_def size_mod_def)

lemma parseRequestLine_returns:
  assumes "length line < npos"
  shows "parseRequestLine q line \<noteq> None"
proof -
  have "\<exists>u. substr line 0 m = Some u" for m by (simp add: substr_def)
  moreover have "\<exists>u. substr line (sz_add (find_first_of line CHR '' '' 0) 1) m = Some u" for m
    using substr_behind [OF assms] find_first_of_bound [of line "CHR '' ''" 0] by (metis not_less_zero option.exhaust)
  moreover have "\<exists>u. substr line (sz_add (find_last_of line CHR '' '') 1) m = Some u" for m
    using substr_behind [OF assms] find_last_of_bound [of line "CHR '' ''"] by (metis option.exhaust)
  ultimately obtain a b c where "\<forall>m. substr line 0 m = Some (a m)"
    "\<forall>m. substr line (sz_add (find_first_of line CHR '' '' 0) 1) m = Some (b m)"
    "\<forall>m. substr line (sz_add (find_last_of line CHR '' '') 1) m = Some (c m)"
    by metis
  then show ?thesis by (simp add: parseRequestLine_def Let_def)
qed

lemma parseRequestHeader_throws:
  assumes "length line < npos - 2" "parseRequestHeader q line = None"
  shows "bare_field line"
proof (cases "CHR '':'' \<in> set line")
  case True
  then obtain k r where line: "line = k @ CHR '':'' # r" "CHR '':'' \<notin> set k" by (meson split_list_first)
  have f: "find_first_of line CHR '':'' 0 = length k"
    using find_first_of_at [OF line(2), of "[]" r] line(1) by simp
  have "sz_add (length k) 2 = length k + 2" using assms(1) line(1) by (simp add: sz_add_small npos_def)
  with assms(2) have "k \<noteq> []" "length line < length k + 2"
    by (auto simp: parseRequestHeader_def f substr_def split: if_splits)
  with line show ?thesis by (cases r) (auto simp: bare_field_def)
next
  case False
  have f: "find_first_of line CHR '':'' 0 = npos"
    using find_first_of_none [OF False, of "[]"] by simp
  have "sz_add npos 2 = 1" by (simp add: sz_add_def npos_def size_mod_def)
  with assms(2) show ?thesis
    by (auto simp: parseRequestHeader_def f substr_def npos_def split: if_splits)
qed

text \<open>
  C37. \<^verbatim>\<open>onMessage\<close> ends for every input, in the states the codec can be in: each turn of
  the loop but the last takes at least one line end off the buffer. It returns, in such a state
  again and with the end of the buffer that it has not used, unless one of the lines in the buffer
  is a field name and its colon: only on such a line may \<^verbatim>\<open>substr\<close> throw.
\<close>

theorem http_onMessage_returns:
  assumes "st \<noteq> kRequestBody" "length buf < npos - 2"
  shows "(\<exists>cs st' rest used. http_onMessage cb resp ctx st buf = Some (Returned cs st' rest) \<and>
      st' \<noteq> kRequestBody \<and> buf = used @ rest) \<or>
    http_onMessage cb resp ctx st buf = Some Threw \<and>
      (\<exists>before l later. buf = before @ l @ kCRLF @ later \<and> bare_field l \<and> (before = [] \<or> (\<exists>b. before = b @ kCRLF)))"
  using assms unfolding http_onMessage_def
proof (induction "length buf" arbitrary: buf st ctx rule: less_induct)
  case less
  show ?case
  proof (cases "st = kGotAll \<or> search2 CHR 0x0D CHR 0x0A buf = None")
    case True
    then show ?thesis using less.prems by (cases st) (subst http_loop.simps; simp)+
  next
    case False
    then obtain i where i: "search2 CHR 0x0D CHR 0x0A buf = Some i" by auto
    define l where "l = take i buf"
    define b where "b = drop (i + 2) buf"
    have buf: "buf = l @ kCRLF @ b" using search2_split [OF i] by (simp add: l_def b_def kCRLF_def)
    have short: "length b < length buf" "length b < npos - 2" "length l < npos - 2" "length l < npos"
      using less.prems(2) unfolding buf by (simp_all add: kCRLF_def)
    have on: ?thesis if "http_loop cb resp ctx st buf = http_loop cb resp q s b" "s \<noteq> kRequestBody" for q s
      using less.hyps [OF short(1) that(2) short(2), of q]
    proof
      assume "\<exists>cs st' rest used. http_loop cb resp q s b = Some (Returned cs st' rest) \<and> st' \<noteq> kRequestBody \<and> b = used @ rest"
      then obtain cs st' rest used where *: "http_loop cb resp q s b = Some (Returned cs st' rest)" "st' \<noteq> kRequestBody" "b = used @ rest"
        by blast
      have "buf = (l @ kCRLF @ used) @ rest" using buf *(3) by simp
      with * that(1) show ?thesis by metis
    next
      assume "http_loop cb resp q s b = Some Threw \<and>
        (\<exists>before l later. b = before @ l @ kCRLF @ later \<and> bare_field l \<and> (before = [] \<or> (\<exists>b. before = b @ kCRLF)))"
      then obtain before k later where *: "http_loop cb resp q s b = Some Threw" "b = before @ k @ kCRLF @ later" "bare_field k"
        "before = [] \<or> (\<exists>b. before = b @ kCRLF)" by blast
      have "buf = (l @ kCRLF @ before) @ k @ kCRLF @ later" using buf *(2) by simp
      moreover have "\<exists>c. l @ kCRLF @ before = c @ kCRLF" using *(4) by (metis append_Nil2 append_assoc)
      ultimately show ?thesis using * that(1) by metis
    qed
    show ?thesis
    proof (cases st)
      case kRequestLine
      obtain q where "parseRequestLine ctx l = Some q" using parseRequestLine_returns [OF short(4)] by blast
      then have "http_loop cb resp ctx st buf = http_loop cb resp q kRequestHeaders b"
        using kRequestLine i by (subst http_loop.simps) (simp add: l_def b_def)
      then show ?thesis by (rule on) simp
    next
      case kRequestHeaders
      show ?thesis
      proof (cases "parseRequestHeader ctx l")
        case None
        then have "http_loop cb resp ctx st buf = Some Threw"
          using kRequestHeaders i by (subst http_loop.simps) (simp add: l_def)
        moreover have "buf = [] @ l @ kCRLF @ b" using buf by simp
        ultimately show ?thesis using parseRequestHeader_throws [OF short(3) None] by blast
      next
        case (Some r)
        then have "http_loop cb resp ctx st buf = http_loop cb resp (snd r) (if fst r then kGotAll else kRequestHeaders) b"
          using kRequestHeaders i by (subst http_loop.simps) (simp add: l_def b_def split: prod.split)
        then show ?thesis by (rule on) simp
      qed
    qed (use False less.prems in simp_all)
  qed
qed

text \<open>
  A header field with nothing behind its colon (\<open>Host:\<close>), after any request line and
  fields, makes \<^verbatim>\<open>substr\<close> throw. Nothing in the server catches the exception.
\<close>

theorem http_bare_field_throws:
  assumes "line_ok verb path version" "list_all header_ok hs"
    and "k \<noteq> []" "CHR '':'' \<notin> set k" "CHR 0x0A \<notin> set k" "length k < npos - 2"
  shows "http_onMessage cb resp ctx kRequestLine
      (request_line verb path version @ kCRLF @ header_text hs @ k @ '':'' @ kCRLF @ rest) = Some Threw"
proof -
  have lf: "CHR 0x0A \<notin> set (request_line verb path version)" "CHR 0x0A \<notin> set (k @ '':'')"
    using assms(1,5) by (auto simp: line_ok_def request_line_def)
  have bare: "http_loop cb resp q kRequestHeaders (k @ '':'' @ kCRLF @ rest) = Some Threw" for q
    using http_loop_header [OF lf(2), of cb resp q rest] by (simp add: parseRequestHeader_bare [OF assms(3,4,6)])
  show ?thesis
    unfolding http_onMessage_def http_loop_line [OF lf(1)] parseRequestLine_line [OF assms(1)] option.case
      http_loop_headers [OF assms(2)] by (rule bare)
qed

text \<open>
  A request that arrives in two pieces loses its first: when the request line is read
  alone, and the rest of the request with the next read, the codec remembers in its shared
  state that the request line is over, but the request parsed so far was a local copy: the
  callback gets the request of the context, with its method, path and version, and only the
  fields of the second piece.
\<close>

theorem http_split_request_lost:
  assumes "line_ok verb path version" "list_all header_ok hs"
  shows "http_onMessage cb resp ctx kRequestLine (request_line verb path version @ kCRLF) =
      Some (Returned [] kRequestHeaders []) \<and>
    http_onMessage cb resp ctx kRequestHeaders (header_text hs @ kCRLF @ rest) =
      Some (Returned (http_respond cb resp (fold (\<lambda>h. addHeader (fst h) (snd h)) hs ctx)) kRequestLine rest)"
proof
  have lf: "CHR 0x0A \<notin> set (request_line verb path version)"
    using assms(1) by (auto simp: line_ok_def request_line_def)
  have "http_loop cb resp q kRequestHeaders [] = Some (Returned [] kRequestHeaders [])" for q
    by (subst http_loop.simps) simp
  then show "http_onMessage cb resp ctx kRequestLine (request_line verb path version @ kCRLF) =
      Some (Returned [] kRequestHeaders [])"
    using http_loop_line [OF lf, of cb resp ctx "[]"]
    by (simp add: http_onMessage_def parseRequestLine_line [OF assms(1)])
  have "http_loop cb resp q kRequestHeaders (kCRLF @ rest) = http_loop cb resp q kGotAll rest" for q
    using http_loop_header [of "[]" cb resp q rest] by (simp add: parseRequestHeader_end)
  then show "http_onMessage cb resp ctx kRequestHeaders (header_text hs @ kCRLF @ rest) =
      Some (Returned (http_respond cb resp (fold (\<lambda>h. addHeader (fst h) (snd h)) hs ctx)) kRequestLine rest)"
    unfolding http_onMessage_def http_loop_headers [OF assms(2)] by (simp add: http_loop.simps)
qed

end
