(* ===== verification/HTTPServer.thy ===== *)
theory HTTPServer
  imports HTTP
begin

text \<open>
  \<^verbatim>\<open>src/slite/http/HTTPServer.h\<close> and \<^verbatim>\<open>HTTPServer.cc\<close>: the routes of a server and its answer
  to a request. A route callback is the string it returns. The file system is an argument:
  what \<^verbatim>\<open>std::filesystem\<close> and \<^verbatim>\<open>std::ifstream\<close> say of a path.
\<close>

section \<open>State\<close>

datatype fs_entry =
    Directory "(string \<times> string) list" bool  \<comment> \<open>path and file name of the entries read; then an exception?\<close>
  | RegularFile "string list"                \<comment> \<open>its lines\<close>
  | OtherFile
  | FsThrows

record HTTPServer =
  rules :: "string \<Rightarrow> (HTTPMethod \<rightharpoonup> string)"
  notFoundCb :: "string option"
  file_mode :: bool
  fs_exists :: "string \<Rightarrow> bool"
  fs_entry :: "string \<Rightarrow> fs_entry"

definition HTTPServer_ctor :: "(string \<Rightarrow> bool) \<Rightarrow> (string \<Rightarrow> fs_entry) \<Rightarrow> HTTPServer" where
  "HTTPServer_ctor ex fs = \<lparr>rules = (\<lambda>_. Map.empty), notFoundCb = None, file_mode = False,
     fs_exists = ex, fs_entry = fs\<rparr>"

definition addRouteCallback :: "string \<Rightarrow> HTTPMethod \<Rightarrow> string \<Rightarrow> HTTPServer \<Rightarrow> HTTPServer" where
  "addRouteCallback rule m cb S = S\<lparr>rules := (rules S)(rule := (rules S rule)(m \<mapsto> cb))\<rparr>"

definition addNotFoundCallback :: "string \<Rightarrow> HTTPServer \<Rightarrow> HTTPServer" where
  "addNotFoundCallback cb S = S\<lparr>notFoundCb := Some cb\<rparr>"

definition openFileMode :: "HTTPServer \<Rightarrow> HTTPServer" where
  "openFileMode S = S\<lparr>file_mode := True\<rparr>"

section \<open>Files\<close>

text \<open>\<^verbatim>\<open>path.rfind(p) != npos\<close>.\<close>

definition contains :: "string \<Rightarrow> string \<Rightarrow> bool" where
  "contains p s = list_ex (\<lambda>i. take (length p) (drop i s) = p) [0..<Suc (length s)]"

definition page_head :: string where
  "page_head = ''<!DOCTYPE html>'' @ ''<html lang='' @ [CHR 0x22] @ ''zh-CN'' @ [CHR 0x22] @ ''>''"

definition get_file_list :: "HTTPServer \<Rightarrow> string \<Rightarrow> int \<times> string" where
  "get_file_list S path =
     (let link = (\<lambda>(p, f). ''<a href='' @ p @ ''>'' @ f @ ''</a><br>'');
          failed = (\<lambda>body. (st_SERVER_ERROR, body @ ''<p>Server Error</p>''));
          finished = (\<lambda>body. (st_OK, body @ ''</html>''))
      in case fs_entry S path of
           FsThrows \<Rightarrow> failed page_head
         | Directory es threw \<Rightarrow>
             let body = page_head @ concat (map link es) in if threw then failed body else finished body
         | RegularFile ls \<Rightarrow>
             if contains ''.png'' path then finished (page_head @ ''   <img src='' @ path @ ''></img>'')
             else if contains ''.cc'' path then finished (page_head @ ''<code>'' @ concat ls @ ''</code>'')
             else finished (page_head @ concat (map (\<lambda>l. ''<p>'' @ l @ ''</p>'') ls))
         | OtherFile \<Rightarrow> finished page_head)"

section \<open>Requests\<close>

definition http_onRequest :: "HTTPServer \<Rightarrow> HTTPRequest \<Rightarrow> HTTPResponse \<Rightarrow> HTTPResponse" where
  "http_onRequest S q p =
     (let finish = (\<lambda>body p. p\<lparr>res_body := body, res_length := length body\<rparr>) in
      case rules S (req_path q) (req_method q) of
        None \<Rightarrow>
          if file_mode S \<and> fs_exists S (req_path q) then
            (case get_file_list S (req_path q) of (s, body) \<Rightarrow> finish body (p\<lparr>res_status := s\<rparr>))
          else
            (case notFoundCb S of
               Some body \<Rightarrow> finish body p
             | None \<Rightarrow> finish (''<h1>404 Not Found</h1>'' @ ''slite'') (p\<lparr>res_status := st_NOT_FOUND\<rparr>))
      | Some body \<Rightarrow> finish body (p\<lparr>res_status := st_NOT_FOUND\<rparr>))"

text \<open>The message callback of the server's connections: \<open>p\<close> is the new response.\<close>

definition http_server_onMessage ::
  "HTTPServer \<Rightarrow> HTTPResponse \<Rightarrow> HTTPRequest \<Rightarrow> HTTPRequestState \<Rightarrow> string \<Rightarrow> http_end option" where
  "http_server_onMessage S p ctx st buf = http_onMessage (http_onRequest S) p ctx st buf"

section \<open>Properties\<close>

lemma onRequest_length: "res_length (http_onRequest S q p) = length (res_body (http_onRequest S q p))"
  by (simp add: http_onRequest_def Let_def split: option.split prod.split)

lemma onRequest_frame:
  "res_type (http_onRequest S q p) = res_type p" "res_header (http_onRequest S q p) = res_header p"
  by (simp_all add: http_onRequest_def Let_def split: option.split prod.split)

text \<open>The body of the answer, by the cases of the routes.\<close>

definition answer_body :: "HTTPServer \<Rightarrow> HTTPRequest \<Rightarrow> string" where
  "answer_body S q =
     (case rules S (req_path q) (req_method q) of
        Some body \<Rightarrow> body
      | None \<Rightarrow>
          if file_mode S \<and> fs_exists S (req_path q) then snd (get_file_list S (req_path q))
          else case notFoundCb S of Some body \<Rightarrow> body | None \<Rightarrow> ''<h1>404 Not Found</h1>slite'')"

lemma onRequest_body: "res_body (http_onRequest S q p) = answer_body S q"
  by (auto simp: http_onRequest_def answer_body_def Let_def split: option.split prod.split)

text \<open>
  The answer to a request is framed: for every request, route table and file system, what
  is sent is one response that starts with the version of the request and ends with an empty
  line and the body of the answer, its \<^verbatim>\<open>Content-Length\<close> is exactly the length of this body,
  given unless the body is empty, and its only other field is the request's \<^verbatim>\<open>Connection\<close>;
  the connection is shut down exactly when that is \<^verbatim>\<open>close\<close>.
\<close>

theorem http_response_framed:
  fixes q :: HTTPRequest
  shows "let body = answer_body S q; conn = fst (getHeader ''Connection'' q);
       status = res_status (http_onRequest S q (HTTPResponse_ctor s n)) in
    http_respond (http_onRequest S) (HTTPResponse_ctor s n) q =
      HttpSend (req_version q @ '' '' @ to_string status @ '' '' @ statusToString status @ kCRLF @
        (if body = [] then [] else ''Content-Length: '' @ to_string (int (length body)) @ kCRLF) @
        ''Connection: '' @ conn @ kCRLF @ kCRLF @ body)
      # (if conn = ''close'' then [HttpShutdown] else [])"
proof -
  have again: "fst (getHeader k (snd (getHeader k q))) = fst (getHeader k q)" for k
    by (simp add: getHeader_def header_at_def map_of_header_set split: option.split)
  show ?thesis
    by (simp add: http_respond_def Let_def response_toString_def onRequest_length onRequest_frame onRequest_body
        HTTPResponse_ctor_def again split: prod.split) (metis again fst_conv snd_conv)
qed

text \<open>
  The status of an answer contradicts it: a request that a route answers is answered with
  404 although the route's body is sent, and one that the not-found callback answers with
  the status the response had when it was made, which nothing has set.
\<close>

theorem http_status_of_routes:
  "res_status (http_onRequest S q p) =
    (case rules S (req_path q) (req_method q) of
       Some body \<Rightarrow> st_NOT_FOUND
     | None \<Rightarrow>
         if file_mode S \<and> fs_exists S (req_path q) then fst (get_file_list S (req_path q))
         else if notFoundCb S = None then st_NOT_FOUND else res_status p)"
  by (auto simp: http_onRequest_def Let_def split: option.split prod.split)

section \<open>Examples\<close>

definition hello_server :: HTTPServer where
  "hello_server = addRouteCallback ''/'' GET ''hello'' (HTTPServer_ctor (\<lambda>_. False) (\<lambda>_. OtherFile))"

lemma get_root_ok: "line_ok ''GET'' ''/'' ''HTTP/1.1''" "list_all header_ok [(''Connection'', ''close'')]"
  by (simp_all add: line_ok_def request_line_def header_ok_def header_line_def npos_def size_mod_def)

theorem http_request_parsed_witness:
  "\<exists>calls. http_server_onMessage hello_server (HTTPResponse_ctor 0 0) (HTTPRequest_ctor POST) kRequestLine
      (request_line ''GET'' ''/'' ''HTTP/1.1'' @ kCRLF @ header_text [(''Connection'', ''close'')] @ kCRLF @ ''GE'') =
    Some (Returned calls kRequestLine ''GE'')"
  unfolding http_server_onMessage_def http_request_parsed [OF get_root_ok] by blast

theorem http_onMessage_returns_witness:
  "(\<exists>cs st' rest used. http_server_onMessage hello_server (HTTPResponse_ctor 0 0) (HTTPRequest_ctor POST) kRequestHeaders ''x'' =
      Some (Returned cs st' rest) \<and> st' \<noteq> kRequestBody \<and> ''x'' = used @ rest) \<or>
    http_server_onMessage hello_server (HTTPResponse_ctor 0 0) (HTTPRequest_ctor POST) kRequestHeaders ''x'' = Some Threw \<and>
      (\<exists>before l later. ''x'' = before @ l @ kCRLF @ later \<and> bare_field l \<and> (before = [] \<or> (\<exists>b. before = b @ kCRLF)))"
  unfolding http_server_onMessage_def by (rule http_onMessage_returns) (simp_all add: npos_def size_mod_def)

theorem http_bare_field_throws_witness:
  "http_server_onMessage hello_server (HTTPResponse_ctor 0 0) (HTTPRequest_ctor POST) kRequestLine
    (request_line ''GET'' ''/'' ''HTTP/1.1'' @ kCRLF @ header_text [] @ ''Host'' @ '':'' @ kCRLF @ kCRLF) = Some Threw"
  unfolding http_server_onMessage_def
  by (rule http_bare_field_throws [OF get_root_ok(1)]) (simp_all add: npos_def size_mod_def)

theorem http_split_request_lost_witness:
  "http_server_onMessage hello_server (HTTPResponse_ctor 0 0) (HTTPRequest_ctor POST) kRequestLine
     (request_line ''GET'' ''/'' ''HTTP/1.1'' @ kCRLF) = Some (Returned [] kRequestHeaders [])"
  unfolding http_server_onMessage_def
  by (rule http_split_request_lost [OF get_root_ok, THEN conjunct1])

end
