(* ===== verification/ThreadPool.thy ===== *)
theory ThreadPool
  imports Prelude "HOL-Library.Multiset"
begin

text \<open>
  \<^verbatim>\<open>src/slite/ThreadPool.h\<close> and \<^verbatim>\<open>ThreadPool.cc\<close>: worker threads that take tasks from a
  bounded queue. An operation that waits on a condition variable gives \<^const>\<open>None\<close> while its
  condition does not hold; the threads interleave by a step relation whose steps are the
  critical sections of the code. The logs \<open>accepted\<close>, \<open>taken\<close> and \<open>executed\<close> record what was
  pushed, popped and called.
\<close>

section \<open>State\<close>

datatype 'a worker = Checking | Taking | Running 'a | Exited

record 'a thread_pool =
  pool_name :: string
  queue :: "'a list"
  maxQueueSize :: nat
  running :: bool
  workers :: "'a worker list"
  accepted :: "'a list"
  taken :: "'a list"
  executed :: "'a list"

definition ThreadPool_ctor :: "string \<Rightarrow> 'a thread_pool" where
  "ThreadPool_ctor n = \<lparr>pool_name = n, queue = [], maxQueueSize = 0, running = False, workers = [],
     accepted = [], taken = [], executed = []\<rparr>"

text \<open>A negative \<^verbatim>\<open>int\<close> becomes a huge \<^verbatim>\<open>size_t\<close>.\<close>

definition setMaxQueueSize :: "int \<Rightarrow> 'a thread_pool \<Rightarrow> 'a thread_pool" where
  "setMaxQueueSize n p = p\<lparr>maxQueueSize := nat (n mod int size_mod)\<rparr>"

section \<open>Operations\<close>

text \<open>Starting a pool that has threads fails its assertion.\<close>

definition tp_start :: "nat \<Rightarrow> 'a thread_pool \<Rightarrow> 'a thread_pool option" where
  "tp_start n p =
     (if workers p \<noteq> [] then None else Some (p\<lparr>running := True, workers := replicate n Checking\<rparr>))"

text \<open>The critical section of \<^verbatim>\<open>stop\<close>; it then joins the threads.\<close>

definition tp_stop :: "'a thread_pool \<Rightarrow> 'a thread_pool" where
  "tp_stop p = p\<lparr>running := False\<rparr>"

definition joined :: "'a thread_pool \<Rightarrow> bool" where
  "joined p \<longleftrightarrow> list_all (\<lambda>w. w = Exited) (workers p)"

definition queueSize :: "'a thread_pool \<Rightarrow> nat" where
  "queueSize p = length (queue p)"

definition isFull :: "'a thread_pool \<Rightarrow> bool" where
  "isFull p \<longleftrightarrow> 0 < maxQueueSize p \<and> maxQueueSize p \<le> length (queue p)"

text \<open>Without threads the caller runs the task itself.\<close>

definition tp_run :: "'a \<Rightarrow> 'a thread_pool \<Rightarrow> 'a thread_pool option" where
  "tp_run task p =
     (if workers p = [] then Some (p\<lparr>executed := executed p @ [task]\<rparr>)
      else if isFull p \<and> running p then None
      else if \<not> running p then Some p
      else Some (p\<lparr>queue := queue p @ [task], accepted := accepted p @ [task]\<rparr>))"

definition tp_take :: "'a thread_pool \<Rightarrow> ('a option \<times> 'a thread_pool) option" where
  "tp_take p =
     (case queue p of
        [] \<Rightarrow> if running p then None else Some (None, p)
      | task # rest \<Rightarrow> Some (Some task, p\<lparr>queue := rest, taken := taken p @ [task]\<rparr>))"

section \<open>The threads\<close>

definition set_worker :: "nat \<Rightarrow> 'a worker \<Rightarrow> 'a thread_pool \<Rightarrow> 'a thread_pool" where
  "set_worker i s p = p\<lparr>workers := (workers p)[i := s]\<rparr>"

text \<open>
  One step of \<^verbatim>\<open>runInThread\<close> of the \<open>i\<close>-th thread, \<^const>\<open>None\<close> while it waits or when it is
  over: the test of the loop, \<^verbatim>\<open>take\<close>, the call of the task.
\<close>

definition runInThread :: "nat \<Rightarrow> 'a thread_pool \<Rightarrow> 'a thread_pool option" where
  "runInThread i p =
     (case workers p ! i of
        Checking \<Rightarrow> Some (set_worker i (if running p then Taking else Exited) p)
      | Taking \<Rightarrow>
          (case tp_take p of
             None \<Rightarrow> None
           | Some (None, p1) \<Rightarrow> Some (set_worker i Checking p1)
           | Some (Some task, p1) \<Rightarrow> Some (set_worker i (Running task) p1))
      | Running task \<Rightarrow> Some (set_worker i Checking (p\<lparr>executed := executed p @ [task]\<rparr>))
      | Exited \<Rightarrow> None)"

inductive pool_step :: "'a thread_pool \<Rightarrow> 'a thread_pool \<Rightarrow> bool" where
  submit: "tp_run task p = Some p' \<Longrightarrow> pool_step p p'"
| work: "i < length (workers p) \<Longrightarrow> runInThread i p = Some p' \<Longrightarrow> pool_step p p'"
| stop: "pool_step p (tp_stop p)"

inductive pool_reach :: "'a thread_pool \<Rightarrow> 'a thread_pool \<Rightarrow> bool" for p0 where
  init: "pool_reach p0 p0"
| step: "pool_reach p0 p \<Longrightarrow> pool_step p p' \<Longrightarrow> pool_reach p0 p'"

section \<open>The invariant\<close>

definition held :: "'a worker \<Rightarrow> 'a multiset" where
  "held w = (case w of Running t \<Rightarrow> {#t#} | _ \<Rightarrow> {#})"

fun holding :: "'a worker list \<Rightarrow> 'a multiset" where
  "holding [] = {#}"
| "holding (w # ws) = held w + holding ws"

definition pool_inv :: "'a thread_pool \<Rightarrow> bool" where
  "pool_inv p \<longleftrightarrow> workers p \<noteq> [] \<and> taken p @ queue p = accepted p \<and>
     mset (executed p) + holding (workers p) = mset (taken p) \<and>
     (0 < maxQueueSize p \<longrightarrow> length (queue p) \<le> maxQueueSize p)"

lemma held_update:
  "i < length ws \<Longrightarrow> holding (ws[i := w]) + held (ws ! i) = holding ws + held w"
  by (induction ws arbitrary: i) (auto simp: ac_simps split: nat.split)

lemma holding_replicate: "holding (replicate n Checking) = {#}"
  by (induction n) (simp_all add: held_def)

lemma pool_step_inv: "pool_step p p' \<Longrightarrow> pool_inv p \<Longrightarrow> pool_inv p'"
proof (induction rule: pool_step.induct)
  case (submit task p p')
  then show ?case by (auto simp: pool_inv_def tp_run_def isFull_def split: if_splits)
next
  case (work i p p')
  note H = held_update [OF work(1)]
  show ?case
  proof (cases "workers p ! i")
    case Checking
    with work H [of "if running p then Taking else Exited"] show ?thesis
      by (auto simp: pool_inv_def runInThread_def set_worker_def held_def)
  next
    case Taking
    with work H [of Checking] H [of "Running (hd (queue p))"] show ?thesis
      by (auto simp: pool_inv_def runInThread_def set_worker_def tp_take_def held_def split: list.splits if_splits)
  next
    case (Running t)
    have "holding (workers p) = add_mset t (holding ((workers p)[i := Checking]))"
      using H [of Checking] Running by (simp add: held_def)
    with work Running show ?thesis
      by (auto simp: pool_inv_def runInThread_def set_worker_def)
  next
    case Exited
    with work show ?thesis by (simp add: runInThread_def)
  qed
next
  case (stop p)
  then show ?case by (simp add: pool_inv_def tp_stop_def)
qed

lemma pool_reach_inv: "pool_reach p0 p \<Longrightarrow> pool_inv p0 \<Longrightarrow> pool_inv p"
  by (induction rule: pool_reach.induct) (auto dest: pool_step_inv)

lemma started_inv:
  assumes "tp_start n (setMaxQueueSize m (ThreadPool_ctor name)) = Some p" "0 < n"
  shows "pool_inv p"
  using assms
  by (auto simp: tp_start_def setMaxQueueSize_def ThreadPool_ctor_def pool_inv_def holding_replicate)

section \<open>Properties\<close>

text \<open>
  C22. In every interleaving of the workers with threads that submit tasks or stop the pool:
  the tasks are taken in the order they were accepted, each once; the tasks called and those
  being called are together exactly the tasks taken, so no task runs twice and none that was
  taken is lost; and the queue never grows over its bound.
\<close>

theorem pool_tasks_once:
  assumes "tp_start n (setMaxQueueSize m (ThreadPool_ctor name)) = Some p0" "0 < n" "pool_reach p0 p"
  shows "taken p @ queue p = accepted p \<and>
    mset (executed p) + holding (workers p) = mset (taken p) \<and>
    (if maxQueueSize p = 0 then True else length (queue p) \<le> maxQueueSize p)"
  using pool_reach_inv [OF assms(3) started_inv [OF assms(1,2)]] by (auto simp: pool_inv_def)

text \<open>
  No deadlock while the pool runs: when a task is queued and some worker is between
  tasks, that worker's next step is possible; and a submission only waits while the queue is
  full, in which case such a step exists.
\<close>

theorem pool_progress:
  assumes "i < length (workers p)" "workers p ! i \<noteq> Exited" "queue p \<noteq> []"
  shows "\<exists>p'. runInThread i p = Some p'"
  using assms by (auto simp: runInThread_def tp_take_def neq_Nil_conv split: worker.split)

text \<open>Up to a number of steps of one worker, stopping where it would block.\<close>

fun own_steps :: "nat \<Rightarrow> nat \<Rightarrow> 'a thread_pool \<Rightarrow> 'a thread_pool" where
  "own_steps 0 i p = p"
| "own_steps (Suc k) i p = (case runInThread i p of None \<Rightarrow> p | Some p' \<Rightarrow> own_steps k i p')"

text \<open>
  C40. After a stop every worker ends, whatever it is doing: it is never blocked, and within
  four of its own steps it has left its loop, having taken at most one more task.
\<close>

theorem pool_stop_ends:
  assumes "i < length (workers p)" "\<not> running p"
  shows "workers (own_steps 4 i p) ! i = Exited \<and>
    (\<exists>ts. taken (own_steps 4 i p) = taken p @ ts \<and> length ts \<le> 1)"
proof -
  have four: "4 = Suc (Suc (Suc (Suc 0)))" by simp
  show ?thesis
    using assms
    by (cases "workers p ! i"; cases "queue p")
       (simp_all add: four runInThread_def set_worker_def tp_take_def)
qed

section \<open>Examples\<close>

definition two_workers :: "nat thread_pool" where
  "two_workers = the (tp_start 2 (setMaxQueueSize 1 (ThreadPool_ctor ''p'')))"

definition after_run :: "nat thread_pool" where
  "after_run = the (tp_run 7 two_workers)"

lemma after_run_reach: "pool_reach two_workers after_run"
  by (rule pool_reach.step [OF pool_reach.init], rule pool_step.submit [where task = 7])
     (simp add: after_run_def two_workers_def tp_run_def tp_start_def setMaxQueueSize_def ThreadPool_ctor_def isFull_def
       size_mod_def)

lemma after_run_simps:
  "workers after_run = [Checking, Checking]" "queue after_run = [7]" "accepted after_run = [7]"
  "taken after_run = []" "tp_run 8 after_run = None"
  by (simp_all add: after_run_def two_workers_def tp_run_def tp_start_def setMaxQueueSize_def ThreadPool_ctor_def
      isFull_def size_mod_def numeral_2_eq_2)

theorem pool_tasks_once_witness: "taken after_run @ queue after_run = accepted after_run"
proof -
  have "tp_start 2 (setMaxQueueSize 1 (ThreadPool_ctor ''p'')) = Some two_workers"
    by (simp add: two_workers_def tp_start_def setMaxQueueSize_def ThreadPool_ctor_def)
  from pool_tasks_once [OF this _ after_run_reach] show ?thesis by simp
qed

theorem pool_progress_witness: "\<exists>p'. runInThread 0 after_run = Some p'"
  by (rule pool_progress) (simp_all add: after_run_simps)

theorem pool_stop_ends_witness: "workers (own_steps 4 0 (tp_stop after_run)) ! 0 = Exited"
  by (rule pool_stop_ends [THEN conjunct1]) (simp_all add: tp_stop_def after_run_simps)

end
