(* ===== verification/Logger.thy ===== *)
theory Logger
  imports CxxString
begin

text \<open>
  \<^verbatim>\<open>src/slite/Logger.h\<close> and \<^verbatim>\<open>Logger.cc\<close>: one log line per statement, built in the
  constructor and the stream and handed to the output function by the destructor. The broken
  down time (\<^verbatim>\<open>gmtime_r\<close>) and the printed thread id come from the C++ library and are
  arguments; what a statement does is the list of calls it makes.
\<close>

datatype LogLevel = TRACE | DEBUG | INFO | WARN | ERROR | FATAL

text \<open>The enumerators compare as the numbers they stand for.\<close>

definition level_rank :: "LogLevel \<Rightarrow> nat" where
  "level_rank l = (case l of TRACE \<Rightarrow> 0 | DEBUG \<Rightarrow> 1 | INFO \<Rightarrow> 2 | WARN \<Rightarrow> 3 | ERROR \<Rightarrow> 4 | FATAL \<Rightarrow> 5)"

lemma level_rank_inj: "level_rank k = level_rank l \<Longrightarrow> k = l"
  by (cases k; cases l; simp add: level_rank_def)

instantiation LogLevel :: linorder
begin

definition less_eq_LogLevel :: "LogLevel \<Rightarrow> LogLevel \<Rightarrow> bool" where
  "less_eq_LogLevel k l = (level_rank k \<le> level_rank l)"

definition less_LogLevel :: "LogLevel \<Rightarrow> LogLevel \<Rightarrow> bool" where
  "less_LogLevel k l = (level_rank k < level_rank l)"

instance
  by intro_classes (auto simp: less_eq_LogLevel_def less_LogLevel_def intro: level_rank_inj)

end

definition logLevelName :: "LogLevel \<Rightarrow> string" where
  "logLevelName l = (case l of TRACE \<Rightarrow> ''TRACE '' | DEBUG \<Rightarrow> ''DEBUG '' | INFO \<Rightarrow> ''INFO  ''
     | WARN \<Rightarrow> ''WARN  '' | ERROR \<Rightarrow> ''ERROR '' | FATAL \<Rightarrow> ''FATAL '')"

definition defaultLevel :: "(string \<Rightarrow> bool) \<Rightarrow> LogLevel" where
  "defaultLevel env =
     (if env ''SLITE_LOG_TRACE'' then TRACE else if env ''SLITE_LOG_DEBUG'' then DEBUG else INFO)"

section \<open>The time stamp\<close>

record tm =
  tm_year :: int
  tm_mon :: int
  tm_mday :: int
  tm_hour :: int
  tm_min :: int
  tm_sec :: int

text \<open>\<^verbatim>\<open>%4d\<close> and \<^verbatim>\<open>%02d\<close>.\<close>

definition pad :: "char \<Rightarrow> nat \<Rightarrow> string \<Rightarrow> string" where
  "pad ch n s = replicate (n - length s) ch @ s"

definition getFormatTime :: "tm \<Rightarrow> string" where
  "getFormatTime t =
     pad CHR '' '' 4 (to_string (tm_year t + 1900)) @ ''-'' @ pad CHR ''0'' 2 (to_string (tm_mon t + 1)) @ ''-'' @
     pad CHR ''0'' 2 (to_string (tm_mday t)) @ '' '' @ pad CHR ''0'' 2 (to_string (tm_hour t)) @ '':'' @
     pad CHR ''0'' 2 (to_string (tm_min t)) @ '':'' @ pad CHR ''0'' 2 (to_string (tm_sec t)) @ '' ''"

section \<open>A log statement\<close>

text \<open>The file name is cut to what follows its last slash; \<^const>\<open>None\<close> is an exception of \<^verbatim>\<open>substr\<close>.\<close>

definition logger_file :: "string \<Rightarrow> string option" where
  "logger_file file =
     (let pos = find_last_of file CHR ''/'' in substr file (sz_add pos 1) (sz_sub (length file) pos))"

definition Logger_ctor :: "tm \<Rightarrow> string \<Rightarrow> string \<Rightarrow> int \<Rightarrow> LogLevel \<Rightarrow> string option" where
  "Logger_ctor t tid file line level =
     (case logger_file file of None \<Rightarrow> None
      | Some f \<Rightarrow> Some (getFormatTime t @ tid @ '' '' @ logLevelName level @ f @ '':'' @ to_string line @ '' -- ''))"

definition Logger_ctor_func :: "tm \<Rightarrow> string \<Rightarrow> string \<Rightarrow> string \<Rightarrow> int \<Rightarrow> LogLevel \<Rightarrow> string option" where
  "Logger_ctor_func t tid file func line level =
     (case logger_file file of None \<Rightarrow> None
      | Some f \<Rightarrow> Some (getFormatTime t @ tid @ '' '' @ logLevelName level @ f @ '' '' @ func @ '':'' @
                        to_string line @ '' -- ''))"

datatype log_call = Output string | Flush | Abort

definition Logger_dtor :: "LogLevel \<Rightarrow> string \<Rightarrow> log_call list" where
  "Logger_dtor level stream =
     Output (stream @ [CHR 0x0A]) # (if level = FATAL then [Flush, Abort] else [])"

text \<open>The macros: the first three test the level, the others always log; the first two name the function.\<close>

definition log_statement ::
  "LogLevel \<Rightarrow> tm \<Rightarrow> string \<Rightarrow> string \<Rightarrow> string \<Rightarrow> int \<Rightarrow> LogLevel \<Rightarrow> string \<Rightarrow> log_call list option" where
  "log_statement g_level t tid file func line level message =
     (if level \<in> {TRACE, DEBUG, INFO} \<and> \<not> g_level \<le> level then Some []
      else map_option (\<lambda>prefix. Logger_dtor level (prefix @ message))
             (if level \<in> {TRACE, DEBUG} then Logger_ctor_func t tid file func line level
              else Logger_ctor t tid file line level))"

section \<open>Properties\<close>

lemma find_last_of_after: "ch \<notin> set zs \<Longrightarrow> find_last_of (xs @ ch # zs) ch = length xs"
  using index_from_append [of ch "rev zs" 0 "rev xs"] by (simp add: find_last_of_def)

lemma find_last_of_no: "ch \<notin> set zs \<Longrightarrow> find_last_of zs ch = npos"
  using index_from_None [of ch 0 "rev zs"] by (simp add: find_last_of_def)

lemma logger_file_base:
  assumes "CHR ''/'' \<notin> set base" "length base + length dir + 3 < size_mod"
  shows "logger_file (dir @ ''/'' @ base) = Some base" "logger_file base = Some base"
proof -
  have "find_last_of (dir @ ''/'' @ base) CHR ''/'' = length dir"
    using find_last_of_after [OF assms(1), of dir] by simp
  then show "logger_file (dir @ ''/'' @ base) = Some base"
    using assms(2) by (simp add: logger_file_def sz_add_small sz_sub_small substr_def)
  have "sz_sub (length base) npos = length base + 1"
    using assms(2) by (simp add: sz_sub_def npos_def size_mod_def)
  then show "logger_file base = Some base"
    using find_last_of_no [OF assms(1)] sz_add_npos_1 by (simp add: logger_file_def substr_def)
qed

text \<open>
  What a log statement does: below the level that is set, a trace, debug or info statement
  does nothing; every other one outputs exactly one line that ends in a line feed and names
  the file without its directory; a fatal statement then flushes and ends the program, and
  only a fatal one does.
\<close>

theorem log_statement_output:
  assumes "CHR ''/'' \<notin> set base" "length base + length dir + 3 < size_mod"
  shows "log_statement g t tid (dir @ ''/'' @ base) func line level message =
    Some (if level \<in> {TRACE, DEBUG, INFO} \<and> level < g then []
      else Output (getFormatTime t @ tid @ '' '' @ logLevelName level @ base @
             (if level \<in> {TRACE, DEBUG} then '' '' @ func else []) @ '':'' @ to_string line @ '' -- '' @
             message @ [CHR 0x0A])
           # (if level = FATAL then [Flush, Abort] else []))"
  using logger_file_base(1) [OF assms]
  by (simp add: log_statement_def Logger_ctor_def Logger_ctor_func_def Logger_dtor_def not_le)

definition epoch_tm :: tm where
  "epoch_tm = \<lparr>tm_year = 70, tm_mon = 0, tm_mday = 1, tm_hour = 0, tm_min = 0, tm_sec = 0\<rparr>"

theorem log_statement_output_witness:
  "log_statement INFO epoch_tm ''1'' (''src'' @ ''/'' @ ''a.cc'') ''f'' 7 DEBUG ''x'' = Some []"
  by (subst log_statement_output) (simp_all add: size_mod_def less_LogLevel_def level_rank_def)

end
