(* ===== verification/Logging.thy ===== *)
theory Logging
  imports CxxString
begin

text \<open>
  \<^verbatim>\<open>src/slite/Logging.h\<close> and \<^verbatim>\<open>Logging.cc\<close>: a log file that is changed when it has grown too
  large or a new day has begun. The clock, the formatted time, the host name and the process
  id are arguments, and so are the answers of \<^verbatim>\<open>fwrite_unlocked\<close>: a number of bytes and
  whether \<^verbatim>\<open>ferror\<close> holds afterwards.
\<close>

section \<open>State\<close>

record logging =
  log_file :: "string option"                 \<comment> \<open>the file \<^verbatim>\<open>fp_\<close> is open on\<close>
  log_files :: "(string \<times> bytes) list"        \<comment> \<open>what was written, file by file\<close>
  log_baseName :: string
  roolSize :: nat
  flushInterval :: int
  checkEveryN :: int
  log_count :: int
  lastRoll :: int
  lastFlush :: int
  startOfPeriod :: int
  writtenBytes :: nat
  threadSave :: bool
  flushes :: nat

definition kRollPerSeconds :: int where
  "kRollPerSeconds = 60 * 60 * 24"

section \<open>Files\<close>

definition getLogFileName :: "string \<Rightarrow> string \<Rightarrow> string option \<Rightarrow> int \<Rightarrow> string" where
  "getLogFileName baseName timebuf host pid =
     baseName @ timebuf @ (case host of Some h \<Rightarrow> h | None \<Rightarrow> ''unknownhost'') @ ''.'' @ to_string pid @ ''.log''"

text \<open>\<open>filename\<close> is the name made for the time \<open>now\<close>; the file can be opened.\<close>

definition rollFile :: "int \<Rightarrow> string \<Rightarrow> logging \<Rightarrow> bool \<times> logging" where
  "rollFile now filename s =
     (let start = now div kRollPerSeconds * kRollPerSeconds in
      if lastRoll s < now then
        (True, s\<lparr>lastRoll := now, lastFlush := now, startOfPeriod := start, writtenBytes := 0,
                 log_file := Some filename, log_files := log_files s @ [(filename, [])]\<rparr>)
      else (False, s))"

definition Logging_ctor ::
  "string \<Rightarrow> nat \<Rightarrow> bool \<Rightarrow> int \<Rightarrow> int \<Rightarrow> nat \<Rightarrow> int \<Rightarrow> string \<Rightarrow> logging" where
  "Logging_ctor baseName rool save interval everyN garbage now filename =
     snd (rollFile now filename
       \<lparr>log_file = None, log_files = [], log_baseName = baseName, roolSize = rool, flushInterval = interval,
        checkEveryN = everyN, log_count = 0, lastRoll = 0, lastFlush = 0, startOfPeriod = 0,
        writtenBytes = garbage, threadSave = save, flushes = 0\<rparr>)"

section \<open>Writing\<close>

text \<open>
  The loop of \<^verbatim>\<open>writeToFile\<close>: whether it has ended, \<^verbatim>\<open>written\<close>, and the bytes written.
  Every turn hands \<^verbatim>\<open>fwrite\<close> the whole line again.
\<close>

fun write_loop :: "string \<Rightarrow> nat \<Rightarrow> (nat \<times> bool) list \<Rightarrow> bool \<times> nat \<times> bytes" where
  "write_loop line written answers =
     (if written = length line then (True, written, [])
      else case answers of
        [] \<Rightarrow> (False, written, [])
      | (k, err) # answers' \<Rightarrow>
          let n = min k (length line) in
          if n \<noteq> sz_sub (length line) written \<and> err then (True, written, take n line)
          else (case write_loop line (sz_add written n) answers' of
                  (ended, w, out) \<Rightarrow> (ended, w, take n line @ out)))"

declare write_loop.simps [simp del]

fun append_last :: "bytes \<Rightarrow> (string \<times> bytes) list \<Rightarrow> (string \<times> bytes) list" where
  "append_last bs [] = []"
| "append_last bs [(f, c)] = [(f, c @ bs)]"
| "append_last bs (x # y # zs) = x # append_last bs (y # zs)"

definition writeToFile :: "string \<Rightarrow> (nat \<times> bool) list \<Rightarrow> logging \<Rightarrow> logging" where
  "writeToFile line answers s =
     (case write_loop line 0 answers of
        (_, written, out) \<Rightarrow>
          s\<lparr>log_files := append_last out (log_files s), writtenBytes := sz_add (writtenBytes s) written\<rparr>)"

definition logging_flush :: "logging \<Rightarrow> logging" where
  "logging_flush s = s\<lparr>flushes := Suc (flushes s)\<rparr>"

definition append_unlocked :: "int \<Rightarrow> string \<Rightarrow> (nat \<times> bool) list \<Rightarrow> string \<Rightarrow> logging \<Rightarrow> logging" where
  "append_unlocked now filename answers line s =
     (let s1 = writeToFile line answers s in
      if roolSize s1 < writtenBytes s1 then snd (rollFile now filename s1)
      else
        let s2 = s1\<lparr>log_count := log_count s1 + 1\<rparr> in
        if checkEveryN s2 \<le> log_count s2 then
          let s3 = s2\<lparr>log_count := 0\<rparr>;
              thisPeriod = now div kRollPerSeconds * kRollPerSeconds
          in if thisPeriod \<noteq> startOfPeriod s3 then snd (rollFile now filename s3)
             else if flushInterval s3 < now - lastFlush s3 then logging_flush (s3\<lparr>lastFlush := now\<rparr>)
             else s3
        else s2)"

text \<open>With \<^verbatim>\<open>threadSave_\<close> the call is made under the lock, which makes it one step.\<close>

definition logging_append :: "int \<Rightarrow> string \<Rightarrow> (nat \<times> bool) list \<Rightarrow> string \<Rightarrow> logging \<Rightarrow> logging" where
  "logging_append now filename answers line s =
     (if threadSave s then append_unlocked now filename answers line s
      else append_unlocked now filename answers line s)"

section \<open>Properties\<close>

lemma write_whole:
  assumes "length line < size_mod" "length line \<le> k"
  shows "write_loop line 0 ((k, err) # answers) = (True, length line, line)"
proof (cases "line = []")
  case True
  then show ?thesis by (simp add: write_loop.simps)
next
  case False
  have "sz_add 0 (length line) = length line" "sz_sub (length line) 0 = length line"
    using assms(1) by (simp_all add: sz_add_small sz_sub_small)
  then show ?thesis
    using False assms(2)
    by (subst write_loop.simps) (simp add: min_def write_loop.simps [of line "length line"])
qed

text \<open>
  After every append, whatever the file system answers, the current file is within its
  size limit, or the clock has not moved past the second in which the file was opened; a line
  that is written in one go is added to the current file exactly once.
\<close>

theorem logging_append_bounded:
  "let s' = logging_append now filename answers line s in
    (writtenBytes s' \<le> roolSize s' \<or> now \<le> lastRoll s) \<and>
    (if write_loop line 0 answers = (True, length line, line)
     then take (length (log_files s)) (log_files s') = append_last line (log_files s) else True)"
proof -
  have len: "length (append_last bs fs) = length fs" for bs fs by (induction bs fs rule: append_last.induct) auto
  show ?thesis
    by (auto simp: logging_append_def append_unlocked_def rollFile_def writeToFile_def logging_flush_def len Let_def
        split: prod.splits)
qed

text \<open>
  A short write that is not an error corrupts the file: the code then writes the whole
  line again from its start and counts past its end, so that the loop does not stop.
\<close>

theorem short_write_repeats:
  assumes "0 < k" "k < length line" "length line + length line < size_mod"
  shows "write_loop line 0 [(k, False), (length line, False)] = (False, k + length line, take k line @ line)"
proof -
  have a: "sz_add 0 k = k" "sz_add k (length line) = k + length line"
    using assms by (simp_all add: sz_add_small)
  have "write_loop line (k + length line) [] = (False, k + length line, [])"
    using assms by (subst write_loop.simps) simp
  moreover have "line \<noteq> []" "k \<noteq> length line" using assms by auto
  ultimately show ?thesis
    using assms a by (subst write_loop.simps, simp, subst write_loop.simps) simp
qed

theorem short_write_repeats_witness:
  "write_loop ''abc'' 0 [(2, False), (3, False)] = (False, 5, ''ababc'')"
  using short_write_repeats [of 2 "''abc''"] by (simp add: size_mod_def numeral_3_eq_3)

end
