(* ===== verification/AsyncLogger.thy ===== *)
theory AsyncLogger
  imports CxxString
begin

text \<open>
  \<^verbatim>\<open>src/slite/AsyncLogger.h\<close> and \<^verbatim>\<open>AsyncLogger.cc\<close>: log lines are collected in buffers and
  written by a thread of their own. Both \<^verbatim>\<open>append\<close> and the body of the loop in \<^verbatim>\<open>backend\<close>
  hold the mutex throughout, so each is one step of the interleaving. The calls made on the
  \<^verbatim>\<open>Logging\<close> object are the list \<open>sink\<close>; a string that was moved from is empty. The logs
  \<open>appended\<close> and \<open>drops\<close> record the lines given to \<^verbatim>\<open>append\<close> and the buffers thrown away.
\<close>

section \<open>State\<close>

record async_logger =
  al_running :: bool
  al_started :: bool
  al_buffer :: bytes
  nextBuffer :: bytes
  al_buffers :: "bytes list"
  backend_done :: bool
  buffer1 :: bytes
  buffer2 :: bytes
  sink :: "bytes list"
  appended :: bytes
  drops :: nat

definition kBufferSize :: nat where
  "kBufferSize = 686000"

definition AsyncLogger_ctor :: async_logger where
  "AsyncLogger_ctor = \<lparr>al_running = False, al_started = False, al_buffer = [], nextBuffer = [], al_buffers = [],
     backend_done = False, buffer1 = [], buffer2 = [], sink = [], appended = [], drops = 0\<rparr>"

definition async_start :: "async_logger \<Rightarrow> async_logger" where
  "async_start s = (if \<not> al_running s then s\<lparr>al_running := True, al_started := True\<rparr> else s)"

text \<open>Up to the \<^verbatim>\<open>join\<close>, which waits for \<open>backend_done\<close>.\<close>

definition async_stop :: "async_logger \<Rightarrow> async_logger" where
  "async_stop s = s\<lparr>al_running := False\<rparr>"

section \<open>Appending\<close>

definition async_append :: "bytes \<Rightarrow> async_logger \<Rightarrow> async_logger" where
  "async_append line s0 =
     (let s = s0\<lparr>appended := appended s0 @ line\<rparr> in
      if length line < sz_sub kBufferSize (length (al_buffer s))
      then s\<lparr>al_buffer := al_buffer s @ line\<rparr>
      else
        let s1 = s\<lparr>al_buffers := al_buffers s @ [al_buffer s], al_buffer := []\<rparr>;
            s2 = (if nextBuffer s1 = [] then s1\<lparr>al_buffer := nextBuffer s1, nextBuffer := []\<rparr>
                  else s1\<lparr>al_buffer := []\<rparr>)
        in s2\<lparr>al_buffer := al_buffer s2 @ line\<rparr>)"

section \<open>The backend\<close>

text \<open>
  One turn of the loop. \<open>timeout\<close>: the wait is over because the flush interval is. A wait
  whose condition does not hold gives \<^const>\<open>None\<close>.
\<close>

definition drop_message :: "nat \<Rightarrow> bytes" where
  "drop_message n = ''Dropped log messages, %zd larger buffers '' @ to_string (int n - 2)"

definition swap_back :: "bytes \<Rightarrow> bytes list \<Rightarrow> bytes \<times> bytes list" where
  "swap_back b bs = (if b \<noteq> [] then ([], butlast bs) else (b, bs))"

definition backend_turn :: "bool \<Rightarrow> async_logger \<Rightarrow> async_logger option" where
  "backend_turn timeout s =
     (if \<not> timeout \<and> al_buffers s = [] \<and> al_running s then None
      else
        let toWrite0 = al_buffers s @ [al_buffer s];
            buf = buffer1 s; b1 = [];
            (nb, b2) = (if nextBuffer s \<noteq> [] then (buffer2 s, nextBuffer s) else (nextBuffer s, buffer2 s));
            (msg, toWrite) = (if 25 < length toWrite0 then ([drop_message (length toWrite0)], take 2 toWrite0)
                              else ([], toWrite0));
            kept = take 2 toWrite;
            (b1', kept1) = swap_back b1 kept;
            (b2', kept2) = swap_back b2 kept1
        in Some (s\<lparr>al_buffers := [], al_buffer := buf, nextBuffer := nb, buffer1 := b1', buffer2 := b2',
                   sink := sink s @ msg @ toWrite, drops := drops s + length toWrite0 - length toWrite\<rparr>))"

text \<open>The thread tests \<^verbatim>\<open>running_\<close> before every turn and ends when it does not hold.\<close>

definition backend_test :: "async_logger \<Rightarrow> async_logger option" where
  "backend_test s = (if al_started s \<and> \<not> al_running s then Some (s\<lparr>backend_done := True\<rparr>) else None)"

inductive async_step :: "async_logger \<Rightarrow> async_logger \<Rightarrow> bool" where
  start: "async_step s (async_start s)"
| stop: "async_step s (async_stop s)"
| append: "async_step s (async_append line s)"
| turn: "al_started s \<Longrightarrow> \<not> backend_done s \<Longrightarrow> backend_turn timeout s = Some s' \<Longrightarrow> async_step s s'"
| quit: "backend_test s = Some s' \<Longrightarrow> async_step s s'"

inductive async_reach :: "async_logger \<Rightarrow> bool" where
  init: "async_reach AsyncLogger_ctor"
| step: "async_reach s \<Longrightarrow> async_step s s' \<Longrightarrow> async_reach s'"

section \<open>Properties\<close>

text \<open>The spare buffers are always empty; nothing is lost but what is dropped.\<close>

definition async_inv :: "async_logger \<Rightarrow> bool" where
  "async_inv s \<longleftrightarrow> nextBuffer s = [] \<and> buffer1 s = [] \<and> buffer2 s = [] \<and>
     (drops s = 0 \<longrightarrow> concat (sink s) @ concat (al_buffers s) @ al_buffer s = appended s)"

lemma async_step_inv: "async_step s s' \<Longrightarrow> async_inv s \<Longrightarrow> async_inv s'"
proof (induction rule: async_step.induct)
  case (start s)
  then show ?case by (simp add: async_inv_def async_start_def)
next
  case (stop s)
  then show ?case by (simp add: async_inv_def async_stop_def)
next
  case (append s line)
  then show ?case by (auto simp: async_inv_def async_append_def Let_def)
next
  case (turn s timeout s')
  then show ?case
    by (auto simp: async_inv_def backend_turn_def swap_back_def Let_def split: if_splits)
next
  case (quit s s')
  then show ?case by (auto simp: async_inv_def backend_test_def split: if_splits)
qed

lemma async_reach_inv: "async_reach s \<Longrightarrow> async_inv s"
  by (induction rule: async_reach.induct) (auto simp: AsyncLogger_ctor_def async_inv_def dest: async_step_inv)

text \<open>
  In every interleaving of threads that append, the backend, and starts and stops: while
  no buffer has been dropped, what the backend has written followed by what waits in the
  buffers is exactly everything appended, in order.
\<close>

theorem async_order:
  assumes "async_reach s" "drops s = 0"
  shows "concat (sink s) @ concat (al_buffers s) @ al_buffer s = appended s"
  using async_reach_inv [OF assms(1)] assms(2) by (simp add: async_inv_def)

text \<open>
  One turn of the backend writes everything that waits, or the first two buffers behind
  a message that counts the others when there are more than twenty-five; nothing waits
  afterwards.
\<close>

theorem backend_turn_writes:
  assumes "async_reach s" "backend_turn timeout s = Some s'"
  shows "let waiting = al_buffers s @ [al_buffer s] in
    sink s' = sink s @ (if length waiting \<le> 25 then waiting
                        else drop_message (length waiting) # take 2 waiting) \<and>
    al_buffers s' = [] \<and> al_buffer s' = [] \<and>
    drops s' = drops s + (if length waiting \<le> 25 then 0 else length waiting - 2)"
  using async_reach_inv [OF assms(1)] assms(2)
  by (auto simp: async_inv_def backend_turn_def swap_back_def Let_def min_def split: if_splits)

text \<open>
  Stopping the logger loses the lines that wait: a stop that comes while the backend is
  between two turns makes it end without another one, so whatever is in the buffers then is
  never written.
\<close>

theorem async_stop_loses:
  assumes "al_started s"
  shows "\<exists>s'. backend_test (async_stop s) = Some s' \<and> backend_done s' \<and> sink s' = sink s \<and>
    al_buffer s' = al_buffer s \<and> al_buffers s' = al_buffers s"
  using assms by (simp add: backend_test_def async_stop_def)

section \<open>Examples\<close>

definition one_line :: async_logger where
  "one_line = async_append ''hi'' (async_start AsyncLogger_ctor)"

lemma one_line_reach: "async_reach one_line"
  unfolding one_line_def by (rule async_reach.step [OF async_reach.step [OF async_reach.init] ]) (rule async_step.intros)+

lemma one_line_simps: "al_buffer one_line = ''hi''" "al_buffers one_line = []" "al_started one_line" "drops one_line = 0"
  "sink one_line = []"
  by (simp_all add: one_line_def async_append_def async_start_def AsyncLogger_ctor_def Let_def sz_sub_small
      kBufferSize_def size_mod_def)

theorem async_order_witness: "concat (sink one_line) @ concat (al_buffers one_line) @ al_buffer one_line = appended one_line"
  by (rule async_order [OF one_line_reach one_line_simps(4)])

theorem backend_turn_writes_witness: "map_option sink (backend_turn True one_line) = Some [''hi'']"
proof (cases "backend_turn True one_line")
  case None
  then show ?thesis by (simp add: backend_turn_def one_line_simps Let_def split: prod.splits if_splits)
next
  case (Some s')
  from backend_turn_writes [OF one_line_reach this] show ?thesis by (simp add: Some one_line_simps Let_def)
qed

theorem async_stop_loses_witness:
  "\<exists>s'. backend_test (async_stop one_line) = Some s' \<and> backend_done s' \<and> sink s' = [] \<and> al_buffer s' = ''hi''"
  using async_stop_loses [OF one_line_simps(3)] unfolding one_line_simps by blast

end
