(* ===== verification/LogSystem.thy ===== *)
theory LogSystem
  imports Logger AsyncLogger Logging
begin

text \<open>
  Logging from the statement to the file: the global settings of \<^verbatim>\<open>Logger.cc\<close>, and the
  whole of \<^verbatim>\<open>Logger\<close>, \<^verbatim>\<open>AsyncLogger\<close> and \<^verbatim>\<open>Logging\<close> put together the way
  \<^verbatim>\<open>AsyncLogger.h\<close> is meant to be used, with \<^verbatim>\<open>append\<close> as the output function. A statement, a
  change of the level and a turn of the backend are the steps of the interleaving; a turn
  hands its buffers to the file one by one, and the operating system writes each in one go.
\<close>

section \<open>The settings of the logger\<close>

record 'w log_globals =
  g_level :: LogLevel
  g_output :: "string \<Rightarrow> 'w \<Rightarrow> 'w"
  g_flush :: "'w \<Rightarrow> 'w"

definition logLevel :: "'w log_globals \<Rightarrow> LogLevel" where
  "logLevel G = g_level G"

definition setLogLevel :: "LogLevel \<Rightarrow> 'w log_globals \<Rightarrow> 'w log_globals" where
  "setLogLevel level G = G\<lparr>g_level := level\<rparr>"

definition setOutput :: "(string \<Rightarrow> 'w \<Rightarrow> 'w) \<Rightarrow> 'w log_globals \<Rightarrow> 'w log_globals" where
  "setOutput output G = G\<lparr>g_output := output\<rparr>"

definition setFlush :: "('w \<Rightarrow> 'w) \<Rightarrow> 'w log_globals \<Rightarrow> 'w log_globals" where
  "setFlush flush G = G\<lparr>g_flush := flush\<rparr>"

text \<open>By default lines go to the standard output: what it has buffered, and what is through.\<close>

definition defaultOutput :: "string \<Rightarrow> bytes \<times> bytes \<Rightarrow> bytes \<times> bytes" where
  "defaultOutput output w = (case w of (buffered, through) \<Rightarrow> (buffered @ output, through))"

definition defaultFlush :: "bytes \<times> bytes \<Rightarrow> bytes \<times> bytes" where
  "defaultFlush w = (case w of (buffered, through) \<Rightarrow> ([], through @ buffered))"

definition default_globals :: "(string \<Rightarrow> bool) \<Rightarrow> (bytes \<times> bytes) log_globals" where
  "default_globals env = \<lparr>g_level = defaultLevel env, g_output = defaultOutput, g_flush = defaultFlush\<rparr>"

text \<open>The calls of one statement; after \<^verbatim>\<open>abort\<close> the program does not go on.\<close>

fun perform_calls :: "'w log_globals \<Rightarrow> log_call list \<Rightarrow> 'w \<Rightarrow> bool \<times> 'w" where
  "perform_calls G [] w = (True, w)"
| "perform_calls G (Output s # cs) w = perform_calls G cs (g_output G s w)"
| "perform_calls G (Flush # cs) w = perform_calls G cs (g_flush G w)"
| "perform_calls G (Abort # cs) w = (False, w)"

definition outputs :: "log_call list \<Rightarrow> string" where
  "outputs cs = concat (map (\<lambda>x. case x of Output s \<Rightarrow> s | _ \<Rightarrow> []) cs)"

section \<open>The file\<close>

definition on_disk :: "logging \<Rightarrow> bytes" where
  "on_disk d = concat (map snd (log_files d))"

lemma append_last_content: "fs \<noteq> [] \<Longrightarrow> concat (map snd (append_last bs fs)) = concat (map snd fs) @ bs"
  by (induction bs fs rule: append_last.induct) auto

lemma append_last_Nil: "append_last bs fs = [] \<longleftrightarrow> fs = []"
  by (induction bs fs rule: append_last.induct) auto

lemma rollFile_content:
  "on_disk (snd (rollFile now filename d)) = on_disk d" "log_files d \<noteq> [] \<Longrightarrow> log_files (snd (rollFile now filename d)) \<noteq> []"
  by (simp_all add: rollFile_def on_disk_def Let_def)

text \<open>A line written in one go is added to what the files hold, rolled or not.\<close>

lemma logging_append_content:
  assumes "length line < size_mod" "length line \<le> k" "log_files d \<noteq> []"
  shows "on_disk (logging_append now filename ((k, err) # answers) line d) = on_disk d @ line \<and>
    log_files (logging_append now filename ((k, err) # answers) line d) \<noteq> []"
proof -
  let ?d = "writeToFile line ((k, err) # answers) d"
  have d: "on_disk ?d = on_disk d @ line" "log_files ?d \<noteq> []"
    using append_last_content [OF assms(3)] assms(3)
    by (simp_all add: writeToFile_def write_whole [OF assms(1,2)] on_disk_def append_last_Nil)
  have same: "on_disk (e\<lparr>log_count := n\<rparr>) = on_disk e" "on_disk (e\<lparr>lastFlush := m\<rparr>) = on_disk e"
    "on_disk (e\<lparr>flushes := k\<rparr>) = on_disk e" for e n m k
    by (simp_all add: on_disk_def)
  show ?thesis
    by (simp add: logging_append_def append_unlocked_def Let_def rollFile_content logging_flush_def same d)
qed

text \<open>
  What a turn of the backend hands to the file, each with the clock, the name of a new file
  and what the operating system can take.
\<close>

fun write_pieces :: "(int \<times> string \<times> nat) list \<Rightarrow> bytes list \<Rightarrow> logging \<Rightarrow> logging" where
  "write_pieces ((now, filename, k) # os) (b # bs) d =
     write_pieces os bs (logging_append now filename [(k, False)] b d)"
| "write_pieces os bs d = d"

definition takes_all :: "(int \<times> string \<times> nat) list \<Rightarrow> bytes list \<Rightarrow> bool" where
  "takes_all os bs \<longleftrightarrow> list_all2 (\<lambda>x b. length b < size_mod \<and> length b \<le> snd (snd x)) os bs"

lemma write_pieces_content:
  assumes "takes_all os bs" "log_files d \<noteq> []"
  shows "on_disk (write_pieces os bs d) = on_disk d @ concat bs \<and> log_files (write_pieces os bs d) \<noteq> []"
  using assms unfolding takes_all_def
proof (induction os bs arbitrary: d rule: list_all2_induct)
  case (Cons x os b bs)
  obtain now filename k where x: "x = (now, filename, k)" by (cases x)
  with Cons.hyps logging_append_content [of b k d now filename False "[]"] Cons.prems
  have "on_disk (logging_append now filename [(k, False)] b d) = on_disk d @ b"
    "log_files (logging_append now filename [(k, False)] b d) \<noteq> []" by simp_all
  with Cons.IH [OF this(2)] show ?case by (simp add: x)
qed simp

section \<open>The whole\<close>

record log_system =
  level_set :: LogLevel
  alive :: bool
  logger :: async_logger
  disk :: logging
  said :: bytes       \<comment> \<open>all lines output so far\<close>

definition async_globals :: "LogLevel \<Rightarrow> async_logger log_globals" where
  "async_globals level = setOutput async_append \<lparr>g_level = level, g_output = (\<lambda>s a. a), g_flush = (\<lambda>a. a)\<rparr>"

inductive log_reach :: "log_system \<Rightarrow> bool" where
  log_start: "log_reach \<lparr>level_set = level, alive = True, logger = async_start AsyncLogger_ctor,
     disk = Logging_ctor baseName rool False 3 1024 garbage now filename, said = []\<rparr>" if "0 < now"
| log_level: "log_reach S \<Longrightarrow> alive S \<Longrightarrow> log_reach (S\<lparr>level_set := logLevel (setLogLevel level (async_globals (level_set S)))\<rparr>)"
| log_say: "log_reach S \<Longrightarrow> alive S \<Longrightarrow>
     log_statement (level_set S) t tid file func line level message = Some calls \<Longrightarrow>
     perform_calls (async_globals (level_set S)) calls (logger S) = (goes_on, a) \<Longrightarrow>
     log_reach (S\<lparr>alive := goes_on, logger := a, said := said S @ outputs calls\<rparr>)"
| log_turn: "log_reach S \<Longrightarrow> alive S \<Longrightarrow> backend_turn timeout (logger S) = Some a \<Longrightarrow>
     takes_all os (drop (length (sink (logger S))) (sink a)) \<Longrightarrow>
     log_reach (S\<lparr>logger := a, disk := write_pieces os (drop (length (sink (logger S))) (sink a)) (disk S)\<rparr>)"

section \<open>From the statement to the file\<close>

lemma log_statement_calls:
  assumes "log_statement g t tid file func line level message = Some calls"
  shows "calls = [] \<or> (\<exists>s. calls = [Output s] \<or> calls = [Output s, Flush, Abort])"
  using assms by (auto simp: log_statement_def Logger_dtor_def split: if_splits)

lemma async_append_facts:
  "appended (async_append l a) = appended a @ l" "al_started (async_append l a) = al_started a"
  "backend_done (async_append l a) = backend_done a" "sink (async_append l a) = sink a"
  by (simp_all add: async_append_def Let_def)

lemma backend_turn_facts:
  assumes "backend_turn timeout a = Some b"
  shows "appended b = appended a" "al_started b = al_started a" "backend_done b = backend_done a"
    "\<exists>new. sink b = sink a @ new"
  using assms by (auto simp: backend_turn_def swap_back_def Let_def split: if_splits)

definition log_inv :: "log_system \<Rightarrow> bool" where
  "log_inv S \<longleftrightarrow> async_reach (logger S) \<and> al_started (logger S) \<and> \<not> backend_done (logger S) \<and>
     appended (logger S) = said S \<and> on_disk (disk S) = concat (sink (logger S)) \<and> log_files (disk S) \<noteq> []"

lemma log_inv_say:
  assumes "log_inv S" "log_statement g t tid file func line level message = Some calls"
    and "perform_calls (async_globals l) calls (logger S) = (goes_on, a)"
  shows "log_inv (S\<lparr>alive := goes_on, logger := a, said := said S @ outputs calls\<rparr>)"
proof -
  have out: "a = (if calls = [] then logger S else async_append (outputs calls) (logger S))"
    using log_statement_calls [OF assms(2)] assms(3)
    by (auto simp: async_globals_def setOutput_def outputs_def)
  have "async_reach (async_append x (logger S))" for x
    using assms(1) by (auto simp: log_inv_def intro: async_reach.step async_step.append)
  then show ?thesis
    using assms(1) out by (simp add: log_inv_def async_append_facts outputs_def)
qed

lemma log_inv_turn:
  assumes "log_inv S" "backend_turn timeout (logger S) = Some a"
    and "takes_all os (drop (length (sink (logger S))) (sink a))"
  shows "log_inv (S\<lparr>logger := a, disk := write_pieces os (drop (length (sink (logger S))) (sink a)) (disk S)\<rparr>)"
proof -
  obtain new where new: "sink a = sink (logger S) @ new" using backend_turn_facts(4) [OF assms(2)] by blast
  have "async_reach a"
    using assms(1) async_step.turn [OF _ _ assms(2)] by (auto simp: log_inv_def intro: async_reach.step)
  then show ?thesis
    using assms(1,3) write_pieces_content [of os new "disk S"] backend_turn_facts(1-3) [OF assms(2)]
    by (simp add: log_inv_def new)
qed

lemma log_reach_inv: "log_reach S \<Longrightarrow> log_inv S"
proof (induction rule: log_reach.induct)
  case (log_start now level baseName rool garbage filename)
  have "async_reach (async_start AsyncLogger_ctor)"
    by (rule async_reach.step [OF async_reach.init async_step.start])
  then show ?case
    using log_start
    by (simp add: log_inv_def async_start_def AsyncLogger_ctor_def Logging_ctor_def rollFile_def on_disk_def Let_def)
next
  case (log_level S level)
  then show ?case by (simp add: log_inv_def)
next
  case (log_say S t tid path func line level message calls goes_on a)
  from log_inv_say [OF log_say.IH log_say.hyps(3,4)] show ?case .
next
  case (log_turn S timeout a os)
  from log_inv_turn [OF log_turn.IH log_turn.hyps(3,4)] show ?case .
qed

text \<open>
  C33. A line that is logged reaches the file: in every interleaving of log statements, changes
  of the level and turns of the backend, while no buffer has been dropped, what all log files
  hold, in the order they were made and however often the file was changed, followed by what
  waits in the buffers, is exactly the lines that the statements output, each once and in order.
\<close>

theorem logged_lines_reach_files:
  assumes "log_reach S" "drops (logger S) = 0"
  shows "on_disk (disk S) @ concat (al_buffers (logger S)) @ al_buffer (logger S) = said S"
  using log_reach_inv [OF assms(1)] async_reach_inv [of "logger S"] assms(2)
  by (simp add: log_inv_def async_inv_def)

section \<open>Witness\<close>

definition fresh_log :: log_system where
  "fresh_log = \<lparr>level_set = WARN, alive = True, logger = async_start AsyncLogger_ctor,
     disk = Logging_ctor ''log'' 1000 False 3 1024 0 7 ''log.7'', said = []\<rparr>"

lemma fresh_log_reach: "log_reach fresh_log"
  unfolding fresh_log_def by (rule log_start) simp

theorem logged_lines_reach_files_witness:
  "\<exists>S. log_reach S \<and> drops (logger S) = 0 \<and> said S \<noteq> [] \<and>
     on_disk (disk S) @ concat (al_buffers (logger S)) @ al_buffer (logger S) = said S"
proof -
  obtain s where calls: "log_statement WARN epoch_tm ''1'' (''src'' @ ''/'' @ ''a.cc'') ''f'' 7 WARN ''x'' = Some [Output s]"
      and s: "s \<noteq> []"
    using log_statement_output [of "''a.cc''" "''src''" WARN epoch_tm "''1''" "''f''" 7 WARN "''x''"]
    by (auto simp: size_mod_def less_LogLevel_def)
  let ?S = "fresh_log\<lparr>alive := True, logger := async_append s (logger fresh_log), said := said fresh_log @ outputs [Output s]\<rparr>"
  have "log_reach ?S"
    by (rule log_say [OF fresh_log_reach]) (use calls in \<open>simp_all add: fresh_log_def async_globals_def setOutput_def\<close>)
  moreover have "drops (logger ?S) = 0"
    by (simp add: fresh_log_def async_append_def async_start_def AsyncLogger_ctor_def Let_def)
  ultimately show ?thesis
    using logged_lines_reach_files [of ?S] s by (auto simp: outputs_def)
qed

end
