(* ===== verification/HTTPConnections.thy ===== *)
theory HTTPConnections
  imports HTTPServer TCPConnection
begin

text \<open>
  An \<^verbatim>\<open>HTTPServer\<close> and its connections: \<^verbatim>\<open>onConnection\<close> of \<^verbatim>\<open>HTTPServer.cc\<close>, and
  \<^verbatim>\<open>HTTPCodec::onMessage\<close> as the message callback of several connections, which have a
  context and a receive buffer each and share the one parser of the server. The server of
  \<^verbatim>\<open>src/examples/simple_http.cc\<close> is an instance.

  The lemmas show that requests that arrive in one piece are answered on their own
  connections, in any order, and that a request of which only a part has arrived spoils the
  next request on whatever connection.
\<close>

section \<open>State\<close>

record http_system =
  codec_state :: HTTPRequestState
  context_of :: "conn_id \<rightharpoonup> HTTPRequest"
  buffer_of :: "conn_id \<Rightarrow> string"

definition HTTPCodec_ctor :: HTTPRequestState where
  "HTTPCodec_ctor = kRequestLine"

definition http_system_ctor :: http_system where
  "http_system_ctor = \<lparr>codec_state = HTTPCodec_ctor, context_of = Map.empty, buffer_of = (\<lambda>c. [])\<rparr>"

text \<open>\<open>m\<close> is the method of a new request, which its constructor does not set.\<close>

definition HTTPServer_onConnection :: "conn_id \<Rightarrow> bool \<Rightarrow> HTTPMethod \<Rightarrow> http_system \<Rightarrow> http_system" where
  "HTTPServer_onConnection c up m Y =
     (if up then Y\<lparr>context_of := (context_of Y)(c \<mapsto> HTTPRequest_ctor m)\<rparr> else Y)"

fun on_connection :: "conn_id \<Rightarrow> http_call \<Rightarrow> user_action" where
  "on_connection c (HttpSend s) = ASend c s"
| "on_connection c HttpShutdown = AShutdown c"

text \<open>
  A read of some bytes on a connection. \<^const>\<open>None\<close> is an exception: of the \<^verbatim>\<open>any_cast\<close> of a
  context that is no request, or of the parser.
\<close>

definition http_read ::
  "HTTPServer \<Rightarrow> HTTPResponse \<Rightarrow> conn_id \<Rightarrow> string \<Rightarrow> http_system \<Rightarrow> (user_action list \<times> http_system) option" where
  "http_read S p c bytes Y =
     (case context_of Y c of
        None \<Rightarrow> None
      | Some ctx \<Rightarrow>
          (case http_server_onMessage S p ctx (codec_state Y) (buffer_of Y c @ bytes) of
             Some (http_end.Returned calls st buf) \<Rightarrow>
               Some (map (on_connection c) calls, Y\<lparr>codec_state := st, buffer_of := (buffer_of Y)(c := buf)\<rparr>)
           | _ \<Rightarrow> None))"

fun http_reads ::
  "HTTPServer \<Rightarrow> HTTPResponse \<Rightarrow> (conn_id \<times> string) list \<Rightarrow> http_system \<Rightarrow> (user_action list \<times> http_system) option" where
  "http_reads S p [] Y = Some ([], Y)"
| "http_reads S p ((c, bytes) # rs) Y =
     (case http_read S p c bytes Y of
        None \<Rightarrow> None
      | Some (as, Y1) \<Rightarrow>
          (case http_reads S p rs Y1 of None \<Rightarrow> None | Some (bs, Y2) \<Rightarrow> Some (as @ bs, Y2)))"

section \<open>simple\_http.cc\<close>

definition onHello :: string where
  "onHello = ''<h1>Hello ServerLite</h1>''"

definition onIndex :: string where
  "onIndex = ''<h1>ServerLite</h1>''"

definition onNotFound :: string where
  "onNotFound = ''<h1>404 Not Found</h1>''"

definition SimpleHttpServer :: "(string \<Rightarrow> bool) \<Rightarrow> (string \<Rightarrow> fs_entry) \<Rightarrow> HTTPServer" where
  "SimpleHttpServer ex fs =
     openFileMode (addNotFoundCallback onNotFound
       (addRouteCallback ''/'' GET onIndex (addRouteCallback ''/hello'' GET onHello (HTTPServer_ctor ex fs))))"

section \<open>Whole requests\<close>

text \<open>A request on a connection, its text, and what the server does about it.\<close>

datatype http_request = HttpRequest conn_id string string string "(string \<times> string) list"

fun request_text :: "http_request \<Rightarrow> conn_id \<times> string" where
  "request_text (HttpRequest c verb path version hs) =
     (c, request_line verb path version @ kCRLF @ header_text hs @ kCRLF)"

fun request_ok :: "http_system \<Rightarrow> http_request \<Rightarrow> bool" where
  "request_ok Y (HttpRequest c verb path version hs) =
     (line_ok verb path version \<and> list_all header_ok hs \<and> context_of Y c \<noteq> None \<and> buffer_of Y c = [])"

fun request_answer :: "HTTPServer \<Rightarrow> HTTPResponse \<Rightarrow> http_system \<Rightarrow> http_request \<Rightarrow> user_action list" where
  "request_answer S p Y (HttpRequest c verb path version hs) =
     map (on_connection c) (http_respond (http_onRequest S) p
       (fold (\<lambda>h. addHeader (fst h) (snd h)) hs
         ((the (context_of Y c))\<lparr>req_method := if verb = ''GET'' then GET else POST, req_path := path,
            req_version := version\<rparr>)))"

lemma http_read_request:
  assumes "codec_state Y = kRequestLine" "request_ok Y r"
  shows "http_read S p (fst (request_text r)) (snd (request_text r)) Y = Some (request_answer S p Y r, Y)"
proof (cases r)
  case (HttpRequest c verb path version hs)
  then obtain ctx where ctx: "context_of Y c = Some ctx" and ok: "line_ok verb path version" "list_all header_ok hs"
    and empty: "buffer_of Y c = []" using assms(2) by auto
  have same: "(buffer_of Y)(c := []) = buffer_of Y" using empty by (rule fun_upd_idem)
  have "Y\<lparr>codec_state := kRequestLine, buffer_of := buffer_of Y\<rparr> = Y" using assms(1) by simp
  then show ?thesis
    using http_request_parsed [OF ok, of "http_onRequest S" p ctx "[]"] assms(1)
    by (simp add: HttpRequest http_read_def http_server_onMessage_def ctx empty same)
qed

text \<open>
  C6. A server serves all its connections: from an idle parser, requests that arrive in one
  piece each, in any number and order and on any connections, are answered in that order,
  each on its own connection by the answer to exactly this request, and leave the parser and
  every buffer and context as they were.
\<close>

theorem http_requests_served:
  assumes "codec_state Y = kRequestLine" "list_all (request_ok Y) rs"
  shows "http_reads S p (map request_text rs) Y = Some (concat (map (request_answer S p Y) rs), Y)"
  using assms(2)
proof (induction rs)
  case (Cons r rs)
  then show ?case
    using http_read_request [OF assms(1), of r S p] by (cases "request_text r") simp
qed simp

section \<open>A request in two pieces\<close>

text \<open>A line without a colon, taken for a header field: its name is the whole line, its value empty.\<close>

lemma parseRequestHeader_no_colon:
  assumes "line \<noteq> []" "CHR '':'' \<notin> set line" "length line < npos"
  shows "parseRequestHeader q line = Some (False, addHeader line [] q)"
proof -
  have "find_first_of line CHR '':'' 0 = npos" using find_first_of_none [OF assms(2), of "[]"] by simp
  moreover have "sz_add npos 2 = 1" by (simp add: sz_add_def npos_def size_mod_def)
  moreover have "sz_sub (length line) (length line) = 0"
    using assms(3) npos_less by (simp add: sz_sub_small)
  moreover have "substr line 0 npos = Some line" "substr line 1 0 = Some []"
    using assms(1,3) by (cases line; simp add: substr_def)+
  ultimately show ?thesis using assms(1) by (simp add: parseRequestHeader_def)
qed

text \<open>
  The parser is shared: while only the request line of one connection has arrived, a whole
  request on another connection is taken for the header of the first. Its request line
  becomes a header field, and what is answered to it is not the request it made but the
  method, path and version of its context, which for a new connection are empty.
\<close>

theorem http_requests_mixed:
  assumes "codec_state Y = kRequestLine" "context_of Y a = Some x" "buffer_of Y a = []"
    and "context_of Y b = Some ctx" "buffer_of Y b = []"
    and "line_ok va pa ra" "line_ok vb pb rb" "CHR '':'' \<notin> set (request_line vb pb rb)" "list_all header_ok hs"
  shows "http_reads S p
      [(a, request_line va pa ra @ kCRLF), (b, request_line vb pb rb @ kCRLF @ header_text hs @ kCRLF)] Y =
    Some (map (on_connection b) (http_respond (http_onRequest S) p
      (fold (\<lambda>h. addHeader (fst h) (snd h)) hs (addHeader (request_line vb pb rb) [] ctx))), Y)"
proof -
  let ?line = "request_line vb pb rb" and ?cb = "http_onRequest S"
  have first: "http_onMessage ?cb p x kRequestLine (request_line va pa ra @ kCRLF) =
      Some (http_end.Returned [] kRequestHeaders [])"
    using http_split_request_lost [OF assms(6,9)] by blast
  have lf: "CHR 0x0A \<notin> set ?line" and ne: "?line \<noteq> []" and len: "length ?line < npos"
    using assms(7) by (auto simp: line_ok_def request_line_def)
  have "http_onMessage ?cb p ctx kRequestHeaders (?line @ kCRLF @ header_text hs @ kCRLF) =
      http_onMessage ?cb p (addHeader ?line [] ctx) kRequestHeaders (header_text hs @ kCRLF @ [])"
    unfolding http_onMessage_def http_loop_header [OF lf]
    by (simp add: parseRequestHeader_no_colon [OF ne assms(8) len])
  also have "\<dots> = Some (http_end.Returned (http_respond ?cb p
      (fold (\<lambda>h. addHeader (fst h) (snd h)) hs (addHeader ?line [] ctx))) kRequestLine [])"
    using http_split_request_lost [OF assms(6,9)] by blast
  finally have second: "http_onMessage ?cb p ctx kRequestHeaders (?line @ kCRLF @ header_text hs @ kCRLF) = \<dots>" .
  have same: "(buffer_of Y)(c := []) = buffer_of Y" if "buffer_of Y c = []" for c
    using that by (rule fun_upd_idem)
  have "Y\<lparr>codec_state := kRequestLine\<rparr> = Y" using assms(1) by simp
  then show ?thesis
    using assms(1-5) first second
    by (simp add: http_read_def http_server_onMessage_def same)
qed

section \<open>The simple server\<close>

text \<open>
  What the server of \<^verbatim>\<open>simple_http.cc\<close> answers: a \<^verbatim>\<open>GET\<close> of its two paths gets the page of
  this path, in every state of the file system, and any other request that names no file the
  page for paths not found; with \<^verbatim>\<open>Connection: close\<close> the connection is then shut down.
\<close>

lemma simple_http_pages:
  assumes "path \<notin> {''/'', ''/hello''} \<Longrightarrow> \<not> ex path"
  shows "let page = (if path = ''/'' then onIndex else if path = ''/hello'' then onHello else onNotFound);
      status = (if path \<in> {''/'', ''/hello''} then st_NOT_FOUND else s) in
    request_answer (SimpleHttpServer ex fs) (HTTPResponse_ctor s n)
        (HTTPServer_onConnection c True m Y) (HttpRequest c ''GET'' path version [(''Connection'', ''close'')]) =
      [ASend c (version @ '' '' @ to_string status @ '' '' @ statusToString status @ kCRLF @
         ''Content-Length: '' @ to_string (int (length page)) @ kCRLF @ ''Connection: close'' @ kCRLF @ kCRLF @ page),
       AShutdown c]"
  using assms
  by (auto simp: HTTPServer_onConnection_def HTTPRequest_ctor_def addHeader_def getHeader_def header_at_def
      http_respond_def response_toString_def HTTPResponse_ctor_def http_onRequest_def SimpleHttpServer_def
      openFileMode_def addNotFoundCallback_def addRouteCallback_def HTTPServer_ctor_def Let_def
      onIndex_def onHello_def onNotFound_def)

section \<open>Witnesses\<close>

definition two_clients :: http_system where
  "two_clients = HTTPServer_onConnection 2 True GET (HTTPServer_onConnection 4 True GET http_system_ctor)"

lemma two_clients_state:
  "codec_state two_clients = kRequestLine" "buffer_of two_clients c = []"
  "context_of two_clients 4 = Some (HTTPRequest_ctor GET)" "context_of two_clients 2 = Some (HTTPRequest_ctor GET)"
  by (simp_all add: two_clients_def HTTPServer_onConnection_def http_system_ctor_def HTTPCodec_ctor_def)

definition two_requests :: "http_request list" where
  "two_requests = [HttpRequest 2 ''GET'' ''/hello'' ''HTTP/1.1'' [(''Connection'', ''close'')],
     HttpRequest 4 ''GET'' ''/'' ''HTTP/1.1'' [(''Host'', ''a'')]]"

lemma hello_line: "line_ok ''GET'' ''/hello'' ''HTTP/1.1''" "header_ok (''Host'', ''a'')" "header_ok (''Connection'', ''close'')"
  by (simp_all add: line_ok_def request_line_def header_ok_def header_line_def npos_def size_mod_def)

theorem http_requests_served_witness:
  "let S = SimpleHttpServer (\<lambda>_. False) (\<lambda>_. OtherFile); p = HTTPResponse_ctor 0 0 in
   http_reads S p (map request_text two_requests) two_clients =
     Some (concat (map (request_answer S p two_clients) two_requests), two_clients)"
proof -
  have "list_all (request_ok two_clients) two_requests"
    using hello_line get_root_ok by (simp add: two_requests_def two_clients_state)
  from http_requests_served [OF two_clients_state(1) this] show ?thesis by (simp add: Let_def)
qed

theorem http_requests_mixed_witness:
  "\<exists>as. http_reads hello_server (HTTPResponse_ctor 0 0)
     [(4, request_line ''GET'' ''/'' ''HTTP/1.1'' @ kCRLF), (2, request_line ''GET'' ''/hello'' ''HTTP/1.1'' @ kCRLF @ header_text [] @ kCRLF)]
     two_clients = Some (as, two_clients)"
  by (rule exI, rule http_requests_mixed [OF two_clients_state(1,3,2,4,2) get_root_ok(1) hello_line(1)])
     (simp_all add: request_line_def)

end
