(* ===== verification/SimpleServers.thy ===== *)
theory SimpleServers
  imports ConnOwner CxxString
begin

text \<open>
  \<^verbatim>\<open>src/examples/simple_server.cc\<close> and \<^verbatim>\<open>echoserver.cc\<close>: the callbacks of small servers, as
  environments of the connections' model. \<open>close\<close> is the close callback of the \<^verbatim>\<open>TCPServer\<close>.
  The lemmas follow one call of the library into the callback and back: what an echo server
  does with the bytes it reads, how a daytime server sends its text and closes behind it, and
  what a character generator sends.
\<close>

section \<open>simple\_server.cc\<close>

definition echo_env :: "(conn_id \<Rightarrow> 'z net_world_scheme \<Rightarrow> 'z net_world_scheme) \<Rightarrow> 'z net_world_scheme conn_env" where
  "echo_env close = (default_env close)\<lparr>onMessage :=
     (\<lambda>c t w. [ASend c (recvBuffer (conns w c)), ASetBuffer c []])\<rparr>"

definition discard_env :: "(conn_id \<Rightarrow> 'z net_world_scheme \<Rightarrow> 'z net_world_scheme) \<Rightarrow> 'z net_world_scheme conn_env" where
  "discard_env close = (default_env close)\<lparr>onMessage := (\<lambda>c t w. [ASetBuffer c []])\<rparr>"

text \<open>\<open>now\<close> is the text that \<^verbatim>\<open>strftime\<close> makes of the local time.\<close>

definition daytime_env ::
  "string \<Rightarrow> (conn_id \<Rightarrow> 'z net_world_scheme \<Rightarrow> 'z net_world_scheme) \<Rightarrow> 'z net_world_scheme conn_env" where
  "daytime_env now close = (default_env close)\<lparr>onConnection :=
     (\<lambda>c w. if connected c w then [ASend c now, AShutdown c] else [])\<rparr>"

text \<open>The seconds as an \<^verbatim>\<open>int32_t\<close>, its bytes swapped (a little-endian machine), as decimal text.\<close>

definition htobe32 :: "32 word \<Rightarrow> 32 word" where
  "htobe32 v = push_bit 24 (v AND 0xFF) OR push_bit 8 (v AND 0xFF00) OR
     (drop_bit 8 v AND 0xFF00) OR drop_bit 24 v"

definition time_env ::
  "int \<Rightarrow> (conn_id \<Rightarrow> 'z net_world_scheme \<Rightarrow> 'z net_world_scheme) \<Rightarrow> 'z net_world_scheme conn_env" where
  "time_env now close = (default_env close)\<lparr>onConnection :=
     (\<lambda>c w. if connected c w then [ASend c (to_string (sint (htobe32 (word_of_int now)))), AShutdown c] else [])\<rparr>"

definition createMessage :: string where
  "createMessage =
     (let line = map char_of [33..<127 :: nat]; line2 = line @ line
      in concat (map (\<lambda>i. take 72 (drop i line2) @ [CHR 0x0A]) [0..<127 - 33]))"

definition chargen_env :: "(conn_id \<Rightarrow> 'z net_world_scheme \<Rightarrow> 'z net_world_scheme) \<Rightarrow> 'z net_world_scheme conn_env" where
  "chargen_env close = (default_env close)\<lparr>
     onConnection := (\<lambda>c w. if connected c w then [ASend c createMessage] else []),
     onWriteComplete := (\<lambda>c w. if connected c w then [ASend c createMessage] else [])\<rparr>"

section \<open>echoserver.cc\<close>

definition echoserver_env ::
  "loop_id \<Rightarrow> (conn_id \<Rightarrow> 'z net_world_scheme \<Rightarrow> 'z net_world_scheme) \<Rightarrow> 'z net_world_scheme conn_env" where
  "echoserver_env l close = (default_env close)\<lparr>
     onConnection := (\<lambda>c w. [ASend c (''hello'' @ [CHR 0x0A])]),
     onMessage := (\<lambda>c t w.
       let msg = recvBuffer (conns w c) in
       [ASetBuffer c []] @
       (if msg = ''exit'' @ [CHR 0x0A] then [ASend c (''bye'' @ [CHR 0x0A]), AShutdown c] else []) @
       (if msg = ''quit'' @ [CHR 0x0A] then [AQuit l] else []) @
       [ASend c msg])\<rparr>"

section \<open>Calls from a connection's own loop\<close>

lemma conn_send_in_loop:
  "isInLoopThread (conn_loop (conns w c)) w \<Longrightarrow> conn_send c data w = sendInLoop c data w"
  by (simp add: conn_send_def)

lemma sendInLoop_other_fields:
  "conn_state (conns (sendInLoop c data w) d) = conn_state (conns w d)"
  "conn_loop (conns (sendInLoop c data w) d) = conn_loop (conns w d)"
  "recvBuffer (conns (sendInLoop c data w) d) = recvBuffer (conns w d)"
  by (cases "gives_up c data w"; simp add: sendInLoop_gives_up sendInLoop_takes)+

lemma in_loop_more [simp]:
  "isInLoopThread l (assertInLoopThread m w) = isInLoopThread l w" "isInLoopThread l (check b a w) = isInLoopThread l w"
  "isInLoopThread l (upd_conn c g w) = isInLoopThread l w" "isInLoopThread l (log e w) = isInLoopThread l w"
  "isInLoopThread l (pop_reply w) = isInLoopThread l w" "isInLoopThread l (conn_setState s c w) = isInLoopThread l w"
  "isInLoopThread l (set_events h ch w) = isInLoopThread l w" "isInLoopThread l (upd_chan ch k w) = isInLoopThread l w"
  by (simp_all add: isInLoopThread_def frame)

lemma in_loop_enableRecv [simp]:
  fixes w :: "'z net_world_scheme"
  shows "isInLoopThread l (enableRecv ch w) = isInLoopThread l w"
  by (simp add: enableRecv_def)

lemma next_reply_more [simp]:
  "next_reply (assertInLoopThread l w) = next_reply w" "next_reply (check b a w) = next_reply w"
  "next_reply (upd_conn c g w) = next_reply w" "next_reply (log e w) = next_reply w"
  "next_reply (conn_setState s c w) = next_reply w" "next_reply (set_events h ch w) = next_reply w"
  "next_reply (upd_chan ch k w) = next_reply w"
  "pop_reply (log e w) = log e (pop_reply w)"
  by (simp_all add: next_reply_def pop_reply_def log_def)

lemma next_reply_enableRecv [simp]:
  fixes w :: "'z net_world_scheme"
  shows "next_reply (enableRecv ch w) = next_reply w"
  by (simp add: enableRecv_def)

text \<open>
  An echo server sends back what it reads: a read of some bytes on a connection that is
  not disconnected adds exactly these bytes to what was sent and what is buffered for
  sending, whatever the kernel takes of them, unless the socket is broken, and leaves the
  receive buffer empty for the next read.
\<close>

theorem echo_sends_back:
  assumes "next_reply w = Done n bs" "bs \<noteq> []" "length bs \<le> recv_size" "recvBuffer (conns w c) = []"
    and "conn_state (conns w c) \<noteq> DISCONNECTED" "isInLoopThread (conn_loop (conns w c)) w"
    and "next_reply (pop_reply w) \<notin> {Failed EPIPE, Failed ECONNRESET}"
  shows "let w' = handleRecv (echo_env close) c t w in
     sent_bytes c (trace w') @ sendBuffer (conns w' c) = sent_bytes c (trace w) @ sendBuffer (conns w c) @ bs \<and>
     recvBuffer (conns w' c) = [] \<and> conn_state (conns w' c) = conn_state (conns w c)"
proof -
  define v where "v = log (MessageCalled c t) (upd_conn c (\<lambda>n. n\<lparr>recvBuffer := recvBuffer n @ bs\<rparr>)
    (pop_reply (check (isRecving (chan_of c w)) NotRecving (assertInLoopThread (conn_loop (conns w c)) w))))"
  have w': "handleRecv (echo_env close) c t w =
      upd_conn c (\<lambda>n. n\<lparr>recvBuffer := []\<rparr>) (sendInLoop c bs v)"
    using assms(1-4,6) by (simp add: handleRecv_def Let_def handle_recv_def messageCallback_def echo_env_def
        default_env_def run_action_def conn_send_def min_def v_def)
  have reply: "next_reply v = next_reply (pop_reply w)"
    by (simp add: v_def) (simp add: next_reply_def pop_reply_def)
  have v: "conn_state (conns v c) = conn_state (conns w c)" "sendBuffer (conns v c) = sendBuffer (conns w c)"
    "sent_bytes c (trace v) = sent_bytes c (trace w)"
    by (simp_all add: v_def)
  have "\<not> gives_up c bs v" using assms(5,7) by (auto simp: gives_up_def v reply)
  from sendInLoop_stream [OF this] show ?thesis
    by (simp add: w' Let_def v sendInLoop_other_fields)
qed

lemma run_action_simps:
  "run_action (ASend c d) w = conn_send c d w" "run_action (AShutdown c) w = shutdown c w"
  "run_action (AForceClose c) w = forceClose c w"
  by (simp_all add: run_action_def)

lemma in_loop_sendInLoop:
  "isInLoopThread l (sendInLoop c data w) = isInLoopThread l w"
  by (rule queues_grow_thread) (simp add: queues_grow_send)

text \<open>
  Sending and then shutting down, from the connection's own loop: the data are all the
  connection has to send, and it is half-closed at once exactly when nothing of them is left.
\<close>

lemma send_shutdown:
  assumes "conn_state (conns v c) = CONNECTED" "sendBuffer (conns v c) = []" "\<not> isSending (chan_of c v)"
    and "isInLoopThread (conn_loop (conns v c)) v" "next_reply v \<notin> {Failed EPIPE, Failed ECONNRESET}"
  shows "let w' = shutdown c (conn_send c data v); rest = sendBuffer (conns w' c) in
     sent_bytes c (trace w') @ rest = sent_bytes c (trace v) @ data \<and>
     conn_state (conns w' c) = DISCONNECTING \<and>
     (last (trace w') = HalfClosed c) = (rest = []) \<and> isSending (chan_of c w') = (rest \<noteq> []) \<and>
     recvBuffer (conns w' c) = recvBuffer (conns v c)"
proof -
  have taken: "\<not> gives_up c data v" using assms(1,5) by (simp add: gives_up_def)
  define u where "u = conn_setState DISCONNECTING c (sendInLoop c data v)"
  have "conn_loop (conns (sendInLoop c data v) c) = conn_loop (conns v c)"
    "conn_state (conns (sendInLoop c data v) c) = CONNECTED"
    by (simp_all add: sendInLoop_other_fields assms(1))
  then have w': "shutdown c (conn_send c data v) = shutdownInLoop c u"
    using assms(4) by (simp add: conn_send_in_loop shutdown_def runTask_def in_loop_sendInLoop u_def)
  let ?n = "sent_now c data v"
  have u: "sendBuffer (conns u c) = drop ?n data" "isSending (chan_of c u) = (?n < length data)"
    "conn_state (conns u c) = DISCONNECTING" "trace u \<noteq> []" "last (trace u) = Taken c data"
    "sent_bytes c (trace u) @ drop ?n data = sent_bytes c (trace v) @ data"
    "recvBuffer (conns u c) = recvBuffer (conns v c)"
    using sendInLoop_takes [OF taken] sendInLoop_stream [OF taken] assms(2,3) by (simp_all add: u_def)
  show ?thesis unfolding w' using u by (cases "?n < length data") (simp_all add: shutdownInLoop_def Let_def)
qed

text \<open>
  A daytime server sends its text and closes behind it: when a connection is established
  in its loop, whatever the kernel takes of the text, the text is all that the connection
  has to send, it starts to shut down, and the socket is half-closed at once exactly when
  nothing of the text is left in the buffer; otherwise it stays open, with write interest on.
\<close>

theorem daytime_closes_behind_text:
  assumes "isInLoopThread (conn_loop (conns w c)) w" "sendBuffer (conns w c) = []" "\<not> isSending (chan_of c w)"
    and "next_reply w \<notin> {Failed EPIPE, Failed ECONNRESET}"
  shows "let w' = connectEstablished (daytime_env now close) c w; rest = sendBuffer (conns w' c) in
     sent_bytes c (trace w') @ rest = sent_bytes c (trace w) @ now \<and>
     conn_state (conns w' c) = DISCONNECTING \<and>
     (last (trace w') = HalfClosed c) = (rest = []) \<and> isSending (chan_of c w') = (rest \<noteq> [])"
proof -
  define v where "v = log (ConnCalled c True) (upd_chan (ConnChan c) (tie c) (enableRecv (ConnChan c) (conn_setState CONNECTED c w)))"
  have v: "conn_state (conns v c) = CONNECTED" "sendBuffer (conns v c) = []" "\<not> isSending (chan_of c v)"
    "isInLoopThread (conn_loop (conns v c)) v" "next_reply v = next_reply w" "sent_bytes c (trace v) = sent_bytes c (trace w)"
    using assms by (simp_all add: v_def)
  have "connectEstablished (daytime_env now close) c w = shutdown c (conn_send c now v)"
    by (simp add: connectEstablished_def Let_def connectionCallback_def daytime_env_def default_env_def
        run_action_simps connected_def v_def)
  then show ?thesis
    using send_shutdown [of v c now] v assms(4) by (simp add: Let_def)
qed

section \<open>The text of the character generator\<close>

text \<open>The 94 printable characters, 72 to a line, each line starting one character later.\<close>

definition chargen_line :: "nat \<Rightarrow> string" where
  "chargen_line i = map (\<lambda>j. char_of (33 + (i + j) mod 94)) [0..<72] @ [CHR 0x0A]"

lemma createMessage_lines: "createMessage = concat (map chargen_line [0..<94])"
proof -
  define line where "line = map char_of [33..<127 :: nat]"
  have len: "length line = 94" by (simp add: line_def del: upt_rec_numeral)
  have one: "line ! k = char_of (33 + k)" if "k < 94" for k
    using that by (simp add: line_def del: upt_rec_numeral)
  have at: "(line @ line) ! k = char_of (33 + k mod 94)" if "k < 188" for k
  proof (cases "k < 94")
    case True
    then show ?thesis by (simp add: nth_append len one)
  next
    case False
    then have "k mod 94 = k - 94" using that by (simp add: mod_if)
    then show ?thesis using that False by (simp add: nth_append len one)
  qed
  have "take 72 (drop i (line @ line)) @ [CHR 0x0A] = chargen_line i" if "i < 94" for i
  proof -
    define two where "two = line @ line"
    have two: "length two = 188" by (simp add: two_def len)
    have nth: "two ! (i + j) = char_of (33 + (i + j) mod 94)" if "j < 72" for j
      using at [of "i + j"] that \<open>i < 94\<close> by (simp add: two_def)
    have "take 72 (drop i two) = map (\<lambda>j. char_of (33 + (i + j) mod 94)) [0..<72]"
      using that by (intro nth_equalityI) (simp_all add: two nth del: upt_rec_numeral)
    then have "take 72 (drop i (line @ line)) = map (\<lambda>j. char_of (33 + (i + j) mod 94)) [0..<72]"
      by (simp only: two_def)
    then show ?thesis by (simp add: chargen_line_def)
  qed
  then have "map (\<lambda>i. take 72 (drop i (line @ line)) @ [CHR 0x0A]) [0..<94] = map chargen_line [0..<94]"
    by (intro map_cong) (auto simp del: upt_rec_numeral)
  moreover have "127 - 33 = (94 :: nat)" by simp
  ultimately show ?thesis unfolding createMessage_def Let_def line_def by (simp only:)
qed

lemma createMessage_length: "length createMessage = 6862"
proof -
  have "length (concat (map chargen_line is)) = 73 * length is" for "is"
    by (induction "is") (simp_all add: chargen_line_def)
  from this [of "[0..<94]"] show ?thesis by (simp add: createMessage_lines del: upt_rec_numeral)
qed

section \<open>Witnesses\<close>

definition open_conn :: "reply list \<Rightarrow> net_world" where
  "open_conn rs = conn_setState CONNECTED 5 (boot_net rs)"

theorem echo_sends_back_witness:
  "let w' = handleRecv (echo_env (\<lambda>c w. w)) 5 0 (open_conn [Done 3 ''abc'', Done 1 []]) in
     sent_bytes 5 (trace w') @ sendBuffer (conns w' 5) = ''abc'' \<and>
     recvBuffer (conns w' 5) = [] \<and> conn_state (conns w' 5) = CONNECTED"
proof -
  have "next_reply (open_conn [Done 3 ''abc'', Done 1 []]) = Done 3 ''abc''"
    "next_reply (pop_reply (open_conn [Done 3 ''abc'', Done 1 []])) \<notin> {Failed EPIPE, Failed ECONNRESET}"
    by (simp_all add: open_conn_def conn_setState_def upd_conn_def boot_net_def next_reply_def pop_reply_def)
  from echo_sends_back [OF this(1) _ _ _ _ _ this(2), of 5 "\<lambda>c w. w" 0] show ?thesis
    by (simp add: recv_size_def open_conn_def boot_net_def boot_loop_def isInLoopThread_def)
qed

theorem daytime_closes_behind_text_witness:
  "let w' = connectEstablished (daytime_env ''now'' (\<lambda>c w. w)) 5 (boot_net [Done 1 []]); rest = sendBuffer (conns w' 5) in
     sent_bytes 5 (trace w') @ rest = ''now'' \<and> conn_state (conns w' 5) = DISCONNECTING \<and>
     (last (trace w') = HalfClosed 5) = (rest = []) \<and> isSending (chan_of 5 w') = (rest \<noteq> [])"
  using daytime_closes_behind_text [of "boot_net [Done 1 []]" 5 "''now''" "\<lambda>c w. w"]
  by (simp add: boot_net_def boot_loop_def isInLoopThread_def next_reply_def Channel_ctor_def isSending_def NoneEvent_def)

end
