(* ===== verification/QueryServer.thy ===== *)
theory QueryServer
  imports ProtobufCodec ProtobufDispatcher SimpleServers
begin

text \<open>
  \<^verbatim>\<open>src/examples/protobuf_server.cc\<close> and \<^verbatim>\<open>protobuf_client.cc\<close>, with \<^verbatim>\<open>send\<close> and
  \<^verbatim>\<open>defaultErrorCallback\<close> of \<^verbatim>\<open>ProtobufCodec\<close>: the codec, the dispatcher and the connection
  put together. A callback of the dispatcher appends the actions it takes on the connection to
  a list; log output is left out. The codec hands each message on before it looks at the next
  frame, and no callback looks at the buffer, so the actions of all messages of a read come
  first and the buffer is set at the end.
\<close>

section \<open>Messages of \<^verbatim>\<open>query.proto\<close>\<close>

record Query =
  query_id :: "64 word"
  query_questioner :: string
  query_question :: "string list"

record Answer =
  answer_id :: "64 word"
  answer_questioner :: string
  answer_answerer :: string
  answer_solution :: "string list"

record Empty =
  empty_id :: "32 word option"

datatype query_msg = QueryMsg Query | AnswerMsg Answer | EmptyMsg Empty

datatype descriptor = QueryD | AnswerD | EmptyD

fun GetDescriptor :: "query_msg \<Rightarrow> descriptor" where
  "GetDescriptor (QueryMsg q) = QueryD"
| "GetDescriptor (AnswerMsg a) = AnswerD"
| "GetDescriptor (EmptyMsg e) = EmptyD"

section \<open>The codec on a connection\<close>

definition codec_send :: "'m proto \<Rightarrow> conn_id \<Rightarrow> 'm \<Rightarrow> user_action list" where
  "codec_send P c message = [ASend c (fillEmptyBuffer P message)]"

definition defaultErrorCallback ::
  "conn_id \<Rightarrow> ErrorCode \<Rightarrow> 'z net_world_scheme \<Rightarrow> 'z net_world_scheme" where
  "defaultErrorCallback c e w = (if connected c w then shutdown c w else w)"

text \<open>\<^verbatim>\<open>shutdown\<close> makes the same test.\<close>

lemma defaultErrorCallback_action: "defaultErrorCallback c e w = run_action (AShutdown c) w"
  by (simp add: defaultErrorCallback_def connected_def run_action_def shutdown_def)

text \<open>
  The callbacks of a codec with its default error callback, on the messages and the error of
  one call of \<^const>\<open>codec_onMessage\<close>, in their order.
\<close>

definition codec_deliver ::
  "('m, user_action list) message_callback \<Rightarrow> conn_id \<Rightarrow> int \<Rightarrow> 'm list \<times> ErrorCode option \<times> bytes \<Rightarrow>
   user_action list" where
  "codec_deliver cb c t out =
     (case out of (ms, e, r) \<Rightarrow>
        fold (\<lambda>m. cb c m t) ms [] @ (case e of None \<Rightarrow> [] | Some _ \<Rightarrow> [AShutdown c]))"

section \<open>The server\<close>

definition the_answer :: Answer where
  "the_answer = \<lparr>answer_id = 1, answer_questioner = ''Chen Shuo'',
     answer_answerer = ''blog.csdn.net/Solstice'', answer_solution = [''Jump!'', ''Win!'']\<rparr>"

definition server_onQuery :: "query_msg proto \<Rightarrow> (query_msg, user_action list) message_callback" where
  "server_onQuery P c message t as = as @ codec_send P c (AnswerMsg the_answer) @ [AShutdown c]"

definition server_onAnswer :: "(query_msg, user_action list) message_callback" where
  "server_onAnswer c message t as = as @ [AShutdown c]"

definition server_onUnknownMessage :: "(query_msg, user_action list) message_callback" where
  "server_onUnknownMessage c message t as = as @ [AShutdown c]"

definition QueryServer_dispatcher ::
  "query_msg proto \<Rightarrow> (descriptor, query_msg, user_action list) dispatcher" where
  "QueryServer_dispatcher P =
     fold registerMessageCallback [(QueryD, server_onQuery P), (AnswerD, server_onAnswer)]
       (ProtobufDispatcher_ctor server_onUnknownMessage)"

definition QueryServer_onMessage ::
  "query_msg proto \<Rightarrow> conn_id \<Rightarrow> int \<Rightarrow> bytes \<Rightarrow> user_action list" where
  "QueryServer_onMessage P c t buf =
     codec_deliver (onProtobufMessage GetDescriptor (QueryServer_dispatcher P)) c t (codec_onMessage P buf) @
     [ASetBuffer c (snd (snd (codec_onMessage P buf)))]"

text \<open>The environment of the server's connections; its connection callback only logs.\<close>

definition query_env ::
  "query_msg proto \<Rightarrow> (conn_id \<Rightarrow> 'z net_world_scheme \<Rightarrow> 'z net_world_scheme) \<Rightarrow> 'z net_world_scheme conn_env" where
  "query_env P close = (default_env close)\<lparr>onMessage :=
     (\<lambda>c t w. QueryServer_onMessage P c t (recvBuffer (conns w c)))\<rparr>"

section \<open>The client\<close>

text \<open>What the client's callbacks log of a message.\<close>

datatype client_log = LogAnswer query_msg | LogEmpty query_msg | LogUnknown query_msg

definition QueryClient_onConnection ::
  "query_msg proto \<Rightarrow> query_msg \<Rightarrow> loop_id \<Rightarrow> bool \<Rightarrow> conn_id \<Rightarrow> user_action list" where
  "QueryClient_onConnection P messageToSend l up c =
     (if up then codec_send P c messageToSend else [AQuit l])"

definition QueryClient_dispatcher :: "(descriptor, query_msg, client_log list) dispatcher" where
  "QueryClient_dispatcher =
     fold registerMessageCallback
       [(AnswerD, \<lambda>c m t ls. ls @ [LogAnswer m]), (EmptyD, \<lambda>c m t ls. ls @ [LogEmpty m])]
       (ProtobufDispatcher_ctor (\<lambda>c m t ls. ls @ [LogUnknown m]))"

definition client_query :: Query where
  "client_query = \<lparr>query_id = 1, query_questioner = ''Chen Shuo'', query_question = [''Running?'']\<rparr>"

definition QueryClient_onMessage ::
  "query_msg proto \<Rightarrow> conn_id \<Rightarrow> int \<Rightarrow> bytes \<Rightarrow> client_log list \<times> user_action list" where
  "QueryClient_onMessage P c t buf =
     (case codec_onMessage P buf of (ms, e, r) \<Rightarrow>
        (fold (\<lambda>m. onProtobufMessage GetDescriptor QueryClient_dispatcher c m t) ms [],
         (case e of None \<Rightarrow> [] | Some _ \<Rightarrow> [AShutdown c]) @ [ASetBuffer c r]))"

section \<open>What the callbacks do with a message\<close>

definition reply :: "query_msg proto \<Rightarrow> conn_id \<Rightarrow> query_msg \<Rightarrow> user_action list" where
  "reply P c m =
     (case m of QueryMsg q \<Rightarrow> [ASend c (fillEmptyBuffer P (AnswerMsg the_answer)), AShutdown c] | _ \<Rightarrow> [AShutdown c])"

definition client_says :: "query_msg \<Rightarrow> client_log" where
  "client_says m = (case m of QueryMsg q \<Rightarrow> LogUnknown m | AnswerMsg a \<Rightarrow> LogAnswer m | EmptyMsg e \<Rightarrow> LogEmpty m)"

lemmas dispatch_defs = onProtobufMessage_def registerMessageCallback_def CallbackT_onMessage_def ProtobufDispatcher_ctor_def

lemma server_dispatch:
  "onProtobufMessage GetDescriptor (QueryServer_dispatcher P) c m t = (\<lambda>as. as @ reply P c m)"
  by (rule ext, cases m) (simp_all add: QueryServer_dispatcher_def dispatch_defs reply_def server_onQuery_def
      server_onAnswer_def server_onUnknownMessage_def codec_send_def)

lemma client_dispatch:
  "onProtobufMessage GetDescriptor QueryClient_dispatcher c m t = (\<lambda>ls. ls @ [client_says m])"
  by (rule ext, cases m) (simp_all add: QueryClient_dispatcher_def dispatch_defs client_says_def)

lemma server_delivers:
  "codec_deliver (onProtobufMessage GetDescriptor (QueryServer_dispatcher P)) c t (ms, e, r) =
     concat (map (reply P c) ms) @ (case e of None \<Rightarrow> [] | Some _ \<Rightarrow> [AShutdown c])"
  using fold_appends [of "reply P c" ms "[]"] by (simp add: codec_deliver_def server_dispatch)

lemma client_delivers:
  "QueryClient_onMessage P c t buf =
     (case codec_onMessage P buf of (ms, e, r) \<Rightarrow>
        (map client_says ms, (case e of None \<Rightarrow> [] | Some _ \<Rightarrow> [AShutdown c]) @ [ASetBuffer c r]))"
  by (auto simp: QueryClient_onMessage_def client_dispatch fold_append_map split: prod.split)

section \<open>A connection over its reads\<close>

text \<open>The actions of successive reads, and which of them the peer notices.\<close>

fun server_reads :: "query_msg proto \<Rightarrow> conn_id \<Rightarrow> int \<Rightarrow> bytes \<Rightarrow> bytes list \<Rightarrow> user_action list" where
  "server_reads P c t buf [] = []"
| "server_reads P c t buf (r # rs) =
     QueryServer_onMessage P c t (buf @ r) @
     server_reads P c t (snd (snd (codec_onMessage P (buf @ r)))) rs"

fun client_reads :: "query_msg proto \<Rightarrow> conn_id \<Rightarrow> int \<Rightarrow> bytes \<Rightarrow> bytes list \<Rightarrow> client_log list" where
  "client_reads P c t buf [] = []"
| "client_reads P c t buf (r # rs) =
     fst (QueryClient_onMessage P c t (buf @ r)) @
     client_reads P c t (snd (snd (codec_onMessage P (buf @ r)))) rs"

fun noticed :: "user_action \<Rightarrow> bool" where
  "noticed (ASetBuffer c bs) = False"
| "noticed a = True"

lemma noticed_reply: "filter noticed (concat (map (reply P c) ms)) = concat (map (reply P c) ms)"
  by (induction ms) (auto simp: reply_def split: query_msg.split)

lemma reads_of_feed:
  assumes "feed (codec_onMessage P) buf reads = (ms, None, r)"
  shows "filter noticed (server_reads P c t buf reads) = concat (map (reply P c) ms) \<and>
    client_reads P c t buf reads = map client_says ms"
  using assms
proof (induction reads arbitrary: buf ms)
  case Nil
  then show ?case by simp
next
  case (Cons x xs)
  obtain ms1 e r1 where out: "codec_onMessage P (buf @ x) = (ms1, e, r1)" by (cases "codec_onMessage P (buf @ x)")
  obtain ms2 where more: "e = None" "feed (codec_onMessage P) r1 xs = (ms2, None, r)" "ms = ms1 @ ms2"
    using Cons.prems by (auto simp: out split: option.splits prod.splits)
  show ?case
    using Cons.IH [OF more(2)] more(1,3) out
    by (simp add: QueryServer_onMessage_def server_delivers client_delivers noticed_reply)
qed

section \<open>Properties\<close>

text \<open>
  C7. A query is answered, from the client's connection callback to its message callback: the
  client sends its query when it is connected; however the network cuts it, the server answers
  with the one encoded answer and then shuts down, and does nothing else; and however the
  network cuts these bytes, the client's callback for answers is called once, with this
  answer, and no other callback is.
\<close>

theorem query_exchange:
  assumes "codec_ok P (QueryMsg client_query)" "codec_ok P (AnswerMsg the_answer)"
    and "concat there = fillEmptyBuffer P (QueryMsg client_query)"
    and "concat back = fillEmptyBuffer P (AnswerMsg the_answer)"
  shows "QueryClient_onConnection P (QueryMsg client_query) l True c = [ASend c (concat there)] \<and>
    filter noticed (server_reads P d t [] there) = [ASend d (concat back), AShutdown d] \<and>
    client_reads P c u [] back = [LogAnswer (AnswerMsg the_answer)]"
proof -
  have none: "codec_front P [] = Incomplete"
    by (simp add: codec_front_def kMinMessageLen_def kHeaderLen_def Let_def)
  have "feed (codec_onMessage P) [] there = ([QueryMsg client_query], None, [])"
    "feed (codec_onMessage P) [] back = ([AnswerMsg the_answer], None, [])"
    by (rule codec.stream_roundtrip [OF _ none]; use assms none in simp)+
  from reads_of_feed [OF this(1), of d t] reads_of_feed [OF this(2), of c u] show ?thesis
    using assms(3,4) by (simp add: QueryClient_onConnection_def codec_send_def reply_def client_says_def)
qed

text \<open>
  C12. On the connection: when the last bytes of a query arrive, whatever the kernel takes of
  the answer, the encoded answer is all the connection has to send, it is shutting down, and
  its socket is half-closed at once exactly when nothing of the answer is left to send; the
  receive buffer is empty.
\<close>

theorem query_server_closes:
  assumes "codec_ok P (QueryMsg q)" "recvBuffer (conns w c) @ bs = fillEmptyBuffer P (QueryMsg q)"
    and "next_reply w = Done n bs" "bs \<noteq> []" "length bs \<le> recv_size"
    and "conn_state (conns w c) = CONNECTED" "sendBuffer (conns w c) = []" "\<not> isSending (chan_of c w)"
    and "isInLoopThread (conn_loop (conns w c)) w"
    and "next_reply (pop_reply w) \<notin> {Failed EPIPE, Failed ECONNRESET}"
  shows "let w' = handleRecv (query_env P close) c t w; rest = sendBuffer (conns w' c) in
     sent_bytes c (trace w') @ rest = sent_bytes c (trace w) @ fillEmptyBuffer P (AnswerMsg the_answer) \<and>
     conn_state (conns w' c) = DISCONNECTING \<and> (last (trace w') = HalfClosed c) = (rest = []) \<and>
     recvBuffer (conns w' c) = []"
proof -
  define v where "v = log (MessageCalled c t) (upd_conn c (\<lambda>n. n\<lparr>recvBuffer := recvBuffer n @ bs\<rparr>)
    (pop_reply (check (isRecving (chan_of c w)) NotRecving (assertInLoopThread (conn_loop (conns w c)) w))))"
  have v: "conn_state (conns v c) = CONNECTED" "sendBuffer (conns v c) = []" "\<not> isSending (chan_of c v)"
    "isInLoopThread (conn_loop (conns v c)) v" "next_reply v = next_reply (pop_reply w)"
    "sent_bytes c (trace v) = sent_bytes c (trace w)" "recvBuffer (conns v c) = fillEmptyBuffer P (QueryMsg q)"
    using assms(2,6-9) by (simp_all add: v_def) (simp add: next_reply_def pop_reply_def)
  have none: "codec_onMessage P [] = ([], None, [])"
    by (subst codec_onMessage.simps) (simp add: kMinMessageLen_def kHeaderLen_def)
  have "codec_onMessage P (fillEmptyBuffer P (QueryMsg q)) = ([QueryMsg q], None, [])"
    using codec_front_encoded [OF assms(1), of "[]"] by (simp add: codec_onMessage_front [of P "fillEmptyBuffer P (QueryMsg q)"] none)
  then have "handleRecv (query_env P close) c t w =
      upd_conn c (\<lambda>n. n\<lparr>recvBuffer := []\<rparr>)
        (shutdown c (conn_send c (fillEmptyBuffer P (AnswerMsg the_answer)) v))"
    using assms(2-5) by (simp add: handleRecv_def Let_def handle_recv_def messageCallback_def query_env_def
        default_env_def QueryServer_onMessage_def server_delivers reply_def run_action_def min_def v_def)
  then show ?thesis
    using send_shutdown [of v c "fillEmptyBuffer P (AnswerMsg the_answer)"] v assms(10)
    by (simp add: Let_def)
qed

section \<open>Witnesses\<close>

text \<open>A library with these three types, whose encoding is the first letter of the type.\<close>

definition query_type :: "query_msg \<Rightarrow> string" where
  "query_type m = (case m of QueryMsg q \<Rightarrow> ''slite.Query'' | AnswerMsg a \<Rightarrow> ''slite.Answer'' | EmptyMsg e \<Rightarrow> ''slite.Empty'')"

definition query_proto :: "query_msg proto" where
  "query_proto = \<lparr>GetTypeName = query_type,
     serialize = (\<lambda>m. case m of QueryMsg q \<Rightarrow> ''Q'' | AnswerMsg a \<Rightarrow> ''A'' | EmptyMsg e \<Rightarrow> ''''),
     registered = (\<lambda>t. t \<in> {''slite.Query'', ''slite.Answer'', ''slite.Empty''}),
     ParseFromArray = (\<lambda>t bs. if bs = ''Q'' then Some (QueryMsg client_query)
        else if bs = ''A'' then Some (AnswerMsg the_answer) else None),
     adler32 = adler_of\<rparr>"

lemma query_proto_ok: "codec_ok query_proto (QueryMsg client_query)" "codec_ok query_proto (AnswerMsg the_answer)"
  by (simp_all add: codec_ok_def query_proto_def query_type_def kHeaderLen_def kMaxMessageLen_def)

theorem query_exchange_witness:
  "let query = fillEmptyBuffer query_proto (QueryMsg client_query);
       answer = fillEmptyBuffer query_proto (AnswerMsg the_answer) in
   filter noticed (server_reads query_proto 2 0 [] [take 9 query, drop 9 query]) = [ASend 2 answer, AShutdown 2] \<and>
   client_reads query_proto 1 0 [] [answer] = [LogAnswer (AnswerMsg the_answer)]"
  using query_exchange [OF query_proto_ok, of "[take 9 (fillEmptyBuffer query_proto (QueryMsg client_query)),
      drop 9 (fillEmptyBuffer query_proto (QueryMsg client_query))]"
      "[fillEmptyBuffer query_proto (AnswerMsg the_answer)]"]
  by (simp add: Let_def)

theorem query_server_closes_witness:
  "let query = fillEmptyBuffer query_proto (QueryMsg client_query);
       w' = handleRecv (query_env query_proto (\<lambda>c w. w)) 5 0 (open_conn [Done 1 query, Done 4 []]);
       rest = sendBuffer (conns w' 5) in
     sent_bytes 5 (trace w') @ rest = fillEmptyBuffer query_proto (AnswerMsg the_answer) \<and>
     conn_state (conns w' 5) = DISCONNECTING \<and> (last (trace w') = HalfClosed 5) = (rest = []) \<and>
     recvBuffer (conns w' 5) = []"
proof -
  let ?query = "fillEmptyBuffer query_proto (QueryMsg client_query)"
  let ?w = "open_conn [Done 1 ?query, Done 4 []]"
  have "recvBuffer (conns ?w 5) @ ?query = ?query" "next_reply ?w = Done 1 ?query"
    "next_reply (pop_reply ?w) \<notin> {Failed EPIPE, Failed ECONNRESET}"
    by (simp_all add: open_conn_def conn_setState_def upd_conn_def boot_net_def next_reply_def pop_reply_def)
  moreover have length: "length ?query = 25"
    by (simp add: fillEmptyBuffer_frame length_frame_body query_proto_def query_type_def)
  then have "?query \<noteq> []" "length ?query \<le> recv_size"
    by (metis list.size(3) zero_neq_numeral) (simp add: recv_size_def length)
  moreover have "conn_state (conns ?w 5) = CONNECTED" "sendBuffer (conns ?w 5) = []" "\<not> isSending (chan_of 5 ?w)"
    "isInLoopThread (conn_loop (conns ?w 5)) ?w"
    by (simp_all add: open_conn_def boot_net_def boot_loop_def isInLoopThread_def Channel_ctor_def isSending_def NoneEvent_def)
  ultimately show ?thesis
    using query_server_closes [OF query_proto_ok(1), of ?w 5 ?query 1 "\<lambda>c w. w" 0]
    by (simp add: Let_def open_conn_def boot_net_def)
qed

end
