(* ===== verification/RpcSystem.thy ===== *)
theory RpcSystem
  imports Rpc QueryServer
begin

text \<open>
  Remote calls from bytes to bytes: the codec of \<^verbatim>\<open>RpcChannel\<close> over the reads of a
  connection, on the client and on the server, with the service of
  \<^verbatim>\<open>src/examples/rpc/server.cc\<close> and the call of \<^verbatim>\<open>rpc/client.cc\<close>. A service is the function
  from the method and the bytes of a request to the bytes of its response; it runs its
  closure at once, as the sources' only service does.
\<close>

section \<open>The codec on a connection\<close>

text \<open>\<^verbatim>\<open>ProtobufCodecLite::send\<close>, on what a channel calls; the other calls send nothing.\<close>

definition lite_send :: "'m lite \<Rightarrow> conn_id \<Rightarrow> 'm \<Rightarrow> user_action list" where
  "lite_send K c message = [ASend c (lite_fillEmptyBuffer K message)]"

definition lite_defaultErrorCallback ::
  "conn_id \<Rightarrow> ErrorCode \<Rightarrow> 'z net_world_scheme \<Rightarrow> 'z net_world_scheme" where
  "lite_defaultErrorCallback c e w = (if connected c w then shutdown c w else w)"

definition lite_errorCodeToString :: "ErrorCode \<Rightarrow> string" where
  "lite_errorCodeToString e = (case e of kNoError \<Rightarrow> ''NoError'' | kInvalidLength \<Rightarrow> ''InvalidLength''
     | kCheckSumError \<Rightarrow> ''CheckSumError'' | kInvalidNameLen \<Rightarrow> ''InvalidNameLen''
     | kUnknownMessageType \<Rightarrow> ''UnknownMessageType'' | kParseError \<Rightarrow> ''ParseError'')"

lemma lite_errorCodeToString_same: "lite_errorCodeToString e = errorCodeToString e"
  by (cases e) (simp_all add: lite_errorCodeToString_def errorCodeToString_def)

lemma lite_defaultErrorCallback_same: "lite_defaultErrorCallback c e w = defaultErrorCallback c e w"
  by (simp add: lite_defaultErrorCallback_def defaultErrorCallback_def)

text \<open>What the calls of a channel send.\<close>

definition rpc_sends :: "RpcMessage lite \<Rightarrow> rpc_call list \<Rightarrow> user_action list" where
  "rpc_sends K cs = concat (map (\<lambda>x. case x of Send (Some c) m \<Rightarrow> lite_send K c m | _ \<Rightarrow> []) cs)"

section \<open>A channel over its reads\<close>

text \<open>
  \<^verbatim>\<open>RpcChannel::onMessage\<close> on successive reads: the messages the codec delivers, in order,
  go to \<^verbatim>\<open>onRpcMessage\<close>; an error makes the codec's error callback shut the connection down.
\<close>

definition deliver ::
  "(RpcMessage \<Rightarrow> 's \<Rightarrow> rpc_call list \<times> 's) \<Rightarrow> RpcMessage lite_call list \<Rightarrow> 's \<Rightarrow> rpc_call list \<times> 's" where
  "deliver f xs s =
     fold (\<lambda>x (cs, s). case x of RawCall _ \<Rightarrow> (cs, s) | MessageCall m \<Rightarrow> (case f m s of (ds, s') \<Rightarrow> (cs @ ds, s')))
       xs ([], s)"

definition RpcChannel_onMessage ::
  "RpcMessage lite \<Rightarrow> (RpcMessage \<Rightarrow> 's \<Rightarrow> rpc_call list \<times> 's) \<Rightarrow> bytes list \<Rightarrow> 's \<Rightarrow>
   rpc_call list \<times> ErrorCode option \<times> 's" where
  "RpcChannel_onMessage K f reads s =
     (case feed (liteT_onMessage K) [] reads of (xs, e, _) \<Rightarrow> (case deliver f xs s of (cs, s') \<Rightarrow> (cs, e, s')))"

section \<open>Services\<close>

text \<open>\<^verbatim>\<open>service->CallMethod\<close>: the method runs, and its closure is \<^verbatim>\<open>doneCallback\<close> on the channel.\<close>

definition call_service ::
  "(string \<Rightarrow> string \<Rightarrow> bytes \<Rightarrow> bytes) \<Rightarrow> RpcChannel \<Rightarrow> rpc_call \<Rightarrow> rpc_call list" where
  "call_service serve D x =
     (case x of Invoke svc method request i \<Rightarrow> x # doneCallback (serve svc method request) i D | _ \<Rightarrow> [x])"

text \<open>A server's part of a connection: the message callback that \<^verbatim>\<open>onConnection\<close> has set.\<close>

definition serve_message ::
  "(string \<Rightarrow> string \<Rightarrow> bytes \<Rightarrow> bytes) \<Rightarrow> conn_id \<Rightarrow> RpcMessage \<Rightarrow> RpcServer \<Rightarrow> rpc_call list \<times> RpcServer" where
  "serve_message serve conn m S =
     (case RpcServer_onRpcMessage conn m S of (cs, S') \<Rightarrow>
        (concat (map (\<lambda>x. case channel_of S conn of None \<Rightarrow> [x] | Some D \<Rightarrow> call_service serve D x) cs), S'))"

section \<open>The sudoku service\<close>

record SudokuResponse =
  solved :: bool
  checkerboard :: string

text \<open>The request is not looked at.\<close>

definition Solve :: "string \<Rightarrow> SudokuResponse" where
  "Solve request = \<lparr>solved = True, checkerboard = ''1234567''\<rparr>"

text \<open>
  The service with the library's parser and printer of its two messages as arguments.
\<close>

definition SudokuServiceImpl :: "(bytes \<Rightarrow> string option) \<Rightarrow> service" where
  "SudokuServiceImpl parse = \<lparr>FindMethodByName = (\<lambda>n. n = ''Solve''), ParseRequest = (\<lambda>n bs. parse bs \<noteq> None)\<rparr>"

definition sudoku_serve ::
  "(bytes \<Rightarrow> string option) \<Rightarrow> (SudokuResponse \<Rightarrow> bytes) \<Rightarrow> string \<Rightarrow> string \<Rightarrow> bytes \<Rightarrow> bytes" where
  "sudoku_serve parse print svc method request = print (Solve (the (parse request)))"

definition sudoku_server :: "(bytes \<Rightarrow> string option) \<Rightarrow> conn_id \<Rightarrow> 64 word \<Rightarrow> RpcServer" where
  "sudoku_server parse conn i =
     RpcServer_onConnection conn True i
       (registerService ''sudoku.SudokuService'' (SudokuServiceImpl parse)
         \<lparr>services_of = Map.empty, channel_of = Map.empty\<rparr>)"

definition sudoku_call :: "(string \<Rightarrow> bytes) \<Rightarrow> nat \<Rightarrow> nat \<Rightarrow> RpcChannel \<Rightarrow> rpc_call list \<times> RpcChannel" where
  "sudoku_call print_request resp cl C =
     CallMethod ''sudoku.SudokuService'' ''Solve'' (print_request ''001010'') resp (Some cl) C"

section \<open>One message in pieces\<close>

definition rpc_fits :: "'m lite \<Rightarrow> 'm \<Rightarrow> bool" where
  "rpc_fits K m \<longleftrightarrow> lite_fits K m \<and> compared K m \<noteq> tag K"

lemma lite_front_Nil: "lite_front K [] = Incomplete"
  by (simp add: lite_front_def lite_kMinMessageLen_def kHeaderLen_def kChecksumLen_def Let_def)

lemma feed_one:
  assumes "rawMessageCallback K = None" "rpc_fits K m"
    and "concat reads = lite_fillEmptyBuffer K m" "list_all (\<lambda>b. b \<noteq> []) reads"
  shows "feed (liteT_onMessage K) [] reads = ([MessageCall m], None, concat reads)"
proof -
  have one: "lite_front K (concat reads) = Framed [MessageCall m] []"
    using lite_front_encoded [of K "MessageCall m" "[]"] assms(2,3) by (simp add: rpc_fits_def lite_ok_def lite_enc_def)
  then have "reads \<noteq> []" by (auto simp: lite_front_Nil)
  moreover have "liteT_onMessage K = (\<lambda>b. case lite_onMessage K b of (ms, e, _) \<Rightarrow> (ms, e, b))"
    by (rule ext) (simp add: liteT_onMessage_def)
  ultimately show ?thesis
    using lite.kept_feed [of K "[]" reads "[MessageCall m]"] one lite_front_Nil [of K] assms(4)
    unfolding no_raw [OF assms(1)] by simp
qed

lemma deliver_one: "deliver f [MessageCall m] s = f m s"
  by (simp add: deliver_def split: prod.split)

lemma channel_one:
  assumes "rawMessageCallback K = None" "rpc_fits K m"
    and "concat reads = lite_fillEmptyBuffer K m" "list_all (\<lambda>b. b \<noteq> []) reads"
  shows "RpcChannel_onMessage K f reads s = (fst (f m s), None, snd (f m s))"
  by (simp add: RpcChannel_onMessage_def feed_one [OF assms] deliver_one split: prod.split)

section \<open>Properties\<close>

definition sudoku_request :: "bytes \<Rightarrow> 64 word \<Rightarrow> RpcMessage" where
  "sudoku_request request i = (empty_msg REQUEST i)\<lparr>msg_service := ''sudoku.SudokuService'',
     msg_method := ''Solve'', msg_request := request\<rparr>"

definition rpc_response :: "bytes \<Rightarrow> 64 word \<Rightarrow> RpcMessage" where
  "rpc_response result i = (empty_msg RESPONSE i)\<lparr>msg_response := Some result\<rparr>"

lemma sudoku_server_serves:
  assumes "parse request \<noteq> None"
  shows "fst (serve_message (sudoku_serve parse print) conn (sudoku_request request i) (sudoku_server parse conn j)) =
    [Invoke ''sudoku.SudokuService'' ''Solve'' request i,
     Send (Some conn) (rpc_response (print (Solve (the (parse request)))) i)]"
  using assms
  by (simp add: serve_message_def RpcServer_onRpcMessage_def sudoku_server_def RpcServer_onConnection_def
      registerService_def RpcChannel_ctor_def onRpcMessage_def sudoku_request_def request_error_def
      SudokuServiceImpl_def empty_msg_def Let_def call_service_def doneCallback_def sudoku_serve_def rpc_response_def)

lemma client_receives_response:
  assumes "chan_conn C = Some conn" "outstandings C i = Some \<lparr>response = p, done_closure = Some d\<rparr>"
  shows "onRpcMessage None conn (rpc_response result i) C =
    ([Parse p result, Run d, Disconnect, Quit, Delete p], C\<lparr>outstandings := (outstandings C)(i := None)\<rparr>)"
  using assms by (simp add: onRpcMessage_def rpc_response_def empty_msg_def Let_def)

text \<open>
  C23. The sudoku call from bytes to bytes: the client sends one request frame when it is
  connected; in whatever pieces these bytes arrive, the server invokes the method once and
  sends one response frame; and in whatever pieces those arrive, the client parses exactly
  what the service printed into the response of the call, runs its closure, disconnects and
  ends its loop. The call is then no longer outstanding.
\<close>

theorem sudoku_solved:
  assumes "rawMessageCallback K = None" "outstandings C (chan_id C) = None"
    and "parse request = Some board" "print_request ''001010'' = request"
    and "rpc_fits K (sudoku_request request (chan_id C))" "rpc_fits K (rpc_response (print (Solve board)) (chan_id C))"
    and "concat there = lite_fillEmptyBuffer K (sudoku_request request (chan_id C))" "list_all (\<lambda>b. b \<noteq> []) there"
    and "concat home = lite_fillEmptyBuffer K (rpc_response (print (Solve board)) (chan_id C))" "list_all (\<lambda>b. b \<noteq> []) home"
  shows "let (calls, C1) = sudoku_call print_request p d C;
      (sent, C2) = connectedCallback cconn True (sudoku_request request (chan_id C)) C1;
      (served, e1, _) = RpcChannel_onMessage K (serve_message (sudoku_serve parse print) sconn) there (sudoku_server parse sconn j);
      (got, e2, C3) = RpcChannel_onMessage K (onRpcMessage None cconn) home C2
    in calls = [SetCallbacks (sudoku_request request (chan_id C)), Connect, Loop] \<and>
       rpc_sends K sent = [ASend cconn (concat there)] \<and>
       rpc_sends K served = [ASend sconn (concat home)] \<and>
       got = [Parse p (print (Solve board)), Run d, Disconnect, Quit, Delete p] \<and>
       e1 = None \<and> e2 = None \<and> outstandings C3 = outstandings C"
proof -
  let ?i = "chan_id C"
  obtain calls C1 where call: "sudoku_call print_request p d C = (calls, C1)"
    by (cases "sudoku_call print_request p d C")
  then have C1: "calls = [SetCallbacks (sudoku_request request ?i), Connect, Loop]"
      "outstandings C1 = (outstandings C)(?i \<mapsto> \<lparr>response = p, done_closure = Some d\<rparr>)"
    using assms(4) by (auto simp: sudoku_call_def CallMethod_def sudoku_request_def Let_def)
  let ?C2 = "C1\<lparr>chan_conn := Some cconn\<rparr>"
  have connected: "connectedCallback cconn True (sudoku_request request ?i) C1 =
      ([Send (Some cconn) (sudoku_request request ?i)], ?C2)"
    by (simp add: connectedCallback_def)
  note server = channel_one [OF assms(1,5,7,8), of "serve_message (sudoku_serve parse print) sconn" "sudoku_server parse sconn j"]
  note client = channel_one [OF assms(1,6,9,10), of "onRpcMessage None cconn" ?C2]
  have got: "onRpcMessage None cconn (rpc_response (print (Solve board)) ?i) ?C2 =
      ([Parse p (print (Solve board)), Run d, Disconnect, Quit, Delete p], ?C2\<lparr>outstandings := (outstandings C1)(?i := None)\<rparr>)"
    by (rule client_receives_response [of ?C2, simplified]) (simp_all add: C1)
  have "(outstandings C1)(?i := None) = outstandings C"
    using assms(2) by (simp add: C1 fun_upd_idem)
  then show ?thesis
    using C1(1) assms(3,7,9)
    by (simp add: call connected server client got sudoku_server_serves rpc_sends_def lite_send_def)
qed

text \<open>
  A server invokes a method again for every earlier request on the connection: the bytes of
  a request stay in the receive buffer, so that with the second request the first is served
  and answered once more.
\<close>

lemma deliver_Cons:
  "deliver f (MessageCall m # xs) s = (case f m s of (cs, s1) \<Rightarrow> (case deliver f xs s1 of (ds, s2) \<Rightarrow> (cs @ ds, s2)))"
proof -
  have start: "fold (\<lambda>x (cs, s). case x of RawCall _ \<Rightarrow> (cs, s) | MessageCall m \<Rightarrow> (case f m s of (ds, s') \<Rightarrow> (cs @ ds, s')))
      xs (cs, s) = (case deliver f xs s of (ds, s') \<Rightarrow> (cs @ ds, s'))" for cs s
  proof (induction xs arbitrary: cs s)
    case (Cons x xs)
    show ?case
    proof (cases x)
      case (MessageCall m)
      obtain ds s' where f: "f m s = (ds, s')" by (cases "f m s")
      show ?thesis
        using Cons.IH [of "cs @ ds" s'] Cons.IH [of ds s'] by (simp add: MessageCall f deliver_def split: prod.split)
    qed (use Cons.IH [of cs s] in \<open>simp add: deliver_def\<close>)
  qed (simp add: deliver_def)
  obtain cs s1 where f: "f m s = (cs, s1)" by (cases "f m s")
  show ?thesis using start [of cs s1] by (simp add: f deliver_def split: prod.split)
qed

lemma feed_two:
  assumes "rawMessageCallback K = None" "rpc_fits K m" "rpc_fits K n"
  shows "fst (feed (liteT_onMessage K) [] [lite_fillEmptyBuffer K m, lite_fillEmptyBuffer K n]) =
    [MessageCall m, MessageCall m, MessageCall n]"
proof -
  have one: "lite_front K (lite_fillEmptyBuffer K x @ r) = Framed [MessageCall x] r" if "rpc_fits K x" for x r
    using lite_front_encoded [of K "MessageCall x" r] that by (simp add: rpc_fits_def lite_ok_def lite_enc_def)
  have none: "lite_onMessage K [] = ([], None, [])"
    by (simp add: lite_onMessage_front [OF assms(1)] lite_front_Nil)
  have m: "lite_onMessage K (lite_fillEmptyBuffer K m) = ([MessageCall m], None, [])"
    and n: "lite_onMessage K (lite_fillEmptyBuffer K n) = ([MessageCall n], None, [])"
    using one [OF assms(2), of "[]"] one [OF assms(3), of "[]"] none
    by (simp_all add: lite_onMessage_front [OF assms(1), of "lite_fillEmptyBuffer K _"])
  have "lite_onMessage K (lite_fillEmptyBuffer K m @ lite_fillEmptyBuffer K n) = ([MessageCall m, MessageCall n], None, [])"
    using one [OF assms(2)] n by (simp add: lite_onMessage_front [OF assms(1), of "lite_fillEmptyBuffer K m @ _"])
  with m show ?thesis by (simp add: liteT_onMessage_def)
qed

lemma rpc_request_served_again:
  assumes "rawMessageCallback K = None" "rpc_fits K (sudoku_request q1 1)" "rpc_fits K (sudoku_request q2 2)"
    and "parse q1 = Some b1" "parse q2 = Some b2"
  shows "filter (\<lambda>x. case x of Invoke _ _ _ _ \<Rightarrow> True | _ \<Rightarrow> False)
      (fst (RpcChannel_onMessage K (serve_message (sudoku_serve parse print) conn)
        [lite_fillEmptyBuffer K (sudoku_request q1 1), lite_fillEmptyBuffer K (sudoku_request q2 2)]
        (sudoku_server parse conn j))) =
    [Invoke ''sudoku.SudokuService'' ''Solve'' q1 1, Invoke ''sudoku.SudokuService'' ''Solve'' q1 1,
     Invoke ''sudoku.SudokuService'' ''Solve'' q2 2]"
proof -
  let ?f = "serve_message (sudoku_serve parse print) conn" and ?S = "sudoku_server parse conn j"
  have same: "snd (?f (sudoku_request q i) ?S) = ?S" if "parse q \<noteq> None" for q i
    using that by (simp add: serve_message_def RpcServer_onRpcMessage_def sudoku_server_def RpcServer_onConnection_def
        registerService_def RpcChannel_ctor_def onRpcMessage_def sudoku_request_def request_error_def
        SudokuServiceImpl_def empty_msg_def Let_def)
  have served: "?f (sudoku_request q i) ?S = ([Invoke ''sudoku.SudokuService'' ''Solve'' q i,
      Send (Some conn) (rpc_response (print (Solve (the (parse q)))) i)], ?S)" if "parse q \<noteq> None" for q i
    using sudoku_server_serves [of parse q print conn i j] that same [OF that, of i] by (simp add: prod_eq_iff)
  obtain e r where "feed (liteT_onMessage K) []
      [lite_fillEmptyBuffer K (sudoku_request q1 1), lite_fillEmptyBuffer K (sudoku_request q2 2)] =
      ([MessageCall (sudoku_request q1 1), MessageCall (sudoku_request q1 1), MessageCall (sudoku_request q2 2)], e, r)"
    using feed_two [OF assms(1-3)] by (metis prod.collapse)
  then show ?thesis
    using assms(4,5) by (simp add: RpcChannel_onMessage_def deliver_Cons deliver_def [of _ "[]"] served)
qed

section \<open>Witnesses\<close>

text \<open>A library that writes the letter \<open>Q\<close> for a request and \<open>A\<close> for anything else.\<close>

definition letter_proto :: "RpcMessage proto" where
  "letter_proto = \<lparr>GetTypeName = (\<lambda>m. ''slite.RpcMessage''),
     serialize = (\<lambda>m. if msg_type m = REQUEST then ''Q'' else ''A''), registered = (\<lambda>t. True),
     ParseFromArray = (\<lambda>t bs. Some (if bs = ''Q'' then sudoku_request ''001010'' 0 else rpc_response ''1234567'' 0)),
     adler32 = adler_of\<rparr>"

definition letter_codec :: "RpcMessage lite" where
  "letter_codec = RpcCodec ''slite.RpcMessage'' letter_proto"

lemma letter_fits:
  "rpc_fits letter_codec (sudoku_request ''001010'' 0)" "rpc_fits letter_codec (rpc_response ''1234567'' 0)"
  by (simp_all add: rpc_fits_def lite_fits_def compared_def lite_body_def letter_codec_def RpcCodec_def
      letter_proto_def sudoku_request_def rpc_response_def empty_msg_def kMaxMessageLen_def)

theorem sudoku_solved_witness:
  "let there = [lite_fillEmptyBuffer letter_codec (sudoku_request ''001010'' 0)];
       home = [lite_fillEmptyBuffer letter_codec (rpc_response ''1234567'' 0)];
       (served, _) = RpcChannel_onMessage letter_codec
          (serve_message (sudoku_serve Some checkerboard) 7) there (sudoku_server Some 7 0)
   in rpc_sends letter_codec served = [ASend 7 (concat home)]"
proof -
  let ?there = "lite_fillEmptyBuffer letter_codec (sudoku_request ''001010'' 0)"
  let ?home = "lite_fillEmptyBuffer letter_codec (rpc_response ''1234567'' 0)"
  have "lite_front letter_codec ?there \<noteq> Incomplete" "lite_front letter_codec ?home \<noteq> Incomplete"
    using lite_front_encoded [of letter_codec "MessageCall (sudoku_request ''001010'' 0)" "[]"]
      lite_front_encoded [of letter_codec "MessageCall (rpc_response ''1234567'' 0)" "[]"] letter_fits
    by (simp_all add: rpc_fits_def lite_ok_def lite_enc_def)
  then have ne: "?there \<noteq> []" "?home \<noteq> []" by (auto simp: lite_front_Nil)
  have "rawMessageCallback letter_codec = None" by (simp add: letter_codec_def RpcCodec_def)
  from sudoku_solved [OF this, of "RpcChannel_ctor None 0" Some "''001010''" "''001010''" "\<lambda>s. s" checkerboard
      "[?there]" "[?home]" 1 2 9 7 0] letter_fits ne
  show ?thesis by (simp add: RpcChannel_ctor_def Solve_def Let_def split: prod.splits)
qed

end
