(* ===== verification/Descriptors.thy ===== *)
theory Descriptors
  imports TCPHandle "HOL-Library.Multiset"
begin

text \<open>
  The descriptors of \<^verbatim>\<open>src/slite/TCPHandle.cc\<close>: constructor, destructor, \<^verbatim>\<open>listen\<close> and
  \<^verbatim>\<open>accept\<close> over the descriptor table of the process and the queue of pending connections,
  with the reserve descriptor that \<^verbatim>\<open>accept\<close> gives up when the table is full. The kernel hands
  out the lowest free number, fails with \<^verbatim>\<open>EMFILE\<close> when there is none, and ignores the
  closing of a number that is not open. One thread of the process opens descriptors.

  The lemmas show that with a full table a pending connection is taken off the queue and
  closed, with the reserve in place again, and that a server closes exactly what it opened.
\<close>

section \<open>The kernel\<close>

record kernel =
  open_fds :: "fd list"
  fd_limit :: nat
  backlog :: "(sockaddr \<times> sockaddr) list"   \<comment> \<open>peer and local address of pending connections\<close>

definition lowest_free :: "kernel \<Rightarrow> fd option" where
  "lowest_free K = find (\<lambda>f. f \<notin> set (open_fds K)) (map int [0..<fd_limit K])"

definition sys_open :: "kernel \<Rightarrow> fd \<times> kernel" where
  "sys_open K = (case lowest_free K of None \<Rightarrow> (- 1, K) | Some f \<Rightarrow> (f, K\<lparr>open_fds := f # open_fds K\<rparr>))"

definition sys_close :: "fd \<Rightarrow> kernel \<Rightarrow> kernel" where
  "sys_close f K = K\<lparr>open_fds := remove1 f (open_fds K)\<rparr>"

definition sys_accept :: "kernel \<Rightarrow> (fd \<times> sockaddr \<times> sockaddr) sys_result \<times> kernel" where
  "sys_accept K =
     (case lowest_free K of
        None \<Rightarrow> (SysErr EMFILE, K)
      | Some f \<Rightarrow>
          (case backlog K of
             [] \<Rightarrow> (SysErr EAGAIN, K)
           | (peer, loc) # rest \<Rightarrow> (SysOk (f, peer, loc), K\<lparr>open_fds := f # open_fds K, backlog := rest\<rparr>)))"

text \<open>The descriptor a call to \<^verbatim>\<open>accept\<close> returns as an \<^verbatim>\<open>int\<close>.\<close>

definition accepted_fd :: "(fd \<times> sockaddr \<times> sockaddr) sys_result \<Rightarrow> fd" where
  "accepted_fd r = (case r of SysErr _ \<Rightarrow> - 1 | SysOk (f, _) \<Rightarrow> f)"

section \<open>TCPHandle\<close>

definition fds_ctor :: "kernel \<Rightarrow> (tcphandle \<times> kernel) option" where
  "fds_ctor K =
     (case sys_open K of (f, K1) \<Rightarrow>
        map_option (\<lambda>h. (h, K1)) (TCPHandle_ctor (if f = - 1 then None else Some f)))"

definition fds_dtor :: "tcphandle \<Rightarrow> kernel \<Rightarrow> kernel" where
  "fds_dtor h K =
     (let K1 = sys_close (h_fd h) K in if h_nullFd h > 0 then sys_close (h_nullFd h) K1 else K1)"

definition fds_listen :: "unit sys_result \<Rightarrow> tcphandle \<Rightarrow> kernel \<Rightarrow> (tcphandle \<times> kernel) option" where
  "fds_listen r h K =
     (case sys_open K of (f, K1) \<Rightarrow> map_option (\<lambda>h'. (h', K1)) (handle_listen r f h))"

definition fds_accept :: "tcphandle \<Rightarrow> kernel \<Rightarrow> accept_result \<times> kernel" where
  "fds_accept h K =
     (case sys_accept K of
        (SysErr e, K0) \<Rightarrow>
          if e \<in> accept_transient then
            let K1 = sys_close (h_nullFd h) K0;
                (r, K2) = sys_accept K1;
                K3 = sys_close (accepted_fd r) K2;
                (f, K4) = sys_open K3
            in (AcceptRetry (h\<lparr>h_nullFd := f\<rparr>), K4)
          else (AcceptFatal, K0)
      | (SysOk (f, peer, loc), K0) \<Rightarrow>
          (Accepted (h\<lparr>h_peer := peer, h_local := loc\<rparr>) (TCPHandle_of_fd f peer loc), K0))"

text \<open>It is the operation of \<^theory_text>\<open>TCPHandle\<close> on what the kernel answers.\<close>

lemma fds_accept_handle:
  "\<exists>null. fst (fds_accept h K) = handle_accept (fst (sys_accept K)) null h"
  by (auto simp: fds_accept_def handle_accept_def Let_def split: prod.splits sys_result.splits)

section \<open>The lowest free descriptor\<close>

lemma lowest_free_None: "lowest_free K = None \<longleftrightarrow> (\<forall>f. 0 \<le> f \<and> f < int (fd_limit K) \<longrightarrow> f \<in> set (open_fds K))"
proof -
  have "f \<in> set (map int [0..<fd_limit K]) \<longleftrightarrow> 0 \<le> f \<and> f < int (fd_limit K)" for f
    using zero_le_imp_eq_int [of f] by fastforce
  then show ?thesis by (auto simp: lowest_free_def find_None_iff)
qed

lemma lowest_free_Some: "lowest_free K = Some f \<Longrightarrow> 0 \<le> f \<and> f < int (fd_limit K) \<and> f \<notin> set (open_fds K)"
  by (auto simp: lowest_free_def find_Some_iff)

text \<open>When one descriptor of a full table is closed, it is the lowest free one.\<close>

lemma lowest_free_closed:
  assumes "lowest_free K = None" "distinct (open_fds K)" "f \<in> set (open_fds K)" "0 \<le> f" "f < int (fd_limit K)"
  shows "lowest_free (sys_close f K) = Some f"
proof -
  have free: "g \<notin> set (open_fds (sys_close f K)) \<longleftrightarrow> g = f" if "0 \<le> g" "g < int (fd_limit K)" for g
    using that assms(1,2) by (auto simp: sys_close_def lowest_free_None)
  obtain g where g: "lowest_free (sys_close f K) = Some g"
    using free [OF assms(4,5)] assms(4,5) lowest_free_None [of "sys_close f K"]
    by (cases "lowest_free (sys_close f K)") (auto simp: sys_close_def)
  with lowest_free_Some [OF g] free [of g] show ?thesis by (simp add: sys_close_def)
qed

section \<open>Accepting\<close>

lemma sys_accept_error:
  "sys_accept K = (SysErr e, K') \<Longrightarrow> K' = K \<and> e \<in> accept_transient \<and> (lowest_free K = None \<or> backlog K = [])"
  by (auto simp: sys_accept_def accept_transient_def split: option.splits list.splits)

text \<open>Accepting a connection only to close it.\<close>

lemma accept_and_close:
  assumes "lowest_free K = Some g" "- 1 \<notin> set (open_fds K)" "sys_accept K = (r, K2)"
  shows "sys_close (accepted_fd r) K2 = K\<lparr>backlog := tl (backlog K)\<rparr>"
  using assms
  by (cases "backlog K") (auto simp: sys_accept_def accepted_fd_def sys_close_def remove1_idem split: prod.splits)

lemma fds_accept_retry:
  assumes "sys_accept K = (SysErr e, K0)" "lowest_free (sys_close (h_nullFd h) K) = Some g" "- 1 \<notin> set (open_fds K)"
  shows "fds_accept h K =
    (AcceptRetry (h\<lparr>h_nullFd := g\<rparr>), K\<lparr>open_fds := g # remove1 (h_nullFd h) (open_fds K), backlog := tl (backlog K)\<rparr>)"
proof -
  let ?K1 = "sys_close (h_nullFd h) K"
  obtain r K2 where r: "sys_accept ?K1 = (r, K2)" by (cases "sys_accept ?K1")
  have "- 1 \<notin> set (open_fds ?K1)" using assms(3) notin_set_remove1 by (fastforce simp: sys_close_def)
  from accept_and_close [OF assms(2) this r]
  have K3: "sys_close (accepted_fd r) K2 = ?K1\<lparr>backlog := tl (backlog ?K1)\<rparr>" .
  have "lowest_free (?K1\<lparr>backlog := tl (backlog ?K1)\<rparr>) = Some g" using assms(2) by (simp add: lowest_free_def)
  then have "sys_open (?K1\<lparr>backlog := tl (backlog ?K1)\<rparr>) =
      (g, K\<lparr>open_fds := g # remove1 (h_nullFd h) (open_fds K), backlog := tl (backlog K)\<rparr>)"
    by (simp add: sys_open_def sys_close_def)
  then show ?thesis
    using sys_accept_error [OF assms(1)] r K3 by (simp add: fds_accept_def assms(1) Let_def)
qed

text \<open>
  C35. The reserve descriptor does what it is for: when the descriptor table is full and a
  connection is pending, \<^verbatim>\<open>accept\<close> takes it off the queue and closes it, so that the
  level-triggered loop does not see it again, and afterwards the same descriptors are open
  and the reserve has its number back.
\<close>

theorem accept_sheds:
  assumes "lowest_free K = None" "distinct (open_fds K)" "- 1 \<notin> set (open_fds K)"
    and "h_nullFd h \<in> set (open_fds K)" "h_nullFd h < int (fd_limit K)" "0 \<le> h_nullFd h"
  shows "\<exists>K'. fds_accept h K = (AcceptRetry h, K') \<and> set (open_fds K') = set (open_fds K) \<and>
    distinct (open_fds K') \<and> backlog K' = tl (backlog K)"
proof -
  have "sys_accept K = (SysErr EMFILE, K)" by (simp add: sys_accept_def assms(1))
  from fds_accept_retry [OF this lowest_free_closed [OF assms(1,2,4,6,5)] assms(3)]
  show ?thesis using assms(2,4) by (auto simp: set_remove1_eq)
qed

section \<open>A server and its connections\<close>

text \<open>
  A listening handle, the handles of its connections, and the kernel. \<open>K0\<close> is the kernel
  before the server was made; it has descriptor 0 open, and room for the server.
\<close>

inductive fd_reach :: "kernel \<Rightarrow> kernel \<Rightarrow> tcphandle \<Rightarrow> tcphandle list \<Rightarrow> bool" for K0 where
  fd_start: "fds_ctor K0 = Some (h0, K1) \<Longrightarrow> fds_listen (SysOk ()) h0 K1 = Some (h, K) \<Longrightarrow> h_nullFd h \<noteq> - 1 \<Longrightarrow>
     fd_reach K0 K h []"
| fd_arrive: "fd_reach K0 K h cs \<Longrightarrow> fd_reach K0 (K\<lparr>backlog := backlog K @ [a]\<rparr>) h cs"
| fd_accepted: "fd_reach K0 K h cs \<Longrightarrow> fds_accept h K = (Accepted h' c, K') \<Longrightarrow> fd_reach K0 K' h' (c # cs)"
| fd_retry: "fd_reach K0 K h cs \<Longrightarrow> fds_accept h K = (AcceptRetry h', K') \<Longrightarrow> fd_reach K0 K' h' cs"
| fd_destroy: "fd_reach K0 K h cs \<Longrightarrow> c \<in> set cs \<Longrightarrow> fd_reach K0 (fds_dtor c K) h (remove1 c cs)"

definition fd_inv :: "kernel \<Rightarrow> kernel \<Rightarrow> tcphandle \<Rightarrow> tcphandle list \<Rightarrow> bool" where
  "fd_inv K0 K h cs \<longleftrightarrow>
     mset (open_fds K) = mset (open_fds K0) + mset (h_fd h # h_nullFd h # map h_fd cs) \<and> distinct (open_fds K) \<and>
     fd_limit K = fd_limit K0 \<and> (\<forall>f \<in> set (open_fds K). 0 \<le> f) \<and>
     0 < h_nullFd h \<and> h_nullFd h < int (fd_limit K) \<and> (\<forall>c \<in> set cs. h_nullFd c = 0)"

definition boot_fds :: "kernel \<Rightarrow> bool" where
  "boot_fds K \<longleftrightarrow> distinct (open_fds K) \<and> (\<forall>f \<in> set (open_fds K). 0 \<le> f) \<and> 0 \<in> set (open_fds K)"

lemma sys_open_fresh:
  assumes "sys_open K = (f, K')" "f \<noteq> - 1"
  shows "K' = K\<lparr>open_fds := f # open_fds K\<rparr> \<and> 0 \<le> f \<and> f < int (fd_limit K) \<and> f \<notin> set (open_fds K)"
  using assms lowest_free_Some [of K f] by (auto simp: sys_open_def split: option.splits)

lemma fd_inv_start:
  assumes "boot_fds K0" "fds_ctor K0 = Some (h0, K1)" "fds_listen (SysOk ()) h0 K1 = Some (h, K)" "h_nullFd h \<noteq> - 1"
  shows "fd_inv K0 K h []"
proof -
  obtain f where f: "sys_open K0 = (f, K1)" "f \<noteq> - 1" "h_fd h0 = f"
    using assms(2) by (auto simp: fds_ctor_def TCPHandle_ctor_def split: prod.splits if_splits)
  obtain n where n: "sys_open K1 = (n, K)" "h = h0\<lparr>h_nullFd := n\<rparr>"
    using assms(3) by (auto simp: fds_listen_def handle_listen_def split: prod.splits)
  then have "n \<noteq> - 1" using assms(4) by simp
  note F = sys_open_fresh [OF f(1,2)] and N = sys_open_fresh [OF n(1) this]
  moreover have "n \<noteq> 0" using F N assms(1) by (auto simp: boot_fds_def)
  ultimately show ?thesis using assms(1) f(3) n(2) by (auto simp: fd_inv_def boot_fds_def)
qed

lemma fd_inv_accepted:
  assumes "fd_inv K0 K h cs" "fds_accept h K = (Accepted h' c, K')"
  shows "fd_inv K0 K' h' (c # cs)"
proof -
  obtain f peer loc rest where f: "lowest_free K = Some f" "h' = h\<lparr>h_peer := peer, h_local := loc\<rparr>"
      "c = TCPHandle_of_fd f peer loc" "K' = K\<lparr>open_fds := f # open_fds K, backlog := rest\<rparr>"
    using assms(2)
    by (auto simp: fds_accept_def sys_accept_def Let_def split: option.splits list.splits prod.splits if_splits)
  then show ?thesis
    using assms(1) lowest_free_Some [OF f(1)] by (auto simp: fd_inv_def TCPHandle_of_fd_def)
qed

lemma fd_inv_retry:
  assumes "fd_inv K0 K h cs" "0 \<in> set (open_fds K0)" "fds_accept h K = (AcceptRetry h', K')"
  shows "fd_inv K0 K' h' cs"
proof -
  let ?null = "h_nullFd h"
  obtain e K1 where e: "sys_accept K = (SysErr e, K1)"
    using assms(3) by (auto simp: fds_accept_def split: prod.splits sys_result.splits)
  note inv = assms(1) [unfolded fd_inv_def]
  have ms: "mset (open_fds K) = mset (open_fds K0) + mset (h_fd h # ?null # map h_fd cs)"
    and nonneg: "\<forall>f \<in> set (open_fds K). 0 \<le> f" using inv by simp_all
  have set: "set (open_fds K) = set (open_fds K0 @ h_fd h # ?null # map h_fd cs)"
    by (rule mset_eq_setD) (simp add: ms)
  have I: "distinct (open_fds K)" "0 < ?null" "?null < int (fd_limit K)" using inv by simp_all
  have "?null \<in> set (open_fds K)" "0 \<in> set (open_fds K)" using set assms(2) by simp_all
  have neg: "- 1 \<notin> set (open_fds K)" using nonneg by force
  then have zero: "0 \<in> set (open_fds (sys_close ?null K))" using I(1,2) \<open>0 \<in> set (open_fds K)\<close> by (simp add: sys_close_def)
  have "lowest_free (sys_close ?null K) \<noteq> None"
  proof
    assume "lowest_free (sys_close ?null K) = None"
    from this [unfolded lowest_free_None, rule_format, of ?null] show False
      using I by (simp add: sys_close_def)
  qed
  then obtain g where g: "lowest_free (sys_close ?null K) = Some g" by blast
  from lowest_free_Some [OF g] zero have G: "0 < g" "g < int (fd_limit K)" "g \<notin> set (remove1 ?null (open_fds K))"
    by (auto simp: sys_close_def order_less_le)
  from fds_accept_retry [OF e g neg] assms(3) have new: "h' = h\<lparr>h_nullFd := g\<rparr>"
    "K' = K\<lparr>open_fds := g # remove1 ?null (open_fds K), backlog := tl (backlog K)\<rparr>" by auto
  have "mset (remove1 ?null (open_fds K)) = mset (open_fds K0) + mset (h_fd h # map h_fd cs)"
    by (simp add: ms)
  moreover have "\<forall>f \<in> set (remove1 ?null (open_fds K)). 0 \<le> f"
    using nonneg set_remove1_subset by fastforce
  ultimately show ?thesis
    using inv G by (simp add: fd_inv_def new)
qed

lemma fd_inv_destroy:
  assumes "fd_inv K0 K h cs" "c \<in> set cs"
  shows "fd_inv K0 (fds_dtor c K) h (remove1 c cs)"
proof -
  have "h_nullFd c = 0" using assms by (auto simp: fd_inv_def)
  then have K': "fds_dtor c K = K\<lparr>open_fds := remove1 (h_fd c) (open_fds K)\<rparr>"
    by (simp add: fds_dtor_def sys_close_def)
  note inv = assms(1) [unfolded fd_inv_def]
  have "mset cs = add_mset c (mset (remove1 c cs))" using assms(2) by simp
  then have "mset (map h_fd cs) = add_mset (h_fd c) (mset (map h_fd (remove1 c cs)))"
    by (metis image_mset_add_mset mset_map)
  then have "mset (remove1 (h_fd c) (open_fds K)) = mset (open_fds K0) + mset (h_fd h # h_nullFd h # map h_fd (remove1 c cs))"
    using inv by simp
  moreover have "\<forall>f \<in> set (remove1 (h_fd c) (open_fds K)). 0 \<le> f" "\<forall>d \<in> set (remove1 c cs). h_nullFd d = 0"
    using inv set_remove1_subset by fastforce+
  ultimately show ?thesis using inv by (simp add: fd_inv_def K')
qed

lemma fd_reach_inv: "fd_reach K0 K h cs \<Longrightarrow> boot_fds K0 \<Longrightarrow> fd_inv K0 K h cs"
proof (induction rule: fd_reach.induct)
  case (fd_start h0 K1 h K)
  then show ?case by (intro fd_inv_start)
next
  case (fd_arrive K h cs a)
  from fd_arrive.IH [OF fd_arrive.prems] show ?case by (simp add: fd_inv_def)
next
  case (fd_accepted K h cs h' c K')
  from fd_inv_accepted [OF fd_accepted.IH [OF fd_accepted.prems] fd_accepted.hyps(2)] show ?case .
next
  case (fd_retry K h cs h' K')
  have "0 \<in> set (open_fds K0)" using fd_retry.prems by (simp add: boot_fds_def)
  from fd_inv_retry [OF fd_retry.IH [OF fd_retry.prems] this fd_retry.hyps(2)] show ?case .
next
  case (fd_destroy K h cs c)
  from fd_inv_destroy [OF fd_destroy.IH [OF fd_destroy.prems] fd_destroy.hyps(2)] show ?case .
qed

text \<open>
  C19. A server owns its descriptors: whatever connections arrive, are accepted, turned away
  for want of descriptors and destroyed, the open descriptors are those of before, the
  listening socket's, the reserve and one for each connection, all different; and when the
  connections and the listening handle are destroyed, exactly those of before are open again.
\<close>

theorem server_fds_owned:
  assumes "fd_reach K0 K h cs" "boot_fds K0"
  shows "mset (open_fds K) = mset (open_fds K0) + mset (h_fd h # h_nullFd h # map h_fd cs) \<and>
    distinct (open_fds K) \<and> mset (open_fds (fds_dtor h (fold fds_dtor cs K))) = mset (open_fds K0)"
proof -
  have inv: "fd_inv K0 K h cs" by (rule fd_reach_inv [OF assms])
  have "fd_inv K0 (fold fds_dtor ds K) h []" if "fd_inv K0 K h ds" for ds K
    using that
  proof (induction ds arbitrary: K)
    case (Cons d ds)
    from fd_inv_destroy [OF Cons.prems, of d] show ?case by (simp add: Cons.IH)
  qed simp
  from this [OF inv] show ?thesis using inv by (auto simp: fd_inv_def fds_dtor_def sys_close_def)
qed

section \<open>Witnesses\<close>

lemma first_fds: "map int [0..<4] = [0, 1, 2, 3]" "map int [0..<8] = [0, 1, 2, 3, 4, 5, 6, 7]"
  by code_simp+

definition full_table :: kernel where
  "full_table = \<lparr>open_fds = [3, 2, 1, 0], fd_limit = 4, backlog = [(zero_addr, zero_addr)]\<rparr>"

theorem accept_sheds_witness:
  "\<exists>K'. fds_accept (TCPHandle_of_fd 2 zero_addr zero_addr\<lparr>h_nullFd := 3\<rparr>) full_table =
      (AcceptRetry (TCPHandle_of_fd 2 zero_addr zero_addr\<lparr>h_nullFd := 3\<rparr>), K') \<and> backlog K' = []"
proof -
  have "lowest_free full_table = None" by (simp add: lowest_free_def first_fds full_table_def)
  from accept_sheds [OF this, of "TCPHandle_of_fd 2 zero_addr zero_addr\<lparr>h_nullFd := 3\<rparr>"] show ?thesis
    by (auto simp: full_table_def)
qed

definition three_fds :: kernel where
  "three_fds = \<lparr>open_fds = [2, 1, 0], fd_limit = 8, backlog = []\<rparr>"

lemma three_fds_server:
  "\<exists>K h c. fd_reach three_fds K h [c] \<and> boot_fds three_fds"
proof -
  let ?K1 = "\<lparr>open_fds = [3, 2, 1, 0], fd_limit = 8, backlog = []\<rparr>"
  let ?K = "\<lparr>open_fds = [4, 3, 2, 1, 0], fd_limit = 8, backlog = []\<rparr>"
  let ?h0 = "\<lparr>h_fd = 3, h_nullFd = 0, h_peer = zero_addr, h_local = zero_addr\<rparr>"
  have "fds_ctor three_fds = Some (?h0, ?K1)"
    by (simp add: fds_ctor_def sys_open_def lowest_free_def first_fds three_fds_def TCPHandle_ctor_def)
  moreover have "fds_listen (SysOk ()) ?h0 ?K1 = Some (?h0\<lparr>h_nullFd := 4\<rparr>, ?K)"
    by (simp add: fds_listen_def sys_open_def lowest_free_def first_fds handle_listen_def)
  ultimately have "fd_reach three_fds ?K (?h0\<lparr>h_nullFd := 4\<rparr>) []" by (rule fd_start) simp
  from fd_arrive [OF this, of "(zero_addr, zero_addr)"]
  have "fd_reach three_fds (?K\<lparr>backlog := [(zero_addr, zero_addr)]\<rparr>) (?h0\<lparr>h_nullFd := 4\<rparr>) []" by simp
  moreover obtain h' c K' where "fds_accept (?h0\<lparr>h_nullFd := 4\<rparr>) (?K\<lparr>backlog := [(zero_addr, zero_addr)]\<rparr>) = (Accepted h' c, K')"
    by (simp add: fds_accept_def sys_accept_def lowest_free_def first_fds)
  ultimately have "fd_reach three_fds K' h' [c]" by (rule fd_accepted)
  moreover have "boot_fds three_fds" by (simp add: boot_fds_def three_fds_def)
  ultimately show ?thesis by blast
qed

theorem server_fds_owned_witness:
  "\<exists>K h c. fd_reach three_fds K h [c] \<and>
     mset (open_fds K) = mset (open_fds three_fds) + mset [h_fd h, h_nullFd h, h_fd c]"
proof -
  obtain K h c where reach: "fd_reach three_fds K h [c]" "boot_fds three_fds" using three_fds_server by blast
  from server_fds_owned [OF this] reach(1) show ?thesis by auto
qed

end
