(* ===== verification/MaxConnBench.thy ===== *)
theory MaxConnBench
  imports CxxString TCPHandle
begin

text \<open>
  \<^verbatim>\<open>src/examples/maxconn_bench.c\<close>: a load generator that opens connections one by one and
  polls them now and then. A turn of its endless loop is one function of the kernel's
  answers. All sends and receives of the event loop go to \<^verbatim>\<open>sockfd\<close>, the socket of this
  turn, as the source has it, not to the socket of the event.

  The lemmas show that the count of connections stays within the bounds that make the calls
  of \<^verbatim>\<open>epoll_wait\<close> legal and the texts fit their buffer.
\<close>

definition MAX_BUFFER :: nat where "MAX_BUFFER = 128"
definition MAX_EPOLLSIZE :: int where "MAX_EPOLLSIZE = 384 * 1024"
definition MAX_PORT :: int where "MAX_PORT = 1"

section \<open>State\<close>

record load =
  n_connections :: int
  isContinue :: int
  port_index :: int

definition load_start :: load where
  "load_start = \<lparr>n_connections = 0, isContinue = 0, port_index = 0\<rparr>"

datatype load_call =
    LConnect int              \<comment> \<open>with the offset of the port\<close>
  | LSend fd string
  | LAdd fd
  | LWait int                 \<comment> \<open>with \<^verbatim>\<open>maxevents\<close>\<close>
  | LClose fd

text \<open>
  The answers of a turn: to \<^verbatim>\<open>socket\<close> and \<^verbatim>\<open>connect\<close>, and the events of \<^verbatim>\<open>epoll_wait\<close>, each
  with its descriptor, whether it is writable and readable, and the answer to \<^verbatim>\<open>recv\<close>.
\<close>

datatype connect_answer = NoSocket | NoConnection | NewConnection fd

record load_event =
  clientfd :: fd
  writable :: bool
  readable :: bool
  received :: reply

text \<open>The loop ends by \<^verbatim>\<open>goto err\<close>, or goes on; \<open>LoadUndefined\<close> is a text read past its buffer.\<close>

datatype 's load_end = LoadError | LoadUndefined | LoadOn "load_call list" 's

section \<open>A turn of the loop\<close>

definition hello_text :: "int \<Rightarrow> string" where
  "hello_text n = ''Hello Server: client --> '' @ to_string n @ [CHR 0x0A]"

definition data_text :: "fd \<Rightarrow> string" where
  "data_text f = ''data from '' @ to_string f @ [CHR 0x0A]"

definition load_connect :: "connect_answer \<Rightarrow> load \<Rightarrow> (fd \<times> load) load_end" where
  "load_connect a s =
     (let s1 = s\<lparr>port_index := if port_index s + 1 \<ge> MAX_PORT then 0 else port_index s + 1\<rparr> in
      if n_connections s1 < 340000 \<and> isContinue s1 = 0 then
        (case a of
           NewConnection f \<Rightarrow>
             LoadOn [LConnect (port_index s1), LSend f (hello_text (n_connections s1)), LAdd f]
               (f, s1\<lparr>n_connections := n_connections s1 + 1\<rparr>)
         | _ \<Rightarrow> LoadError)
      else LoadOn [] (0, s1))"

text \<open>
  One event. \<^verbatim>\<open>recv\<close> fills at most the whole of the zeroed buffer; without a zero byte left,
  \<^verbatim>\<open>printf\<close> and \<^verbatim>\<open>strcmp\<close> read on behind it. The C string is what stands before the first zero.
\<close>

definition load_event_step :: "fd \<Rightarrow> load_event \<Rightarrow> load \<Rightarrow> load load_end" where
  "load_event_step sockfd e s =
     (if writable e then LoadOn [LSend sockfd (data_text (clientfd e))] s
      else if readable e then
        (case received e of
           Done _ bs \<Rightarrow>
             let data = take MAX_BUFFER bs in
             if data \<noteq> [] then
               if length data = MAX_BUFFER \<and> CHR 0x00 \<notin> set data then LoadUndefined
               else LoadOn [] (if takeWhile (\<lambda>ch. ch \<noteq> CHR 0x00) data = ''quit'' then s\<lparr>isContinue := 0\<rparr> else s)
             else LoadOn [LClose (clientfd e)] (s\<lparr>n_connections := n_connections s - 1\<rparr>)
         | Failed err \<Rightarrow> if err = EINTR then LoadOn [] s else LoadOn [LClose (clientfd e)] s)
      else LoadOn [LClose (clientfd e)] s)"

fun load_events :: "fd \<Rightarrow> load_event list \<Rightarrow> load \<Rightarrow> load load_end" where
  "load_events sockfd [] s = LoadOn [] s"
| "load_events sockfd (e # es) s =
     (case load_event_step sockfd e s of
        LoadOn cs s1 \<Rightarrow>
          (case load_events sockfd es s1 of LoadOn ds s2 \<Rightarrow> LoadOn (cs @ ds) s2 | x \<Rightarrow> x)
      | x \<Rightarrow> x)"

text \<open>\<^verbatim>\<open>%\<close> and \<open>mod\<close> agree on a count that is not negative.\<close>

definition load_turn :: "connect_answer \<Rightarrow> load_event list \<Rightarrow> load \<Rightarrow> load load_end" where
  "load_turn a es s =
     (case load_connect a s of
        LoadOn cs (sockfd, s1) \<Rightarrow>
          if n_connections s1 mod 1000 = 999 \<or> n_connections s1 \<ge> 340000 then
            (case load_events sockfd es s1 of
               LoadOn ds s2 \<Rightarrow> LoadOn (cs @ LWait (n_connections s1) # ds) s2
             | x \<Rightarrow> x)
          else LoadOn cs s1
      | LoadError \<Rightarrow> LoadError | LoadUndefined \<Rightarrow> LoadUndefined)"

section \<open>Bounds\<close>

text \<open>
  Turns of the loop, in which \<^verbatim>\<open>epoll_wait\<close> reports at most as many events as it is asked
  for, with descriptors that are not negative.
\<close>

inductive load_run :: "load_call list \<Rightarrow> load \<Rightarrow> bool" where
  load_begin: "load_run [] load_start"
| load_next: "load_run cs s \<Longrightarrow> load_turn a es s = LoadOn ds t \<Longrightarrow>
     (\<And>n. LWait n \<in> set ds \<Longrightarrow> int (length es) \<le> n) \<Longrightarrow>
     list_all (\<lambda>e. 0 \<le> clientfd e \<and> clientfd e < 2147483648) es \<Longrightarrow> load_run (cs @ ds) t"

definition load_inv :: "load \<Rightarrow> bool" where
  "load_inv s \<longleftrightarrow> 0 \<le> n_connections s \<and> n_connections s \<le> 340000 \<and> isContinue s = 0 \<and> port_index s = 0"

text \<open>A legal call: the events fit their array, and a text with its terminating zero fits its buffer.\<close>

definition call_ok :: "load_call \<Rightarrow> bool" where
  "call_ok x = (case x of LWait n \<Rightarrow> 0 < n \<and> n \<le> MAX_EPOLLSIZE | LConnect i \<Rightarrow> i = 0
     | LSend f bs \<Rightarrow> length bs + 1 \<le> MAX_BUFFER | _ \<Rightarrow> True)"

lemma text_fits:
  assumes "0 \<le> n" "n < 2147483648"
  shows "length (hello_text n) + 1 \<le> MAX_BUFFER" "length (data_text n) + 1 \<le> MAX_BUFFER"
proof -
  have "length (to_string n) \<le> 10"
    using nat_to_string_length [of "nat n" 10] assms by (simp add: to_string_nonneg)
  then show "length (hello_text n) + 1 \<le> MAX_BUFFER" "length (data_text n) + 1 \<le> MAX_BUFFER"
    by (simp_all add: hello_text_def data_text_def MAX_BUFFER_def)
qed

lemma load_connect_inv:
  assumes "load_connect a s = LoadOn cs (f, t)" "load_inv s"
  shows "load_inv t \<and> list_all call_ok cs \<and> (\<forall>n. LWait n \<notin> set cs)"
  using assms text_fits(1) [of "n_connections s"]
  by (auto simp: load_connect_def load_inv_def call_ok_def MAX_PORT_def Let_def split: if_splits connect_answer.splits)

lemma load_event_inv:
  assumes "load_event_step f e s = LoadOn cs t" "0 \<le> clientfd e" "clientfd e < 2147483648"
  shows "n_connections s - 1 \<le> n_connections t \<and> n_connections t \<le> n_connections s \<and>
    (isContinue s = 0 \<longrightarrow> isContinue t = 0) \<and> port_index t = port_index s \<and>
    list_all call_ok cs \<and> (\<forall>n. LWait n \<notin> set cs)"
  using assms text_fits(2) [of "clientfd e"]
  by (auto simp: load_event_step_def call_ok_def Let_def split: if_splits reply.splits)

lemma load_events_inv:
  assumes "load_events f es s = LoadOn cs t" "list_all (\<lambda>e. 0 \<le> clientfd e \<and> clientfd e < 2147483648) es"
  shows "n_connections s - int (length es) \<le> n_connections t \<and> n_connections t \<le> n_connections s \<and>
    (isContinue s = 0 \<longrightarrow> isContinue t = 0) \<and> port_index t = port_index s \<and>
    list_all call_ok cs \<and> (\<forall>n. LWait n \<notin> set cs)"
  using assms
proof (induction es arbitrary: s cs)
  case (Cons e es)
  obtain cs1 s1 where one: "load_event_step f e s = LoadOn cs1 s1"
    using Cons.prems(1) by (auto split: load_end.splits)
  then obtain cs2 where rest: "load_events f es s1 = LoadOn cs2 t" "cs = cs1 @ cs2"
    using Cons.prems(1) by (auto split: load_end.splits)
  show ?case
    using load_event_inv [OF one] Cons.IH [OF rest(1)] Cons.prems(2) rest(2) by auto
qed simp

text \<open>
  C36. The load generator keeps its bounds: in every run, whatever the kernel answers, the
  number of connections stays between 0 and 340000, all connections go to the first port,
  the array of events is large enough for each call of \<^verbatim>\<open>epoll_wait\<close> and the call asks for at
  least one event, and every text that is sent fits its buffer of 128 bytes.
\<close>

theorem load_within_bounds:
  assumes "load_run cs s"
  shows "0 \<le> n_connections s \<and> n_connections s \<le> 340000 \<and> list_all call_ok cs"
proof -
  have "load_inv s \<and> list_all call_ok cs" using assms
  proof induction
    case load_begin
    then show ?case by (simp add: load_inv_def load_start_def)
  next
    case (load_next cs s a es ds t)
    obtain cs1 f s1 where con: "load_connect a s = LoadOn cs1 (f, s1)"
      using load_next.hyps(2) by (auto simp: load_turn_def split: load_end.splits)
    note C = load_connect_inv [OF con conjunct1 [OF load_next.IH]]
    show ?case
    proof (cases "n_connections s1 mod 1000 = 999 \<or> n_connections s1 \<ge> 340000")
      case False
      then have "ds = cs1 \<and> t = s1" using load_next.hyps(2) by (simp add: load_turn_def con)
      then show ?thesis using C load_next.IH by simp
    next
      case True
      then obtain cs2 where ev: "load_events f es s1 = LoadOn cs2 t" "ds = cs1 @ LWait (n_connections s1) # cs2"
        using load_next.hyps(2) by (auto simp: load_turn_def con split: load_end.splits)
      have "int (length es) \<le> n_connections s1" using load_next.hyps(3) by (simp add: ev(2))
      moreover have "0 < n_connections s1"
        using True C by (cases "n_connections s1 = 0") (auto simp: load_inv_def)
      moreover from this have "call_ok (LWait (n_connections s1))"
        using C by (simp add: load_inv_def call_ok_def MAX_EPOLLSIZE_def)
      ultimately show ?thesis
        using load_events_inv [OF ev(1) load_next.hyps(4)] C load_next.IH ev(2)
        by (simp add: load_inv_def)
    qed
  qed
  then show ?thesis by (simp add: load_inv_def)
qed

section \<open>What it does not do right\<close>

text \<open>The answer to an event goes to the newest socket, whatever the event's own is.\<close>

lemma event_answer_misdirected:
  "writable e \<Longrightarrow> load_event_step f e s = LoadOn [LSend f (data_text (clientfd e))] s"
  by (simp add: load_event_step_def)

text \<open>A read that fills the buffer without a zero byte is not terminated.\<close>

lemma full_read_undefined:
  assumes "\<not> writable e" "readable e" "received e = Done n bs" "128 \<le> length bs" "CHR 0x00 \<notin> set bs"
  shows "load_event_step f e s = LoadUndefined"
proof -
  have "take 128 bs \<noteq> []" "length (take 128 bs) = 128" "CHR 0x00 \<notin> set (take 128 bs)"
    using assms(4,5) by (auto dest: in_set_takeD)
  then show ?thesis using assms(1-3) by (simp add: load_event_step_def MAX_BUFFER_def Let_def)
qed

section \<open>Witness\<close>

theorem load_within_bounds_witness:
  "\<exists>cs s. load_run cs s \<and> n_connections s = 1 \<and> list_all call_ok cs"
proof -
  obtain cs t where t: "load_turn (NewConnection 3) [] load_start = LoadOn cs t" "n_connections t = 1" "\<And>n. LWait n \<notin> set cs"
    by (simp add: load_turn_def load_connect_def load_start_def Let_def)
  have "load_run ([] @ cs) t" by (rule load_next [OF load_begin t(1)]) (use t(3) in simp_all)
  with t(2) load_within_bounds [OF this] show ?thesis by auto
qed

end
