(* ===== verification/MemDB.thy ===== *)
theory MemDB
  imports TCPConnection CxxString
begin

text \<open>
  \<^verbatim>\<open>src/examples/memdb.cc\<close>: an in-memory store that answers a part of the Redis protocol.
  Each connection has a \<^verbatim>\<open>Context\<close> in which \<^verbatim>\<open>parse\<close> collects a request line by line, over
  as many reads as it takes; \<^verbatim>\<open>onMessage\<close> answers a request that is complete. What a handler
  does to connections is a list of \<^typ>\<open>user_action\<close>; \<^const>\<open>None\<close> is an exception that
  escapes from the handler (\<^verbatim>\<open>stoi\<close>), or an access out of range.

  The lemmas show that parsing does not depend on how the text is cut into reads, that a
  context never lets \<^verbatim>\<open>cmds[0]\<close> go out of range, and that a client that waits for each answer
  talks to the abstract store of \<open>store_spec\<close>.
\<close>

section \<open>State\<close>

record Context =
  ctx_state :: int
  ctx_count :: int
  ctx_length :: nat
  cmds :: "string list"

definition Context_ctor :: Context where
  "Context_ctor = \<lparr>ctx_state = 0, ctx_count = 0, ctx_length = 0, cmds = []\<rparr>"

type_synonym store = "string \<rightharpoonup> string"

section \<open>Parsing\<close>

text \<open>
  One line, as the body of the loop treats it. \<^verbatim>\<open>str[0]\<close> of an empty string is the zero
  character; an \<^verbatim>\<open>int\<close> becomes a \<^verbatim>\<open>size_t\<close> modulo \<open>2 ^ 64\<close>. \<open>LineBad\<close> is \<^verbatim>\<open>return false\<close>.
\<close>

datatype line_end = LineThrew | LineBad Context | LineOk Context

definition first_char :: "string \<Rightarrow> char" where
  "first_char s = (case s of [] \<Rightarrow> CHR 0x00 | c # _ \<Rightarrow> c)"

definition parse_line :: "string \<Rightarrow> Context \<Rightarrow> line_end" where
  "parse_line str x0 =
     (let x = x0\<lparr>ctx_state := 1\<rparr> in
      if ctx_count x = 0 \<and> first_char str = CHR ''*'' then
        (case stoi (drop 1 str) of None \<Rightarrow> LineThrew | Some n \<Rightarrow> LineOk (x\<lparr>ctx_count := n\<rparr>))
      else if ctx_length x = 0 \<and> first_char str = CHR ''$'' then
        (case stoi (drop 1 str) of None \<Rightarrow> LineThrew
         | Some n \<Rightarrow> LineOk (x\<lparr>ctx_length := nat (n mod int size_mod)\<rparr>))
      else if 0 < ctx_length x then
        (if length str \<noteq> ctx_length x then LineBad x
         else
           let x1 = x\<lparr>cmds := cmds x @ [str], ctx_length := 0, ctx_count := ctx_count x - 1\<rparr>
           in LineOk (if ctx_count x1 = 0 then x1\<lparr>ctx_state := 2\<rparr> else x1))
      else LineOk x)"

text \<open>The loop over the lines in the buffer: whether it returned true, the buffer, the context.\<close>

function db_parse :: "string \<Rightarrow> Context \<Rightarrow> (bool \<times> string \<times> Context) option" where
  "db_parse buf x =
     (case search2 CHR 0x0D CHR 0x0A buf of
        None \<Rightarrow> Some (True, buf, x)
      | Some i \<Rightarrow>
          (case parse_line (take i buf) x of
             LineThrew \<Rightarrow> None
           | LineBad x1 \<Rightarrow> Some (False, buf, x1)
           | LineOk x1 \<Rightarrow> db_parse (drop (i + 2) buf) x1))"
  by pat_completeness auto

termination
  by (relation "measure (\<lambda>(buf, x). length buf)") (auto dest: search2_Some)

declare db_parse.simps [simp del]

section \<open>Answering\<close>

definition commandReply :: string where
  "commandReply = ''*7'' @ CR_LF @ ''$11'' @ CR_LF @ ''sunionstore'' @ CR_LF @ '':-3'' @ CR_LF @ ''*2'' @ CR_LF
     @ ''+write'' @ CR_LF @ ''+denyoom'' @ CR_LF @ '':1'' @ CR_LF @ '':-1'' @ CR_LF @ '':1'' @ CR_LF @ ''*3'' @ CR_LF
     @ ''+@write'' @ CR_LF @ ''+@set'' @ CR_LF @ ''+@slow'' @ CR_LF"

fun db_del :: "string list \<Rightarrow> store \<Rightarrow> int \<times> store" where
  "db_del [] db = (0, db)"
| "db_del (k # ks) db =
     (if db k \<noteq> None then (let (n, db1) = db_del ks (db(k := None)) in (n + 1, db1)) else db_del ks db)"

text \<open>
  The chain of tests on \<^verbatim>\<open>cmds[0]\<close>: what is sent, whether the handler goes on to clear the
  context (the \<^verbatim>\<open>return\<close> of a \<^verbatim>\<open>get\<close> without a key skips it), and the store.
\<close>

definition db_execute :: "string \<Rightarrow> string list \<Rightarrow> store \<Rightarrow> string \<times> bool \<times> store" where
  "db_execute cmd args db =
     (if cmd = ''COMMAND'' then (commandReply, True, db)
      else if cmd = ''GET'' \<or> cmd = ''get'' then
        (case args of
           [] \<Rightarrow> (''-ERR wrong number of arguments for '' @ [CHR 0x27] @ ''get'' @ [CHR 0x27] @ '' command'' @ CR_LF, False, db)
         | k # _ \<Rightarrow> (case db k of Some v \<Rightarrow> (''+'' @ v @ CR_LF, True, db) | None \<Rightarrow> (''$-1'' @ CR_LF, True, db)))
      else if cmd = ''SET'' \<or> cmd = ''set'' then
        (case args of
           k # v # _ \<Rightarrow> (''+ok'' @ CR_LF, True, db(k \<mapsto> v))
         | _ \<Rightarrow> (''-ERR wrong number of arguments for '' @ [CHR 0x27] @ ''set'' @ [CHR 0x27] @ '' command'' @ CR_LF, True, db))
      else if cmd = ''DEL'' \<or> cmd = ''del'' then
        (case db_del args db of (n, db1) \<Rightarrow> ('':'' @ to_string n @ CR_LF, True, db1))
      else (''-ERR unknown command '' @ cmd @ CR_LF, True, db))"

definition db_onMessage ::
  "conn_id \<Rightarrow> string \<Rightarrow> Context \<Rightarrow> store \<Rightarrow> (user_action list \<times> string \<times> Context \<times> store) option" where
  "db_onMessage c buffer x0 db =
     (case db_parse buffer x0 of
        None \<Rightarrow> None
      | Some (_, buf, x) \<Rightarrow>
          if ctx_state x = 2 then
            (case cmds x of
               [] \<Rightarrow> None
             | cmd # args \<Rightarrow>
                 (case db_execute cmd args db of
                    (r, clear, db1) \<Rightarrow>
                      Some ([ASend c r], buf, if clear then x\<lparr>cmds := [], ctx_state := 0\<rparr> else x, db1)))
          else Some ([], buf, x, db))"

text \<open>The context of a new connection; a connection that closes ends the server's loop.\<close>

definition db_onConnection :: "bool \<Rightarrow> loop_id \<Rightarrow> Context option \<Rightarrow> user_action list \<times> Context option" where
  "db_onConnection up l x = (if up then ([], Some Context_ctor) else ([AQuit l], x))"

text \<open>Successive reads on one connection: each appends to the buffer and calls the handler.\<close>

fun db_reads ::
  "conn_id \<Rightarrow> string list \<Rightarrow> string \<Rightarrow> Context \<Rightarrow> store \<Rightarrow> (user_action list \<times> string \<times> Context \<times> store) option" where
  "db_reads c [] buf x db = Some ([], buf, x, db)"
| "db_reads c (r # rs) buf x db =
     (case db_onMessage c (buf @ r) x db of
        None \<Rightarrow> None
      | Some (a, buf1, x1, db1) \<Rightarrow>
          (case db_reads c rs buf1 x1 db1 of
             None \<Rightarrow> None
           | Some (as, e) \<Rightarrow> Some (a @ as, e)))"

section \<open>Parsing does not depend on the reads\<close>

lemma db_parse_none:
  "search2 CHR 0x0D CHR 0x0A buf = None \<Longrightarrow> db_parse buf x = Some (True, buf, x)"
  by (simp add: db_parse.simps)

lemma db_parse_line:
  assumes "CHR 0x0A \<notin> set l"
  shows "db_parse (l @ CR_LF @ rest) x =
    (case parse_line l x of LineThrew \<Rightarrow> None | LineBad x1 \<Rightarrow> Some (False, l @ CR_LF @ rest, x1)
     | LineOk x1 \<Rightarrow> db_parse rest x1)"
proof -
  have "search2 CHR 0x0D CHR 0x0A (l @ CR_LF @ rest) = Some (length l)"
    using search2_first [of "CHR 0x0D" "CHR 0x0A" l rest] assms by simp
  then show ?thesis by (subst db_parse.simps) (simp split: line_end.split)
qed

lemma db_parse_rest: "db_parse buf x = Some (True, r, x') \<Longrightarrow> search2 CHR 0x0D CHR 0x0A r = None"
proof (induction buf x rule: db_parse.induct)
  case (1 buf x)
  from "1.prems" show ?case
    unfolding db_parse.simps [of buf x] by (auto split: option.splits line_end.splits dest: "1.IH")
qed

text \<open>
  C24. Parsing is independent of the reads: to parse a text at once is the same as to parse
  its first part, and then the bytes this leaves with the second part, unless the first part
  already stopped at an error; this holds for every text, context and cut.
\<close>

theorem db_parse_incremental:
  "db_parse (a @ b) x =
    (case db_parse a x of
       None \<Rightarrow> None
     | Some (False, r, x') \<Rightarrow> Some (False, r @ b, x')
     | Some (True, r, x') \<Rightarrow> db_parse (r @ b) x')"
proof (induction a x rule: db_parse.induct)
  case (1 a x)
  show ?case
  proof (cases "search2 CHR 0x0D CHR 0x0A a")
    case None
    then show ?thesis by (simp add: db_parse_none)
  next
    case (Some i)
    then have at: "search2 CHR 0x0D CHR 0x0A (a @ b) = Some i" and le: "i + 2 \<le> length a"
      using search2_append search2_Some by fastforce+
    then have parts: "take i (a @ b) = take i a" "drop (i + 2) (a @ b) = drop (i + 2) a @ b" by simp_all
    note step = db_parse.simps [of a x] db_parse.simps [of "a @ b" x]
    show ?thesis
      unfolding step at Some parts option.case using 1 [OF Some]
      by (cases "parse_line (take i a) x") simp_all
  qed
qed

section \<open>What a context may hold\<close>

definition ctx_ok :: "Context \<Rightarrow> bool" where
  "ctx_ok x \<longleftrightarrow> ctx_state x \<in> {0, 1, 2} \<and> (if ctx_state x = 2 then cmds x \<noteq> [] else True)
     \<and> ctx_length x < size_mod"

lemma ctx_ok_ctor: "ctx_ok Context_ctor"
  by (simp add: ctx_ok_def Context_ctor_def size_mod_def)

lemma parse_line_ok:
  assumes "ctx_ok x"
  shows "parse_line l x = LineOk y \<Longrightarrow> ctx_ok y" "parse_line l x = LineBad y \<Longrightarrow> ctx_ok y"
  using assms
  by (auto simp: parse_line_def ctx_ok_def Let_def size_mod_def nat_less_iff split: if_splits option.splits)

lemma db_parse_ok: "ctx_ok x \<Longrightarrow> db_parse buf x = Some (b, r, y) \<Longrightarrow> ctx_ok y"
proof (induction buf x rule: db_parse.induct)
  case (1 buf x)
  from "1.prems" show ?case
    unfolding db_parse.simps [of buf x]
    by (auto split: option.splits line_end.splits dest: parse_line_ok "1.IH")
qed

text \<open>
  C25. A context is always well formed, so that \<^verbatim>\<open>cmds[0]\<close> is never out of range: from a well
  formed context, whatever the bytes, the handler either leaves a well formed one, or throws,
  and then it was \<^verbatim>\<open>stoi\<close> that threw while parsing.
\<close>

theorem db_context_typed:
  assumes "ctx_ok x"
  shows "case db_onMessage c buf x db of None \<Rightarrow> db_parse buf x = None | Some (_, _, x', _) \<Rightarrow> ctx_ok x'"
proof (cases "db_parse buf x")
  case None
  then show ?thesis by (simp add: db_onMessage_def)
next
  case (Some p)
  obtain b r y where p: "p = (b, r, y)" by (cases p)
  have ok: "ctx_ok y" using db_parse_ok [OF assms] Some by (simp add: p)
  show ?thesis
  proof (cases "ctx_state y = 2")
    case True
    then obtain cmd args where "cmds y = cmd # args" using ok by (cases "cmds y") (auto simp: ctx_ok_def)
    then show ?thesis using True ok Some
      by (auto simp: db_onMessage_def p ctx_ok_def split: prod.split)
  next
    case False
    then show ?thesis using ok Some by (simp add: db_onMessage_def p)
  qed
qed

section \<open>The abstract store\<close>

datatype request = SetReq string string | GetReq string | DelReq "string list" | CommandReq

fun request_args :: "request \<Rightarrow> string list" where
  "request_args (SetReq k v) = [''SET'', k, v]"
| "request_args (GetReq k) = [''GET'', k]"
| "request_args (DelReq ks) = ''DEL'' # ks"
| "request_args CommandReq = [''COMMAND'']"

text \<open>What the store promises: the answer to a request, and the store after it.\<close>

fun store_spec :: "request \<Rightarrow> store \<Rightarrow> string \<times> store" where
  "store_spec (SetReq k v) db = (''+ok'' @ CR_LF, db(k \<mapsto> v))"
| "store_spec (GetReq k) db = (case db k of Some v \<Rightarrow> ''+'' @ v @ CR_LF | None \<Rightarrow> ''$-1'' @ CR_LF, db)"
| "store_spec (DelReq ks) db = ('':'' @ to_string (int (card (set ks \<inter> dom db))) @ CR_LF, db |` (- set ks))"
| "store_spec CommandReq db = (commandReply, db)"

fun store_specs :: "request list \<Rightarrow> store \<Rightarrow> string list \<times> store" where
  "store_specs [] db = ([], db)"
| "store_specs (q # qs) db =
     (let (r, db1) = store_spec q db; (rs, db2) = store_specs qs db1 in (r # rs, db2))"

text \<open>A request on the wire: the number of its words, then each word behind its length.\<close>

definition word_lines :: "string \<Rightarrow> string list" where
  "word_lines w = [''$'' @ to_string (int (length w)), w]"

definition request_lines :: "string list \<Rightarrow> string list" where
  "request_lines ws = (''*'' @ to_string (int (length ws))) # concat (map word_lines ws)"

definition wire_lines :: "string list \<Rightarrow> string" where
  "wire_lines ls = concat (map (\<lambda>l. l @ CR_LF) ls)"

definition word_ok :: "string \<Rightarrow> bool" where
  "word_ok w \<longleftrightarrow> w \<noteq> [] \<and> CHR 0x0A \<notin> set w \<and> length w < 2147483648"

definition request_ok :: "request \<Rightarrow> bool" where
  "request_ok q \<longleftrightarrow> list_all word_ok (request_args q) \<and> length (request_args q) < 2147483648"

lemma db_del_spec: "db_del ks db = (int (card (set ks \<inter> dom db)), db |` (- set ks))"
proof (induction ks db rule: db_del.induct)
  case (1 db)
  show ?case by (simp add: restrict_map_def)
next
  case (2 k ks db)
  show ?case
  proof (cases "db k")
    case None
    then have "set (k # ks) \<inter> dom db = set ks \<inter> dom db" by auto
    moreover have "db |` (- set (k # ks)) = db |` (- set ks)" using None by (auto simp: restrict_map_def fun_eq_iff)
    ultimately show ?thesis using 2(2) None by simp
  next
    case (Some v)
    define db1 where "db1 = db(k := None)"
    have "set (k # ks) \<inter> dom db = insert k (set ks \<inter> dom db1)" using Some by (auto simp: db1_def)
    moreover have "k \<notin> set ks \<inter> dom db1" by (simp add: db1_def)
    ultimately have card: "card (set (k # ks) \<inter> dom db) = Suc (card (set ks \<inter> dom db1))" by simp
    have rest: "db |` (- set (k # ks)) = db1 |` (- set ks)"
      by (auto simp: db1_def restrict_map_def fun_eq_iff)
    have "db_del (k # ks) db = (let (n, d) = db_del ks db1 in (n + 1, d))" using Some by (simp add: db1_def)
    also have "db_del ks db1 = (int (card (set ks \<inter> dom db1)), db1 |` (- set ks))"
      unfolding db1_def by (rule 2(1)) (simp add: Some)
    finally show ?thesis unfolding card rest by simp
  qed
qed

lemma db_execute_spec:
  "request_ok q \<Longrightarrow> db_execute (hd (request_args q)) (tl (request_args q)) db =
     (fst (store_spec q db), True, snd (store_spec q db))"
  by (cases q) (auto simp: db_execute_def db_del_spec split: option.split)

section \<open>A client that waits for its answers\<close>

fun run_lines :: "string list \<Rightarrow> Context \<Rightarrow> Context option" where
  "run_lines [] x = Some x"
| "run_lines (l # ls) x = (case parse_line l x of LineOk y \<Rightarrow> run_lines ls y | _ \<Rightarrow> None)"

definition no_LF :: "string \<Rightarrow> bool" where
  "no_LF s \<longleftrightarrow> CHR 0x0A \<notin> set s"

lemma wire_lines_simps [simp]:
  "wire_lines [] = []" "wire_lines (l # ls) = l @ CR_LF @ wire_lines ls"
  by (simp_all add: wire_lines_def)

lemma run_lines_append: "run_lines (ks @ ls) x = Option.bind (run_lines ks x) (run_lines ls)"
  by (induction ks x rule: run_lines.induct) (simp_all split: line_end.split)

lemma db_parse_wire:
  assumes "list_all no_LF ls" "run_lines ls x = Some y" "search2 CHR 0x0D CHR 0x0A p = None"
  shows "db_parse (wire_lines ls @ p) x = Some (True, p, y)"
  using assms
proof (induction ls arbitrary: x)
  case Nil
  then show ?case by (simp add: db_parse_none)
next
  case (Cons l ls)
  then obtain z where z: "parse_line l x = LineOk z" "run_lines ls z = Some y"
    by (auto split: line_end.splits)
  have "db_parse (l @ CR_LF @ (wire_lines ls @ p)) x = db_parse (wire_lines ls @ p) z"
    using db_parse_line [of l "wire_lines ls @ p" x] Cons.prems(1) z(1) by (simp add: no_LF_def)
  then show ?case using Cons z(2) by simp
qed

lemma append_longer: "a @ c = b @ d \<Longrightarrow> length a \<le> length b \<Longrightarrow> \<exists>u. b = a @ u \<and> c = u @ d"
  by (auto simp: append_eq_append_conv2)

lemma wire_cut:
  assumes "list_all no_LF ls" "wire_lines ls = b @ rest"
  shows "\<exists>k p. k \<le> length ls \<and> b = wire_lines (take k ls) @ p \<and> search2 CHR 0x0D CHR 0x0A p = None \<and>
    p @ rest = wire_lines (drop k ls)"
  using assms
proof (induction ls arbitrary: b)
  case Nil
  then show ?case by simp
next
  case (Cons l ls)
  show ?case
  proof (cases "length l + 2 \<le> length b")
    case True
    then obtain u where u: "b = (l @ CR_LF) @ u" "wire_lines ls = u @ rest"
      using append_longer [of "l @ CR_LF" "wire_lines ls" b rest] Cons.prems(2) by auto
    then obtain k p where k: "k \<le> length ls" "u = wire_lines (take k ls) @ p"
        "search2 CHR 0x0D CHR 0x0A p = None" "p @ rest = wire_lines (drop k ls)"
      using Cons.IH [of u] Cons.prems(1) by auto
    show ?thesis by (rule exI [of _ "Suc k"], rule exI [of _ p]) (use k u(1) in simp)
  next
    case False
    obtain u where "l @ [CHR 0x0D] = b @ u"
      using append_longer [of b rest "l @ [CHR 0x0D]" "CHR 0x0A # wire_lines ls"] Cons.prems(2) False by auto
    then have "set b \<subseteq> set (l @ [CHR 0x0D])" by (metis set_append Un_upper1)
    then have "CHR 0x0A \<notin> set b" using Cons.prems(1) by (auto simp: no_LF_def)
    then show ?thesis using Cons.prems(2) by (intro exI [of _ 0] exI [of _ b]) (simp add: search2_None)
  qed
qed

lemma wire_whole:
  assumes "search2 CHR 0x0D CHR 0x0A (wire_lines ls) = None" "list_all no_LF ls"
  shows "ls = []"
proof (rule ccontr)
  assume "ls \<noteq> []"
  then obtain l ks where "ls = l # ks" by (cases ls) auto
  then show False using assms search2_first [of "CHR 0x0D" "CHR 0x0A" l "wire_lines ks"]
    by (simp add: no_LF_def)
qed

lemma parse_count_line:
  assumes "ctx_count x = 0" "n < 2147483648"
  shows "parse_line (''*'' @ to_string (int n)) x = LineOk (x\<lparr>ctx_state := 1, ctx_count := int n\<rparr>)"
  using assms by (simp add: parse_line_def first_char_def to_string_nonneg stoi_to_string)

lemma parse_length_line:
  assumes "ctx_length x = 0" "n < 2147483648"
  shows "parse_line (''$'' @ to_string (int n)) x = LineOk (x\<lparr>ctx_state := 1, ctx_length := n\<rparr>)"
  using assms by (simp add: parse_line_def first_char_def to_string_nonneg stoi_to_string size_mod_def)

lemma parse_word_line:
  assumes "0 < ctx_length x" "length w = ctx_length x" "ctx_count x \<noteq> 0"
  shows "parse_line w x = LineOk (x\<lparr>ctx_state := if ctx_count x = 1 then 2 else 1,
    cmds := cmds x @ [w], ctx_length := 0, ctx_count := ctx_count x - 1\<rparr>)"
  using assms by (simp add: parse_line_def)

lemma run_word:
  assumes "word_ok w" "ctx_length x = 0" "ctx_count x \<noteq> 0"
  shows "run_lines (word_lines w) x = Some (x\<lparr>ctx_state := if ctx_count x = 1 then 2 else 1,
    cmds := cmds x @ [w], ctx_count := ctx_count x - 1\<rparr>)"
    "parse_line (''$'' @ to_string (int (length w))) x = LineOk (x\<lparr>ctx_state := 1, ctx_length := length w\<rparr>)"
proof -
  have len: "0 < length w" "length w < 2147483648" using assms(1) by (auto simp: word_ok_def)
  show l: "parse_line (''$'' @ to_string (int (length w))) x = LineOk (x\<lparr>ctx_state := 1, ctx_length := length w\<rparr>)"
    by (rule parse_length_line [OF assms(2) len(2)])
  have w: "parse_line w (x\<lparr>ctx_state := 1, ctx_length := length w\<rparr>) =
      LineOk (x\<lparr>ctx_state := if ctx_count x = 1 then 2 else 1, cmds := cmds x @ [w],
        ctx_length := 0, ctx_count := ctx_count x - 1\<rparr>)"
    using parse_word_line [of "x\<lparr>ctx_state := 1, ctx_length := length w\<rparr>" w] len(1) assms(3) by simp
  have "run_lines (word_lines w) x = Some (x\<lparr>ctx_state := if ctx_count x = 1 then 2 else 1, cmds := cmds x @ [w],
        ctx_length := 0, ctx_count := ctx_count x - 1\<rparr>)"
    by (simp only: word_lines_def run_lines.simps l w line_end.case)
  also have "\<dots> = Some (x\<lparr>ctx_state := if ctx_count x = 1 then 2 else 1, cmds := cmds x @ [w],
      ctx_count := ctx_count x - 1\<rparr>)" using assms(2) by (cases x) simp
  finally show "run_lines (word_lines w) x = \<dots>" .
qed

lemma run_words:
  assumes "list_all word_ok ws" "ctx_length x = 0" "ctx_count x = int (length ws)" "ws \<noteq> []"
  shows "run_lines (concat (map word_lines ws)) x = Some (x\<lparr>ctx_state := 2, cmds := cmds x @ ws, ctx_count := 0\<rparr>)"
  using assms
proof (induction ws arbitrary: x)
  case (Cons w ws)
  have step: "run_lines (word_lines w) x = Some (x\<lparr>ctx_state := if ctx_count x = 1 then 2 else 1,
      cmds := cmds x @ [w], ctx_count := ctx_count x - 1\<rparr>)"
    using run_word(1) [of w x] Cons.prems by simp
  show ?case
  proof (cases "ws = []")
    case True
    then show ?thesis using step Cons.prems by (simp add: run_lines_append)
  next
    case False
    then show ?thesis using step Cons.prems Cons.IH [of "x\<lparr>ctx_state := if ctx_count x = 1 then 2 else 1,
      cmds := cmds x @ [w], ctx_count := ctx_count x - 1\<rparr>"] by (simp add: run_lines_append)
  qed
qed simp

lemma run_words_before:
  assumes "list_all word_ok ws" "ctx_length x = 0" "ctx_count x = int (length ws)" "ctx_state x \<noteq> 2"
    and "k < length (concat (map word_lines ws))"
  shows "\<exists>y. run_lines (take k (concat (map word_lines ws))) x = Some y \<and> ctx_state y \<noteq> 2"
  using assms
proof (induction ws arbitrary: x k)
  case (Cons w ws)
  have w: "word_ok w" "ctx_count x \<noteq> 0" using Cons.prems by auto
  note R = run_word [OF w(1) Cons.prems(2) w(2)]
  consider "k = 0" | "k = 1" | "2 \<le> k" by linarith
  then show ?case
  proof cases
    case 1
    then show ?thesis using Cons.prems(4) by simp
  next
    case 2
    then have "take k (concat (map word_lines (w # ws))) = [''$'' @ to_string (int (length w))]"
      by (simp add: word_lines_def)
    then show ?thesis using R(2) by simp
  next
    case 3
    have len: "length (word_lines w) = 2" by (simp add: word_lines_def)
    have more: "k - 2 < length (concat (map word_lines ws))" using Cons.prems(5) 3 len by simp
    then have "ws \<noteq> []" by auto
    then have "ctx_count x \<noteq> 1" using Cons.prems(3) by (cases ws) auto
    then obtain y where "run_lines (take (k - 2) (concat (map word_lines ws)))
        (x\<lparr>ctx_state := 1, cmds := cmds x @ [w], ctx_count := ctx_count x - 1\<rparr>) = Some y" "ctx_state y \<noteq> 2"
      using Cons.IH [of "x\<lparr>ctx_state := 1, cmds := cmds x @ [w], ctx_count := ctx_count x - 1\<rparr>" "k - 2"]
        Cons.prems more by auto
    moreover have "take k (concat (map word_lines (w # ws))) =
        word_lines w @ take (k - 2) (concat (map word_lines ws))" using 3 len by simp
    ultimately show ?thesis using R(1) \<open>ctx_count x \<noteq> 1\<close> by (simp add: run_lines_append)
  qed
qed simp

lemma run_request_from:
  assumes "list_all word_ok ws" "ws \<noteq> []" "length ws < 2147483648" "ctx_count x = 0" "ctx_length x = 0"
  shows "run_lines (request_lines ws) x = Some (x\<lparr>ctx_state := 2, cmds := cmds x @ ws\<rparr>)"
proof -
  let ?x = "x\<lparr>ctx_state := 1, ctx_count := int (length ws)\<rparr>"
  have count: "parse_line (''*'' @ to_string (int (length ws))) x = LineOk ?x"
    by (rule parse_count_line [OF assms(4) assms(3)])
  have "run_lines (concat (map word_lines ws)) ?x = Some (?x\<lparr>ctx_state := 2, cmds := cmds ?x @ ws, ctx_count := 0\<rparr>)"
    using run_words [of ws ?x] assms by simp
  then have "run_lines (request_lines ws) x = Some (?x\<lparr>ctx_state := 2, cmds := cmds ?x @ ws, ctx_count := 0\<rparr>)"
    unfolding request_lines_def run_lines.simps count by simp
  then show ?thesis using assms(4) by (cases x) simp
qed

lemma run_request:
  assumes "list_all word_ok ws" "ws \<noteq> []" "length ws < 2147483648"
  shows "run_lines (request_lines ws) Context_ctor = Some (Context_ctor\<lparr>ctx_state := 2, cmds := ws\<rparr>)"
    "k < length (request_lines ws) \<Longrightarrow>
      \<exists>y. run_lines (take k (request_lines ws)) Context_ctor = Some y \<and> ctx_state y \<noteq> 2"
proof -
  let ?x = "Context_ctor\<lparr>ctx_state := 1, ctx_count := int (length ws)\<rparr>"
  have count: "parse_line (''*'' @ to_string (int (length ws))) Context_ctor = LineOk ?x"
    using parse_count_line [of Context_ctor "length ws"] assms(3) by (simp add: Context_ctor_def)
  show "run_lines (request_lines ws) Context_ctor = Some (Context_ctor\<lparr>ctx_state := 2, cmds := ws\<rparr>)"
    using run_request_from [OF assms, of Context_ctor] by (simp add: Context_ctor_def)
  assume k: "k < length (request_lines ws)"
  show "\<exists>y. run_lines (take k (request_lines ws)) Context_ctor = Some y \<and> ctx_state y \<noteq> 2"
  proof (cases k)
    case 0
    then show ?thesis by (simp add: Context_ctor_def)
  next
    case (Suc j)
    then have "j < length (concat (map word_lines ws))" using k by (simp add: request_lines_def)
    then have "\<exists>y. run_lines (take j (concat (map word_lines ws))) ?x = Some y \<and> ctx_state y \<noteq> 2"
      using run_words_before [of ws ?x j] assms(1) by (simp add: Context_ctor_def)
    then show ?thesis unfolding Suc request_lines_def take_Suc_Cons run_lines.simps count line_end.case .
  qed
qed

lemma request_lines_no_LF: "list_all word_ok ws \<Longrightarrow> list_all no_LF (request_lines ws)"
  by (induction ws) (auto simp: request_lines_def word_lines_def no_LF_def word_ok_def to_string_nonneg
      nat_to_string_no_LF)

lemma request_okD:
  assumes "request_ok q"
  shows "list_all word_ok (request_args q)" "request_args q \<noteq> []" "length (request_args q) < 2147483648"
  using assms by (cases q; simp add: request_ok_def)+

definition request_wire :: "request \<Rightarrow> string" where
  "request_wire q = wire_lines (request_lines (request_args q))"

lemma db_onMessage_waiting:
  "db_parse buf x = Some (True, p, y) \<Longrightarrow> ctx_state y \<noteq> 2 \<Longrightarrow> db_onMessage c buf x db = Some ([], p, y, db)"
  by (simp add: db_onMessage_def)

lemma db_onMessage_complete:
  assumes "db_parse buf x = Some (True, p, Context_ctor\<lparr>ctx_state := 2, cmds := request_args q\<rparr>)" "request_ok q"
  shows "db_onMessage c buf x db = Some ([ASend c (fst (store_spec q db))], p, Context_ctor, snd (store_spec q db))"
proof -
  obtain cmd args where a: "request_args q = cmd # args" using request_okD(2) [OF assms(2)] by (cases "request_args q") auto
  show ?thesis using assms(1) db_execute_spec [OF assms(2), of db] by (simp add: db_onMessage_def a Context_ctor_def)
qed

lemma db_reads_idle: "concat rs = [] \<Longrightarrow> db_reads c rs [] Context_ctor db = Some ([], [], Context_ctor, db)"
proof (induction rs)
  case (Cons r rs)
  then have "db_onMessage c r Context_ctor db = Some ([], [], Context_ctor, db)"
    using db_onMessage_waiting [of "[]" Context_ctor "[]" Context_ctor]
    by (simp add: db_parse_none Context_ctor_def)
  then show ?case using Cons by simp
qed simp

lemma db_reads_request:
  assumes q: "request_ok q" and L: "L = request_lines (request_args q)" and k: "k < length L"
    and y: "run_lines (take k L) Context_ctor = Some y"
    and buf: "search2 CHR 0x0D CHR 0x0A buf = None" and reads: "buf @ concat rs = wire_lines (drop k L)"
  shows "db_reads c rs buf y db = Some ([ASend c (fst (store_spec q db))], [], Context_ctor, snd (store_spec q db))"
  using k y buf reads
proof (induction rs arbitrary: buf k y)
  case Nil
  have "list_all no_LF (drop k L)"
    using request_lines_no_LF [OF request_okD(1) [OF q]] by (auto simp: L list_all_iff dest: in_set_dropD)
  then show ?case using wire_whole [of "drop k L"] Nil by simp
next
  case (Cons r rs)
  have noLF: "list_all no_LF L" using request_lines_no_LF [OF request_okD(1) [OF q]] by (simp add: L)
  then have noLF': "list_all no_LF (drop k L)" by (auto simp: list_all_iff dest: in_set_dropD)
  obtain j p where j: "j \<le> length (drop k L)" "buf @ r = wire_lines (take j (drop k L)) @ p"
      "search2 CHR 0x0D CHR 0x0A p = None" "p @ concat rs = wire_lines (drop j (drop k L))"
    using wire_cut [OF noLF', of "buf @ r" "concat rs"] Cons.prems(4) by auto
  have "\<exists>z. run_lines (take (k + j) L) Context_ctor = Some z \<and>
      (if k + j = length L then z = Context_ctor\<lparr>ctx_state := 2, cmds := request_args q\<rparr> else ctx_state z \<noteq> 2)"
  proof (cases "k + j = length L")
    case True
    then show ?thesis using run_request(1) [OF request_okD [OF q]] by (simp add: L)
  next
    case False
    then have "k + j < length (request_lines (request_args q))" using j(1) Cons.prems(1) by (simp add: L)
    from run_request(2) [OF request_okD [OF q] this] False show ?thesis by (simp add: L)
  qed
  then obtain z where z: "run_lines (take (k + j) L) Context_ctor = Some z"
      "if k + j = length L then z = Context_ctor\<lparr>ctx_state := 2, cmds := request_args q\<rparr> else ctx_state z \<noteq> 2"
    by blast
  have "take (k + j) L = take k L @ take j (drop k L)" by (simp add: take_add)
  then have "run_lines (take j (drop k L)) y = Some z" using z(1) Cons.prems(2) by (simp add: run_lines_append)
  moreover have "list_all no_LF (take j (drop k L))" using noLF' by (auto simp: list_all_iff dest: in_set_takeD)
  ultimately have parse: "db_parse (buf @ r) y = Some (True, p, z)"
    using db_parse_wire j(2,3) by simp
  show ?case
  proof (cases "k + j = length L")
    case True
    then have "p = []" "concat rs = []" using j(4) by simp_all
    then show ?thesis using parse True z(2) db_onMessage_complete [OF _ q] db_reads_idle
      by (simp del: concat_eq_Nil_conv)
  next
    case False
    then have "k + j < length L" using j(1) Cons.prems(1) by simp
    from Cons.IH [OF this z(1) j(3)] j(4) have "db_reads c rs p z db =
        Some ([ASend c (fst (store_spec q db))], [], Context_ctor, snd (store_spec q db))"
      by (simp add: add.commute)
    then show ?thesis using db_onMessage_waiting [OF parse, of c db] False z(2) by simp
  qed
qed

lemma db_reads_append:
  "db_reads c (rs @ ss) buf x db =
     (case db_reads c rs buf x db of None \<Rightarrow> None
      | Some (a, buf1, x1, db1) \<Rightarrow>
          (case db_reads c ss buf1 x1 db1 of None \<Rightarrow> None | Some (b, e) \<Rightarrow> Some (a @ b, e)))"
  by (induction rs arbitrary: buf x db) (auto split: option.split prod.split)

text \<open>
  C8. A client that waits for each answer talks to the abstract store: when each request is
  made of non-empty words without a line feed and arrives in any number of pieces, the
  server's answers, and the store it ends with, are those of \<open>store_spec\<close>; it sends one
  answer for each request, and nothing is left in the buffer or the context.
\<close>

theorem memdb_refines_store:
  assumes "list_all request_ok qs" "map concat rss = map request_wire qs"
  shows "db_reads c (concat rss) [] Context_ctor db =
    Some (map (ASend c) (fst (store_specs qs db)), [], Context_ctor, snd (store_specs qs db))"
  using assms
proof (induction qs arbitrary: rss db)
  case Nil
  then show ?case by simp
next
  case (Cons q qs)
  then obtain rs rss' where rss: "rss = rs # rss'" "concat rs = request_wire q" "map concat rss' = map request_wire qs"
    by (cases rss) auto
  have "db_reads c rs [] Context_ctor db =
      Some ([ASend c (fst (store_spec q db))], [], Context_ctor, snd (store_spec q db))"
    using db_reads_request [of q _ 0 Context_ctor "[]" rs c db] Cons.prems(1) rss(2)
    by (simp add: request_wire_def request_lines_def)
  then show ?case using Cons.IH [of rss' "snd (store_spec q db)"] Cons.prems(1) rss
    by (simp add: db_reads_append split_beta)
qed

definition set_and_get :: "request list" where
  "set_and_get = [SetReq ''k'' ''v'', GetReq ''k'']"

theorem memdb_refines_store_witness:
  "db_reads 3 (concat [[take 7 (request_wire (SetReq ''k'' ''v'')), drop 7 (request_wire (SetReq ''k'' ''v''))],
       [request_wire (GetReq ''k'')]]) [] Context_ctor Map.empty =
     Some ([ASend 3 (''+ok'' @ CR_LF), ASend 3 (''+v'' @ CR_LF)], [], Context_ctor, [''k'' \<mapsto> ''v''])"
proof -
  have "list_all request_ok set_and_get" by (simp add: set_and_get_def request_ok_def word_ok_def)
  from memdb_refines_store [OF this, of "[[take 7 (request_wire (SetReq ''k'' ''v'')),
    drop 7 (request_wire (SetReq ''k'' ''v''))], [request_wire (GetReq ''k'')]]" 3 Map.empty]
  show ?thesis by (simp add: set_and_get_def)
qed

theorem db_context_typed_witness:
  "case db_onMessage 3 (''$x'' @ CR_LF) Context_ctor Map.empty of
     None \<Rightarrow> db_parse (''$x'' @ CR_LF) Context_ctor = None | Some (_, _, x', _) \<Rightarrow> ctx_ok x'"
  by (rule db_context_typed [OF ctx_ok_ctor])

section \<open>A client that does not wait\<close>

text \<open>
  A client that sends its next request before the answer loses it: of two requests that
  arrive with one read, the words of the second are added to the words of the first, and the
  server executes and answers only the first command.
\<close>

theorem memdb_pipelined:
  assumes "request_ok q1" "request_ok q2"
  shows "db_onMessage c (request_wire q1 @ request_wire q2) Context_ctor db =
    (case db_execute (hd (request_args q1)) (tl (request_args q1) @ request_args q2) db of
       (r, clear, db1) \<Rightarrow> Some ([ASend c r], [],
         if clear then Context_ctor else Context_ctor\<lparr>ctx_state := 2, cmds := request_args q1 @ request_args q2\<rparr>, db1))"
proof -
  note A = request_okD [OF assms(1)] and B = request_okD [OF assms(2)]
  let ?L = "request_lines (request_args q1) @ request_lines (request_args q2)"
  let ?y = "Context_ctor\<lparr>ctx_state := 2, cmds := request_args q1 @ request_args q2\<rparr>"
  have "run_lines ?L Context_ctor = Some ?y"
    using run_request(1) [OF A] run_request_from [OF B, of "Context_ctor\<lparr>ctx_state := 2, cmds := request_args q1\<rparr>"]
    by (simp add: run_lines_append Context_ctor_def)
  moreover have "list_all no_LF ?L" using request_lines_no_LF A(1) B(1) by simp
  moreover have "wire_lines ?L = request_wire q1 @ request_wire q2"
    by (simp add: request_wire_def wire_lines_def)
  ultimately have "db_parse (request_wire q1 @ request_wire q2) Context_ctor = Some (True, [], ?y)"
    using db_parse_wire [of ?L Context_ctor ?y "[]"] by simp
  moreover obtain cmd args where "request_args q1 = cmd # args" using A(2) by (cases "request_args q1") auto
  ultimately show ?thesis by (simp add: db_onMessage_def Context_ctor_def split: prod.split)
qed

theorem memdb_pipelined_witness:
  "db_onMessage 3 (request_wire (GetReq ''k'') @ request_wire (SetReq ''k'' ''v'')) Context_ctor Map.empty =
     Some ([ASend 3 (''$-1'' @ CR_LF)], [], Context_ctor, Map.empty)"
proof -
  have "request_ok (GetReq ''k'')" "request_ok (SetReq ''k'' ''v'')"
    by (simp_all add: request_ok_def word_ok_def)
  from memdb_pipelined [OF this, of 3 Map.empty] show ?thesis by (simp add: db_execute_def)
qed

text \<open>A \<^verbatim>\<open>get\<close> without a key leaves its word in the context: the next read answers it again.\<close>

lemma get_without_key_repeats:
  "ctx_state x = 2 \<Longrightarrow> cmds x = [''GET''] \<Longrightarrow>
     db_onMessage c [] x db = Some ([ASend c (fst (db_execute ''GET'' [] db))], [], x, db)"
  by (simp add: db_onMessage_def db_parse_none db_execute_def)

text \<open>An empty word is skipped: its line does not count, and the request never completes.\<close>

lemma empty_word_skipped:
  "ctx_length x = 0 \<Longrightarrow> ctx_count x \<noteq> 0 \<Longrightarrow>
     run_lines (word_lines []) x = Some (x\<lparr>ctx_state := 1\<rparr>)"
  using parse_length_line [of x 0]
  by (cases x) (simp add: word_lines_def parse_line_def first_char_def)

end
