(* ===== verification/SubPub.thy ===== *)
theory SubPub
  imports TCPConnection CxxString "HOL-Library.List_Lexorder" "HOL-Library.Char_ord"
begin

text \<open>
  \<^verbatim>\<open>src/examples/subpub.cc\<close>: a server on which clients subscribe to topics and publish to
  them. The map \<^verbatim>\<open>conns\<close> holds the subscribers of a topic in the order they subscribed; the
  context of a connection holds the set of its topics. A handler's calls on connections are a
  list of \<^typ>\<open>user_action\<close>; it may also throw (\<^verbatim>\<open>substr\<close>, \<^verbatim>\<open>any_cast\<close>) or erase the end
  iterator of a vector, which is undefined.

  The lemmas show what a well-formed message does, that a subscriber's disconnection never
  erases the end iterator, and that a handler always returns.
\<close>

section \<open>Text\<close>

definition blank :: "char \<Rightarrow> bool" where
  "blank c \<longleftrightarrow> c = CHR 0x0D \<or> c = CHR 0x0A \<or> c = CHR '' ''"

text \<open>Both loops of \<^verbatim>\<open>strip\<close>: from the front, then from the back.\<close>

definition strip :: "string \<Rightarrow> string" where
  "strip s = rev (dropWhile blank (rev (dropWhile blank s)))"

text \<open>
  \<^verbatim>\<open>find_first_of\<close> of \<^verbatim>\<open>"\r\n"\<close> finds the first of either character. Without one the
  buffer is emptied; otherwise the two characters from there on go with the text, and
  \<^verbatim>\<open>begin() + pos + 2\<close> is past the end when only one is left (\<^const>\<open>None\<close>).
\<close>

definition getMessage :: "string \<Rightarrow> (string \<times> int \<times> string) option" where
  "getMessage buffer =
     (let data = takeWhile (\<lambda>c. c \<noteq> CHR 0x0D \<and> c \<noteq> CHR 0x0A) buffer; pos = length data in
      if pos = length buffer then Some ([], 1, [])
      else if pos + 2 > length buffer then None
      else Some (data, if length data > 100 \<or> length data < 5 then 2 else 0, drop (pos + 2) buffer))"

section \<open>The server\<close>

record subpub =
  subscribers :: "string \<rightharpoonup> conn_id list"
  topics :: "conn_id \<rightharpoonup> string set"

datatype sp_end =
    SpDone subpub string
  | SpThrew        \<comment> \<open>an exception escapes\<close>
  | SpUndefined    \<comment> \<open>the end iterator erased, or an iterator past the end\<close>

text \<open>\<^verbatim>\<open>conns[topic]\<close>: an entry that is missing is made, empty.\<close>

definition conns_at :: "string \<Rightarrow> subpub \<Rightarrow> conn_id list" where
  "conns_at t s = (case subscribers s t of None \<Rightarrow> [] | Some cs \<Rightarrow> cs)"

text \<open>\<^verbatim>\<open>find\<close> and \<^verbatim>\<open>erase\<close> of a connection in a topic's vector.\<close>

definition erase_conn :: "conn_id \<Rightarrow> string \<Rightarrow> subpub \<Rightarrow> subpub option" where
  "erase_conn c t s =
     (if c \<in> set (conns_at t s)
      then Some (s\<lparr>subscribers := (subscribers s)(t \<mapsto> remove1 c (conns_at t s))\<rparr>) else None)"

datatype sp_step =
    SpNext "user_action list" subpub   \<comment> \<open>the loop goes on\<close>
  | SpReturn subpub                    \<comment> \<open>\<^verbatim>\<open>return\<close> from within the loop\<close>
  | SpThrow
  | SpWrong

definition subscribe :: "conn_id \<Rightarrow> string \<Rightarrow> subpub \<Rightarrow> sp_step" where
  "subscribe c data s =
     (case substr data 4 npos of None \<Rightarrow> SpThrow
      | Some t0 \<Rightarrow>
          let topic = strip t0 in
          (case topics s c of None \<Rightarrow> SpThrow
           | Some ts \<Rightarrow>
               let s1 = s\<lparr>topics := (topics s)(c \<mapsto> insert topic ts)\<rparr>
               in SpNext [] (s1\<lparr>subscribers := (subscribers s1)(topic \<mapsto> conns_at topic s1 @ [c])\<rparr>)))"

definition publish :: "string \<Rightarrow> subpub \<Rightarrow> sp_step" where
  "publish data s =
     (let pos = find_first_of data CHR '' '' 0 in
      case substr data 4 (sz_sub pos 4) of None \<Rightarrow> SpThrow
      | Some t0 \<Rightarrow>
          (case substr data (sz_add pos 1) (sz_add (length data) 1) of None \<Rightarrow> SpThrow
           | Some m0 \<Rightarrow>
               let topic = strip t0; content = strip m0 in
               (case subscribers s topic of None \<Rightarrow> SpReturn s
                | Some cs \<Rightarrow> SpNext (map (\<lambda>c. ASend c (topic @ '':'' @ content @ CR_LF)) cs) s)))"

definition unsubscribe :: "conn_id \<Rightarrow> string \<Rightarrow> subpub \<Rightarrow> sp_step" where
  "unsubscribe c data s =
     (case substr data 6 npos of None \<Rightarrow> SpThrow
      | Some t0 \<Rightarrow>
          let topic = strip t0 in
          (case topics s c of None \<Rightarrow> SpThrow
           | Some ts \<Rightarrow>
               let s1 = s\<lparr>topics := (topics s)(c \<mapsto> ts - {topic})\<rparr> in
               if subscribers s1 topic = None then SpReturn s1
               else (case erase_conn c topic s1 of None \<Rightarrow> SpWrong | Some s2 \<Rightarrow> SpNext [] s2)))"

definition sp_command :: "conn_id \<Rightarrow> string \<Rightarrow> subpub \<Rightarrow> sp_step" where
  "sp_command c data s =
     (if take 3 data = ''sub'' then subscribe c data s
      else if take 3 data = ''pub'' then publish data s
      else if take 5 data = ''unsub'' then unsubscribe c data s
      else SpNext [AForceClose c] s)"

lemma getMessage_shorter: "getMessage buffer = Some (d, e, b) \<Longrightarrow> buffer \<noteq> [] \<Longrightarrow> length b < length buffer"
  by (auto simp: getMessage_def Let_def split: if_splits)

lemma search2_nonempty: "search2 a b s \<noteq> None \<Longrightarrow> s \<noteq> []"
  by (cases s) auto

function onServerMessage :: "conn_id \<Rightarrow> string \<Rightarrow> subpub \<Rightarrow> user_action list \<times> sp_end" where
  "onServerMessage c buffer s =
     (if search2 CHR 0x0D CHR 0x0A buffer = None then ([], SpDone s buffer)
      else
        (case getMessage buffer of
           None \<Rightarrow> ([], SpUndefined)
         | Some (data, errcode, buffer1) \<Rightarrow>
             if errcode = 2 then onServerMessage c buffer1 s
             else
               (case sp_command c data s of
                  SpNext as s1 \<Rightarrow> (case onServerMessage c buffer1 s1 of (bs, e) \<Rightarrow> (as @ bs, e))
                | SpReturn s1 \<Rightarrow> ([], SpDone s1 buffer1)
                | SpThrow \<Rightarrow> ([], SpThrew)
                | SpWrong \<Rightarrow> ([], SpUndefined))))"
  by pat_completeness auto

termination
  by (relation "measure (\<lambda>(c, buffer, s). length buffer)")
     (auto dest!: getMessage_shorter search2_nonempty)

declare onServerMessage.simps [simp del]

text \<open>
  A connection that comes gets an empty set of topics; one that goes is erased from the
  vector of each of its topics. A \<^verbatim>\<open>std::set\<close> is passed through in the order of its
  elements, which for strings is the lexicographic order of their bytes.
\<close>

fun leave_topics :: "conn_id \<Rightarrow> string list \<Rightarrow> subpub \<Rightarrow> subpub option" where
  "leave_topics c [] s = Some s"
| "leave_topics c (t # ts) s = (case erase_conn c t s of None \<Rightarrow> None | Some s1 \<Rightarrow> leave_topics c ts s1)"

definition onServerConnection :: "bool \<Rightarrow> conn_id \<Rightarrow> subpub \<Rightarrow> sp_end" where
  "onServerConnection up c s =
     (if up then SpDone (s\<lparr>topics := (topics s)(c \<mapsto> {})\<rparr>) []
      else
        (case topics s c of None \<Rightarrow> SpThrew
         | Some ts \<Rightarrow>
             (case leave_topics c (sorted_list_of_set ts) s of None \<Rightarrow> SpUndefined | Some s1 \<Rightarrow> SpDone s1 [])))"

section \<open>The client\<close>

definition onClientConnection :: "bool \<Rightarrow> conn_id \<Rightarrow> user_action list" where
  "onClientConnection up c =
     (if up then [ASend c (''sub:foo'' @ CR_LF), ASend c (''sub:bar'' @ CR_LF)]
      else [ASend c (''unsub:foo'' @ CR_LF), ASend c (''unsub:bar'' @ CR_LF)])"

text \<open>
  The loop over the messages a client has received; \<^verbatim>\<open>errcode\<close> keeps its value from one turn
  to the next, and \<^verbatim>\<open>continue\<close> takes nothing off the buffer, so that the loop may not end: then
  it has no result. The received messages are listed with their topics.
\<close>

datatype client_end = ClientDone "(string \<times> string) list" string | ClientUndefined

partial_function (option) client_loop ::
  "int \<Rightarrow> string \<Rightarrow> (string \<times> string) list \<Rightarrow> client_end option" where
  "client_loop errcode buffer got =
     (if search2 CHR 0x0D CHR 0x0A buffer = None then Some (ClientDone got buffer)
      else if errcode = 2 then client_loop errcode buffer got
      else
        (case getMessage buffer of
           None \<Rightarrow> Some ClientUndefined
         | Some (data, errcode1, buffer1) \<Rightarrow>
             let pos = find_first_of data CHR '':'' 0 in
             if pos = npos then client_loop errcode1 buffer1 got
             else client_loop errcode1 buffer1
               (got @ [(strip (take pos data), strip (drop (pos + 1) data))])))"

definition onClientMessage :: "string \<Rightarrow> client_end option" where
  "onClientMessage buffer = client_loop 0 buffer []"

section \<open>Messages\<close>

definition plain :: "string \<Rightarrow> bool" where
  "plain s \<longleftrightarrow> CHR 0x0D \<notin> set s \<and> CHR 0x0A \<notin> set s"

text \<open>A text that \<open>strip\<close> leaves as it is.\<close>

definition trimmed :: "string \<Rightarrow> bool" where
  "trimmed s \<longleftrightarrow> s \<noteq> [] \<and> \<not> blank (hd s) \<and> \<not> blank (last s)"

lemma strip_trimmed: "trimmed s \<Longrightarrow> strip s = s"
proof -
  assume t: "trimmed s"
  then have "dropWhile blank s = s" by (cases s) (auto simp: trimmed_def)
  moreover have "dropWhile blank (rev s) = rev s"
    using t by (cases s rule: rev_cases) (auto simp: trimmed_def)
  ultimately show "strip s = s" by (simp add: strip_def)
qed

lemma getMessage_line:
  assumes "plain d" "5 \<le> length d" "length d \<le> 100"
  shows "getMessage (d @ CR_LF @ rest) = Some (d, 0, rest)"
proof -
  have "takeWhile (\<lambda>c. c \<noteq> CHR 0x0D \<and> c \<noteq> CHR 0x0A) (d @ CR_LF @ rest) = d"
    using assms(1) by (subst takeWhile_append2) (auto simp: plain_def)
  then show ?thesis using assms(2,3) by (simp add: getMessage_def)
qed

lemma search2_line: "plain d \<Longrightarrow> search2 CHR 0x0D CHR 0x0A (d @ CR_LF @ rest) \<noteq> None"
  using search2_first [of "CHR 0x0D" "CHR 0x0A" d rest] by (simp add: plain_def)

lemma onServerMessage_line:
  assumes "plain d" "5 \<le> length d" "length d \<le> 100"
  shows "onServerMessage c (d @ CR_LF @ rest) s =
    (case sp_command c d s of
       SpNext as s1 \<Rightarrow> (case onServerMessage c rest s1 of (bs, e) \<Rightarrow> (as @ bs, e))
     | SpReturn s1 \<Rightarrow> ([], SpDone s1 rest)
     | SpThrow \<Rightarrow> ([], SpThrew) | SpWrong \<Rightarrow> ([], SpUndefined))"
proof -
  obtain k where "search2 CHR 0x0D CHR 0x0A (d @ CR_LF @ rest) = Some k"
    using search2_line [OF assms(1)] by blast
  then show ?thesis using getMessage_line [OF assms, of rest]
    by (subst onServerMessage.simps) (simp split: sp_step.split)
qed

definition sub_line :: "string \<Rightarrow> string" where
  "sub_line t = ''sub:'' @ t"

definition pub_line :: "string \<Rightarrow> string \<Rightarrow> string" where
  "pub_line t m = ''pub:'' @ t @ '' '' @ m"

definition line_len_ok :: "string \<Rightarrow> bool" where
  "line_len_ok d \<longleftrightarrow> 5 \<le> length d \<and> length d \<le> 100"

lemma sub_command:
  assumes "trimmed t" "topics s c = Some ts" "line_len_ok (sub_line t)"
  shows "sp_command c (sub_line t) s =
    SpNext [] (s\<lparr>topics := (topics s)(c \<mapsto> insert t ts), subscribers := (subscribers s)(t \<mapsto> conns_at t s @ [c])\<rparr>)"
proof -
  have "substr (sub_line t) 4 npos = Some t"
    using assms(3) by (simp add: substr_def sub_line_def line_len_ok_def npos_def size_mod_def)
  then show ?thesis using strip_trimmed [OF assms(1)] assms(2)
    by (simp add: sp_command_def subscribe_def conns_at_def sub_line_def)
qed

lemma pub_command:
  assumes "trimmed t" "CHR '' '' \<notin> set t" "trimmed m" "subscribers s t = Some cs" "line_len_ok (pub_line t m)"
  shows "sp_command c (pub_line t m) s = SpNext (map (\<lambda>c. ASend c (t @ '':'' @ m @ CR_LF)) cs) s"
proof -
  let ?n = "length t + 4"
  have pos: "find_first_of (pub_line t m) CHR '' '' 0 = ?n"
    using index_from_append [of "CHR '' ''" "''pub:'' @ t" 0 m] assms(2)
    by (simp add: find_first_of_def pub_line_def)
  have lens: "?n + length m + 2 < size_mod" using assms(5) by (simp add: line_len_ok_def pub_line_def size_mod_def)
  have topic: "substr (pub_line t m) 4 (sz_sub ?n 4) = Some t"
    using lens by (simp add: substr_def sz_sub_small pub_line_def)
  have split: "pub_line t m = (''pub:'' @ t @ '' '') @ m" by (simp add: pub_line_def)
  have "length (''pub:'' @ t @ '' '') = ?n + 1" by simp
  then have "drop (?n + 1) (pub_line t m) = m" unfolding split by (metis append_eq_conv_conj)
  moreover have "sz_add ?n 1 = ?n + 1" "sz_add (length (pub_line t m)) 1 = length t + length m + 6"
    using lens by (simp_all add: sz_add_def pub_line_def)
  moreover have "?n + 1 \<le> length (pub_line t m)" by (simp add: pub_line_def)
  ultimately have "substr (pub_line t m) (sz_add ?n 1) (sz_add (length (pub_line t m)) 1) = Some m"
    by (simp add: substr_def)
  then show ?thesis
    using topic strip_trimmed [OF assms(1)] strip_trimmed [OF assms(3)] assms(4)
    by (simp add: sp_command_def publish_def pos) (simp add: pub_line_def)
qed

section \<open>Publishing\<close>

text \<open>Reads on the server's connections: each adds to its connection's buffer and calls the handler.\<close>

fun sp_reads ::
  "(conn_id \<Rightarrow> string) \<Rightarrow> (conn_id \<times> string) list \<Rightarrow> subpub \<Rightarrow> (user_action list \<times> subpub \<times> (conn_id \<Rightarrow> string)) option" where
  "sp_reads bufs [] s = Some ([], s, bufs)"
| "sp_reads bufs ((c, r) # evs) s =
     (case onServerMessage c (bufs c @ r) s of
        (as, SpDone s1 b) \<Rightarrow>
          (case sp_reads (bufs(c := b)) evs s1 of Some (bs, e) \<Rightarrow> Some (as @ bs, e) | None \<Rightarrow> None)
      | _ \<Rightarrow> None)"

definition no_bytes :: "conn_id \<Rightarrow> string" where
  "no_bytes c = []"

lemma onServerMessage_Nil: "onServerMessage c [] s = ([], SpDone s [])"
  by (subst onServerMessage.simps) simp

lemma no_bytes_upd [simp]: "no_bytes c @ r = r" "no_bytes(c := []) = no_bytes"
  by (simp_all add: no_bytes_def fun_eq_iff)

lemma plain_line:
  "plain t \<Longrightarrow> plain (sub_line t)" "plain t \<Longrightarrow> plain m \<Longrightarrow> plain (pub_line t m)"
  by (simp_all add: plain_def sub_line_def pub_line_def)

lemma sp_reads_sub:
  assumes "trimmed t" "plain t" "line_len_ok (sub_line t)" "topics s c = Some ts"
  shows "sp_reads no_bytes ((c, sub_line t @ CR_LF) # evs) s = sp_reads no_bytes evs
    (s\<lparr>topics := (topics s)(c \<mapsto> insert t ts), subscribers := (subscribers s)(t \<mapsto> conns_at t s @ [c])\<rparr>)"
  using onServerMessage_line [of "sub_line t" c "[]" s] plain_line(1) [OF assms(2)] assms(3)
    sub_command [of t s c ts] assms(1,4)
  by (simp add: line_len_ok_def onServerMessage_Nil split: option.split)

lemma sp_reads_subs:
  assumes "trimmed t" "plain t" "line_len_ok (sub_line t)" "list_all (\<lambda>c. topics s c \<noteq> None) cs"
  shows "\<exists>s'. sp_reads no_bytes (map (\<lambda>c. (c, sub_line t @ CR_LF)) cs @ evs) s = sp_reads no_bytes evs s' \<and>
    conns_at t s' = conns_at t s @ cs \<and> (subscribers s' t = None) = (subscribers s t = None \<and> cs = [])"
  using assms(4)
proof (induction cs arbitrary: s)
  case (Cons c cs)
  then obtain ts where ts: "topics s c = Some ts" by auto
  let ?s = "s\<lparr>topics := (topics s)(c \<mapsto> insert t ts), subscribers := (subscribers s)(t \<mapsto> conns_at t s @ [c])\<rparr>"
  have "list_all (\<lambda>c. topics ?s c \<noteq> None) cs" using Cons.prems by (auto simp: list_all_iff)
  from Cons.IH [OF this] obtain s' where s': "sp_reads no_bytes (map (\<lambda>c. (c, sub_line t @ CR_LF)) cs @ evs) ?s =
        sp_reads no_bytes evs s' \<and> conns_at t s' = conns_at t ?s @ cs \<and>
      (subscribers s' t = None) = (subscribers ?s t = None \<and> cs = [])" by (rule exE)
  have at: "conns_at t ?s = conns_at t s @ [c]" and some: "(subscribers ?s t = None) = False"
    by (simp_all add: conns_at_def)
  have "conns_at t s' = conns_at t s @ c # cs" using s' unfolding at by simp
  moreover have "subscribers s' t \<noteq> None" using s' unfolding some by blast
  moreover have "sp_reads no_bytes (map (\<lambda>c. (c, sub_line t @ CR_LF)) (c # cs) @ evs) s = sp_reads no_bytes evs s'"
    using sp_reads_sub [OF assms(1-3) ts] s' by simp
  ultimately show ?case by (intro exI [of _ s']) simp
qed auto

text \<open>
  What is published reaches every subscriber: after connections have subscribed to a
  topic, in any number and order, a message published to it by any connection is sent, once
  for each subscription and in the order of the subscriptions, to all who had subscribed
  before and to them, and to nobody else.
\<close>

theorem publish_delivers:
  assumes "trimmed t" "plain t" "CHR '' '' \<notin> set t" "trimmed m" "plain m"
    and "line_len_ok (sub_line t)" "line_len_ok (pub_line t m)"
    and "list_all (\<lambda>c. topics s c \<noteq> None) cs" "cs \<noteq> []"
  shows "map_option fst (sp_reads no_bytes (map (\<lambda>c. (c, sub_line t @ CR_LF)) cs @ [(p, pub_line t m @ CR_LF)]) s) =
    Some (map (\<lambda>c. ASend c (t @ '':'' @ m @ CR_LF)) (conns_at t s @ cs))"
proof -
  obtain s' where s': "sp_reads no_bytes (map (\<lambda>c. (c, sub_line t @ CR_LF)) cs @ [(p, pub_line t m @ CR_LF)]) s =
      sp_reads no_bytes [(p, pub_line t m @ CR_LF)] s'"
      "conns_at t s' = conns_at t s @ cs" "subscribers s' t \<noteq> None"
    using sp_reads_subs [OF assms(1,2,6,8), of "[(p, pub_line t m @ CR_LF)]"] assms(9) by auto
  then have "subscribers s' t = Some (conns_at t s @ cs)" by (auto simp: conns_at_def)
  note cmd = pub_command [OF assms(1,3,4) this assms(7), of p]
  have "onServerMessage p (pub_line t m @ CR_LF) s' =
      (map (\<lambda>c. ASend c (t @ '':'' @ m @ CR_LF)) (conns_at t s @ cs), SpDone s' [])"
    using onServerMessage_line [of "pub_line t m" p "[]" s'] plain_line(2) [OF assms(2,5)] assms(7)
    by (simp add: line_len_ok_def onServerMessage_Nil cmd)
  then show ?thesis unfolding s'(1) by simp
qed

section \<open>Subscriptions and disconnections\<close>

text \<open>
  A read in which the client does not subscribe to a topic that it has at that moment.
\<close>

definition new_topic :: "conn_id \<Rightarrow> string \<Rightarrow> subpub \<Rightarrow> bool" where
  "new_topic c data s \<longleftrightarrow>
     (case (substr data 4 npos, topics s c) of
        (Some t0, Some T) \<Rightarrow> take 3 data = ''sub'' \<longrightarrow> strip t0 \<notin> T
      | _ \<Rightarrow> True)"

function subscribes_once :: "conn_id \<Rightarrow> string \<Rightarrow> subpub \<Rightarrow> bool" where
  "subscribes_once c buffer s =
     (if search2 CHR 0x0D CHR 0x0A buffer = None then True
      else
        (case getMessage buffer of
           None \<Rightarrow> True
         | Some (data, errcode, buffer1) \<Rightarrow>
             if errcode = 2 then subscribes_once c buffer1 s
             else new_topic c data s \<and>
               (case sp_command c data s of SpNext as s1 \<Rightarrow> subscribes_once c buffer1 s1 | _ \<Rightarrow> True)))"
  by pat_completeness auto

termination
  by (relation "measure (\<lambda>(c, buffer, s). length buffer)")
     (auto dest!: getMessage_shorter search2_nonempty)

declare subscribes_once.simps [simp del]

text \<open>
  What can happen to the server, with the set of connections that are up: a connection comes,
  a read hands the handler any bytes, a connection goes. A handler that throws or does what
  is undefined ends the program. With \<open>once\<close>, no client subscribes to a topic it has.
\<close>

inductive sp_reach :: "bool \<Rightarrow> conn_id set \<Rightarrow> subpub \<Rightarrow> bool" for once where
  sp_start: "sp_reach once {} \<lparr>subscribers = Map.empty, topics = Map.empty\<rparr>"
| sp_up: "sp_reach once up s \<Longrightarrow> c \<notin> up \<Longrightarrow> onServerConnection True c s = SpDone s' b \<Longrightarrow> sp_reach once (insert c up) s'"
| sp_read: "sp_reach once up s \<Longrightarrow> c \<in> up \<Longrightarrow> (once \<Longrightarrow> subscribes_once c buf s) \<Longrightarrow>
    onServerMessage c buf s = (as, SpDone s' b) \<Longrightarrow> sp_reach once up s'"
| sp_down: "sp_reach once up s \<Longrightarrow> c \<in> up \<Longrightarrow> onServerConnection False c s = SpDone s' b \<Longrightarrow> sp_reach once (up - {c}) s'"

text \<open>Each connection that is up is in the vector of each of its topics.\<close>

definition sp_inv :: "conn_id set \<Rightarrow> subpub \<Rightarrow> bool" where
  "sp_inv up s \<longleftrightarrow>
     (\<forall>c\<in>up. \<exists>T. topics s c = Some T \<and> finite T \<and> (\<forall>t\<in>T. c \<in> set (conns_at t s)))"

lemma conns_at_upd [simp]:
  "conns_at t (s\<lparr>subscribers := (subscribers s)(u \<mapsto> cs)\<rparr>) = (if t = u then cs else conns_at t s)"
  "conns_at t (s\<lparr>topics := m\<rparr>) = conns_at t s"
  by (simp_all add: conns_at_def)

lemma conns_at_upd2 [simp]:
  "conns_at t (s\<lparr>topics := m, subscribers := (subscribers s)(u \<mapsto> cs)\<rparr>) = (if t = u then cs else conns_at t s)"
  by (simp add: conns_at_def)

lemma subscribe_inv:
  "sp_inv up s \<Longrightarrow> subscribe c d s = SpNext as s' \<Longrightarrow> sp_inv up s'"
  by (fastforce simp: subscribe_def sp_inv_def Let_def split: option.splits)

lemma erase_conn_member:
  "erase_conn c t s = Some s' \<Longrightarrow> e \<in> set (conns_at u s) \<Longrightarrow> (e, u) \<noteq> (c, t) \<Longrightarrow> e \<in> set (conns_at u s')"
  by (auto simp: erase_conn_def split: if_splits)

lemma erase_conn_topics: "erase_conn c t s = Some s' \<Longrightarrow> topics s' = topics s"
  by (auto simp: erase_conn_def split: if_splits)

lemma unsubscribe_inv:
  assumes "sp_inv up s"
  shows "unsubscribe c d s = SpNext as s' \<Longrightarrow> sp_inv up s'" "unsubscribe c d s = SpReturn s' \<Longrightarrow> sp_inv up s'"
proof -
  have keep: "sp_inv up (s\<lparr>topics := (topics s)(c \<mapsto> ts - {t})\<rparr>)" if "topics s c = Some ts" for t ts
    using assms that by (fastforce simp: sp_inv_def)
  then show "unsubscribe c d s = SpReturn s' \<Longrightarrow> sp_inv up s'"
    by (auto simp: unsubscribe_def Let_def split: option.splits if_splits)
  assume "unsubscribe c d s = SpNext as s'"
  then obtain t ts where t: "topics s c = Some ts"
      "erase_conn c t (s\<lparr>topics := (topics s)(c \<mapsto> ts - {t})\<rparr>) = Some s'"
    by (auto simp: unsubscribe_def Let_def split: option.splits if_splits)
  note E = erase_conn_member [OF t(2)] erase_conn_topics [OF t(2)]
  show "sp_inv up s'" unfolding sp_inv_def
  proof
    fix e
    assume e: "e \<in> up"
    then obtain T where T: "topics s e = Some T" "finite T" "\<forall>u\<in>T. e \<in> set (conns_at u s)"
      using assms by (auto simp: sp_inv_def)
    let ?T = "if e = c then T - {t} else T"
    have "topics s' e = Some ?T" using T(1) t(1) E(2) by auto
    moreover have "\<forall>u\<in>?T. e \<in> set (conns_at u s')" using T(3) E(1) by auto
    ultimately show "\<exists>T. topics s' e = Some T \<and> finite T \<and> (\<forall>t\<in>T. e \<in> set (conns_at t s'))"
      using T(2) by auto
  qed
qed

lemma sp_command_inv:
  assumes "sp_inv up s"
  shows "sp_command c d s = SpNext as s' \<Longrightarrow> sp_inv up s'" "sp_command c d s = SpReturn s' \<Longrightarrow> sp_inv up s'"
  using assms subscribe_inv [OF assms, of c d] unsubscribe_inv [OF assms, of c d]
  by (auto simp: sp_command_def subscribe_def publish_def Let_def split: if_splits option.splits)

lemma onServerMessage_inv:
  "sp_inv up s \<Longrightarrow> onServerMessage c buf s = (as, SpDone s' b) \<Longrightarrow> sp_inv up s'"
proof (induction c buf s arbitrary: as rule: onServerMessage.induct)
  case (1 c buffer s)
  from "1.prems" show ?case
    unfolding onServerMessage.simps [of c buffer s]
    by (auto split: if_splits option.splits prod.splits sp_step.splits
        intro: "1.IH" sp_command_inv [OF "1.prems"(1)])
qed

lemma leave_topics_ok:
  assumes "distinct ts" "\<forall>t\<in>set ts. c \<in> set (conns_at t s)"
  shows "\<exists>s'. leave_topics c ts s = Some s' \<and> topics s' = topics s \<and>
    (\<forall>t. conns_at t s' = (if t \<in> set ts then remove1 c (conns_at t s) else conns_at t s))"
  using assms
proof (induction ts arbitrary: s)
  case (Cons t ts)
  define s1 where "s1 = s\<lparr>subscribers := (subscribers s)(t \<mapsto> remove1 c (conns_at t s))\<rparr>"
  have s1: "erase_conn c t s = Some s1" using Cons.prems(2) by (simp add: erase_conn_def s1_def)
  have "\<forall>u\<in>set ts. c \<in> set (conns_at u s1)" using Cons.prems by (auto simp: s1_def)
  then obtain s' where "leave_topics c ts s1 = Some s'" "topics s' = topics s1"
      "\<forall>u. conns_at u s' = (if u \<in> set ts then remove1 c (conns_at u s1) else conns_at u s1)"
    using Cons.IH [of s1] Cons.prems(1) by auto
  then show ?case using s1 Cons.prems(1) by (auto simp: s1_def)
qed simp

lemma leaving:
  assumes "sp_inv up s" "c \<in> up"
  shows "\<exists>T s'. topics s c = Some T \<and> onServerConnection False c s = SpDone s' [] \<and> topics s' = topics s \<and>
    (\<forall>t. conns_at t s' = (if t \<in> T then remove1 c (conns_at t s) else conns_at t s))"
proof -
  obtain T where T: "topics s c = Some T" "finite T" "\<forall>t\<in>T. c \<in> set (conns_at t s)"
    using assms by (auto simp: sp_inv_def)
  then show ?thesis using leave_topics_ok [of "sorted_list_of_set T" c s]
    by (auto simp: onServerConnection_def)
qed

lemma sp_reach_inv: "sp_reach once up s \<Longrightarrow> sp_inv up s"
proof (induction rule: sp_reach.induct)
  case sp_start
  show ?case by (simp add: sp_inv_def)
next
  case (sp_up up s c s' b)
  then show ?case by (fastforce simp: onServerConnection_def sp_inv_def)
next
  case (sp_read up s c buf as s' b)
  then show ?case using onServerMessage_inv by blast
next
  case (sp_down up s c s' b)
  obtain s1 T where s1: "onServerConnection False c s = SpDone s1 []" "topics s1 = topics s"
      "\<forall>t. conns_at t s1 = (if t \<in> T then remove1 c (conns_at t s) else conns_at t s)"
    using leaving [OF sp_down.IH sp_down.hyps(2)] by blast
  have "e \<in> set (conns_at t s1)" if "e \<in> set (conns_at t s)" "e \<noteq> c" for e t
    using s1(3) that by simp
  note kept = this
  have s': "s' = s1" using s1(1) sp_down.hyps(3) by simp
  show ?case unfolding sp_inv_def s'
  proof
    fix e
    assume e: "e \<in> up - {c}"
    then obtain T where "topics s e = Some T" "finite T" "\<forall>t\<in>T. e \<in> set (conns_at t s)"
      using sp_down.IH by (auto simp: sp_inv_def)
    then show "\<exists>T. topics s1 e = Some T \<and> finite T \<and> (\<forall>t\<in>T. e \<in> set (conns_at t s1))"
      using e kept s1(2) by auto
  qed
qed

section \<open>Clients that subscribe once\<close>

text \<open>Then a topic's vector holds exactly the connections that are up and have the topic, each once.\<close>

definition sp_once :: "conn_id set \<Rightarrow> subpub \<Rightarrow> bool" where
  "sp_once up s \<longleftrightarrow> (\<forall>t. distinct (conns_at t s) \<and>
     (\<forall>e\<in>set (conns_at t s). e \<in> up \<and> (\<exists>T. topics s e = Some T \<and> t \<in> T)))"

lemma subscribe_once:
  assumes "sp_once up s" "c \<in> up" "new_topic c d s" "take 3 d = ''sub''" "subscribe c d s = SpNext as s'"
  shows "sp_once up s'"
proof -
  obtain t0 T where sub: "substr d 4 npos = Some t0" "topics s c = Some T" "strip t0 \<notin> T"
    using assms(3-5) by (auto simp: new_topic_def subscribe_def split: option.splits)
  have s': "s' = s\<lparr>topics := (topics s)(c \<mapsto> insert (strip t0) T),
      subscribers := (subscribers s)(strip t0 \<mapsto> conns_at (strip t0) s @ [c])\<rparr>"
    using assms(5) sub by (simp add: subscribe_def Let_def)
  have "c \<notin> set (conns_at (strip t0) s)" using assms(1) sub(2,3) by (fastforce simp: sp_once_def)
  with assms(1,2) sub(2) show ?thesis by (fastforce simp: sp_once_def s')
qed

lemma erase_once:
  assumes "sp_once up s" "topics s c = Some T" "erase_conn c t (s\<lparr>topics := (topics s)(c \<mapsto> T - {t})\<rparr>) = Some s'"
  shows "sp_once up s'"
proof -
  have s': "s' = s\<lparr>topics := (topics s)(c \<mapsto> T - {t}), subscribers := (subscribers s)(t \<mapsto> remove1 c (conns_at t s))\<rparr>"
    using assms(3) by (auto simp: erase_conn_def split: if_splits)
  have d: "distinct (conns_at u s)" for u using assms(1) by (simp add: sp_once_def)
  show ?thesis
    using assms(1,2) by (fastforce simp: sp_once_def s' set_remove1_eq [OF d])
qed

lemma unsubscribe_once:
  assumes "sp_once up s"
  shows "unsubscribe c d s = SpNext as s' \<Longrightarrow> sp_once up s'" "unsubscribe c d s = SpReturn s' \<Longrightarrow> sp_once up s'"
proof -
  show "unsubscribe c d s = SpNext as s' \<Longrightarrow> sp_once up s'"
    using erase_once [OF assms, of c] by (auto simp: unsubscribe_def Let_def split: option.splits if_splits)
  have "sp_once up (s\<lparr>topics := (topics s)(c \<mapsto> T - {t})\<rparr>)" if "topics s c = Some T" "subscribers s t = None" for t T
    unfolding sp_once_def
  proof (intro allI conjI ballI)
    fix u
    show "distinct (conns_at u (s\<lparr>topics := (topics s)(c \<mapsto> T - {t})\<rparr>))" using assms by (simp add: sp_once_def)
    fix e
    assume "e \<in> set (conns_at u (s\<lparr>topics := (topics s)(c \<mapsto> T - {t})\<rparr>))"
    then have e: "e \<in> set (conns_at u s)" by simp
    with that(2) have "u \<noteq> t" by (auto simp: conns_at_def)
    with e assms that(1)
    show "e \<in> up" "\<exists>T'. topics (s\<lparr>topics := (topics s)(c \<mapsto> T - {t})\<rparr>) e = Some T' \<and> u \<in> T'"
      by (fastforce simp: sp_once_def)+
  qed
  then show "unsubscribe c d s = SpReturn s' \<Longrightarrow> sp_once up s'"
    by (auto simp: unsubscribe_def Let_def split: option.splits if_splits)
qed

lemma sp_command_once:
  assumes "sp_once up s" "c \<in> up" "new_topic c d s"
  shows "sp_command c d s = SpNext as s' \<Longrightarrow> sp_once up s'" "sp_command c d s = SpReturn s' \<Longrightarrow> sp_once up s'"
  using assms(1) subscribe_once [OF assms] unsubscribe_once [OF assms(1), of c d]
  by (auto simp: sp_command_def publish_def Let_def split: if_splits option.splits)
    (auto simp: subscribe_def Let_def split: option.splits)

lemma onServerMessage_once:
  "sp_once up s \<Longrightarrow> c \<in> up \<Longrightarrow> subscribes_once c buf s \<Longrightarrow> onServerMessage c buf s = (as, SpDone s' b) \<Longrightarrow> sp_once up s'"
proof (induction c buf s arbitrary: as rule: onServerMessage.induct)
  case (1 c buffer s)
  from "1.prems" show ?case
    unfolding onServerMessage.simps [of c buffer s] subscribes_once.simps [of c buffer s]
    by (auto split: if_splits option.splits prod.splits sp_step.splits
        intro: "1.IH" sp_command_once [OF "1.prems"(1,2)])
qed

lemma once_gone:
  assumes "sp_once up s" "topics s c = Some T"
  shows "(if t \<in> T then remove1 c (conns_at t s) else conns_at t s) = filter (\<lambda>e. e \<noteq> c) (conns_at t s)"
proof -
  have "distinct (conns_at t s)" using assms(1) by (simp add: sp_once_def)
  moreover have "c \<notin> set (conns_at t s)" if "t \<notin> T" using assms that by (fastforce simp: sp_once_def)
  then have "filter (\<lambda>e. e \<noteq> c) (conns_at t s) = conns_at t s" if "t \<notin> T" using that by (auto intro: filter_True)
  ultimately show ?thesis by (auto simp: distinct_remove1_removeAll removeAll_filter_not_eq intro!: filter_cong)
qed

lemma sp_reach_once: "sp_reach once up s \<Longrightarrow> once \<Longrightarrow> sp_once up s"
proof (induction rule: sp_reach.induct)
  case sp_start
  show ?case by (simp add: sp_once_def conns_at_def)
next
  case (sp_up up s c s' b)
  then have "s' = s\<lparr>topics := (topics s)(c \<mapsto> {})\<rparr>" by (simp add: onServerConnection_def)
  with sp_up show ?case by (fastforce simp: sp_once_def)
next
  case (sp_read up s c buf as s' b)
  then show ?case using onServerMessage_once by blast
next
  case (sp_down up s c s' b)
  obtain T s1 where s1: "topics s c = Some T" "onServerConnection False c s = SpDone s1 []" "topics s1 = topics s"
      "\<forall>t. conns_at t s1 = (if t \<in> T then remove1 c (conns_at t s) else conns_at t s)"
    using leaving [OF sp_reach_inv [OF sp_down.hyps(1)] sp_down.hyps(2)] by blast
  have "s' = s1" "\<forall>t. conns_at t s1 = filter (\<lambda>e. e \<noteq> c) (conns_at t s)"
    using s1 sp_down once_gone [of up s c T] by auto
  moreover have "sp_once up s" using sp_down by simp
  ultimately show ?case using s1(3) by (auto simp: sp_once_def)
qed

text \<open>
  C26. A subscriber can always go: in every state the server reaches, whatever bytes its
  clients have sent, the disconnection of a connection that is up finds it in the vector of
  each of its topics, so that it neither throws nor erases an end iterator, and takes its first
  entry out of each of them and nothing else out of any. When no client ever subscribes to a topic
  that it has, the connection is then gone from all topics, and all others are as they were.
\<close>

theorem subscriber_leaves:
  assumes "sp_reach once up s" "c \<in> up"
  shows "\<exists>T s'. topics s c = Some T \<and> onServerConnection False c s = SpDone s' [] \<and>
    (\<forall>t. conns_at t s' = (if t \<in> T then remove1 c (conns_at t s) else conns_at t s)) \<and>
    (once \<longrightarrow> (\<forall>t. conns_at t s' = filter (\<lambda>e. e \<noteq> c) (conns_at t s)))"
proof -
  obtain T s' where s': "topics s c = Some T" "onServerConnection False c s = SpDone s' []"
      "\<forall>t. conns_at t s' = (if t \<in> T then remove1 c (conns_at t s) else conns_at t s)"
    using leaving [OF sp_reach_inv [OF assms(1)] assms(2)] by blast
  with once_gone [OF sp_reach_once [OF assms(1)] s'(1)] show ?thesis by auto
qed

text \<open>
  A topic subscribed to twice is entered twice but left once, so that the connection that has
  gone stays a subscriber; a connection reported down a second time has its end iterators
  erased; an \<^verbatim>\<open>unsub\<close> with nothing behind it throws.
\<close>

lemma leave_after_double_subscription:
  assumes "topics s c = Some {t}" "subscribers s t = Some [c, c]"
  shows "onServerConnection False c s = SpDone (s\<lparr>subscribers := (subscribers s)(t \<mapsto> [c])\<rparr>) []"
  using assms by (simp add: onServerConnection_def erase_conn_def conns_at_def)

lemma second_down_undefined:
  assumes "topics s c = Some {t}" "subscribers s t = Some [c]"
  shows "onServerConnection False c s = SpDone (s\<lparr>subscribers := (subscribers s)(t \<mapsto> [])\<rparr>) []"
    "onServerConnection False c (s\<lparr>subscribers := (subscribers s)(t \<mapsto> [])\<rparr>) = SpUndefined"
  using assms by (simp_all add: onServerConnection_def erase_conn_def conns_at_def)

lemma short_unsub_throws: "onServerMessage c (''unsub'' @ CR_LF @ rest) s = ([], SpThrew)"
  using onServerMessage_line [of "''unsub''" c rest s]
  by (simp add: plain_def sp_command_def unsubscribe_def substr_def)

lemma unsub_of_another: "topics s c = Some {} \<Longrightarrow> subscribers s ''foo'' = Some [d] \<Longrightarrow> c \<noteq> d \<Longrightarrow>
    onServerMessage c (''unsub:foo'' @ CR_LF @ rest) s = ([], SpUndefined)"
  using onServerMessage_line [of "''unsub:foo''" c rest s]
  by (simp add: plain_def sp_command_def unsubscribe_def substr_def strip_def blank_def erase_conn_def conns_at_def
      npos_def size_mod_def)

section \<open>What a client receives\<close>

definition pushed :: "string \<times> string \<Rightarrow> string" where
  "pushed p = fst p @ '':'' @ snd p"

definition pushed_ok :: "string \<times> string \<Rightarrow> bool" where
  "pushed_ok p \<longleftrightarrow> trimmed (fst p) \<and> trimmed (snd p) \<and> plain (fst p) \<and> plain (snd p) \<and>
     CHR '':'' \<notin> set (fst p) \<and> line_len_ok (pushed p)"

lemma client_loop_line:
  assumes "plain d" "line_len_ok d" "e \<noteq> 2"
  shows "client_loop e (d @ CR_LF @ rest) got =
    (let pos = find_first_of d CHR '':'' 0 in
     if pos = npos then client_loop 0 rest got
     else client_loop 0 rest (got @ [(strip (take pos d), strip (drop (pos + 1) d))]))"
proof -
  obtain k where "search2 CHR 0x0D CHR 0x0A (d @ CR_LF @ rest) = Some k"
    using search2_line [OF assms(1)] by blast
  moreover have "getMessage (d @ CR_LF @ rest) = Some (d, 0, rest)"
    using getMessage_line [OF assms(1)] assms(2) by (simp add: line_len_ok_def)
  ultimately show ?thesis using assms(3) by (subst client_loop.simps) (simp add: Let_def)
qed

lemma client_loop_pushed:
  assumes "pushed_ok p" "e \<noteq> 2"
  shows "client_loop e (pushed p @ CR_LF @ rest) got = client_loop 0 rest (got @ [p])"
proof -
  have P: "trimmed (fst p)" "trimmed (snd p)" "CHR '':'' \<notin> set (fst p)" "line_len_ok (pushed p)" "plain (pushed p)"
    using assms(1) by (auto simp: pushed_ok_def plain_def pushed_def)
  have pos: "find_first_of (pushed p) CHR '':'' 0 = length (fst p)"
    using index_from_append [OF P(3), of 0 "snd p"] by (simp add: find_first_of_def pushed_def)
  moreover have "length (fst p) \<noteq> npos"
    using P(4) by (simp add: line_len_ok_def pushed_def npos_def size_mod_def)
  moreover have "(strip (take (length (fst p)) (pushed p)), strip (drop (length (fst p) + 1) (pushed p))) = p"
    using strip_trimmed [OF P(1)] strip_trimmed [OF P(2)] by (simp add: pushed_def)
  ultimately show ?thesis unfolding client_loop_line [OF P(5,4) assms(2)] by (simp add: Let_def)
qed

text \<open>
  A client receives what was published: from messages as the server sends them, with a
  bounded length, its handler returns with every topic and content, in order, and keeps the
  bytes of a message that has not arrived in full.
\<close>

theorem client_receives:
  assumes "list_all pushed_ok ps" "search2 CHR 0x0D CHR 0x0A r = None"
  shows "onClientMessage (concat (map (\<lambda>p. pushed p @ CR_LF) ps) @ r) = Some (ClientDone ps r)"
proof -
  have "client_loop 0 (concat (map (\<lambda>p. pushed p @ CR_LF) ps) @ r) got = Some (ClientDone (got @ ps) r)" for got
    using assms(1)
  proof (induction ps arbitrary: got)
    case Nil
    then show ?case using assms(2) by (simp add: client_loop.simps)
  next
    case (Cons p ps)
    then show ?case using client_loop_pushed [of p 0 "concat (map (\<lambda>p. pushed p @ CR_LF) ps) @ r" got] by simp
  qed
  from this [of "[]"] show ?thesis by (simp add: onClientMessage_def)
qed

lemma client_loop_ends:
  assumes "client_loop e b g = Some y"
  shows "e \<noteq> 2 \<or> search2 CHR 0x0D CHR 0x0A b = None"
  by (rule client_loop.raw_induct [where P = "\<lambda>e b g y. e \<noteq> 2 \<or> search2 CHR 0x0D CHR 0x0A b = None", OF _ assms])
     (fastforce split: if_splits)

lemma client_loop_stuck: "search2 CHR 0x0D CHR 0x0A buf \<noteq> None \<Longrightarrow> client_loop 2 buf got = None"
  using client_loop_ends [of 2 buf got] by (cases "client_loop 2 buf got") auto

text \<open>
  A message that is too short stops a client for good: when another message is in its
  buffer behind one of fewer than five characters, the handler never returns.
\<close>

theorem client_hangs:
  assumes "plain d" "length d < 5" "plain d2"
  shows "onClientMessage (d @ CR_LF @ d2 @ CR_LF @ rest) = None"
proof -
  let ?b = "d @ CR_LF @ d2 @ CR_LF @ rest" and ?r = "d2 @ CR_LF @ rest"
  obtain k where k: "search2 CHR 0x0D CHR 0x0A ?b = Some k" using search2_line [OF assms(1)] by blast
  have "takeWhile (\<lambda>c. c \<noteq> CHR 0x0D \<and> c \<noteq> CHR 0x0A) ?b = d"
    using assms(1) by (subst takeWhile_append2) (auto simp: plain_def)
  then have get: "getMessage ?b = Some (d, 2, ?r)" using assms(2) by (simp add: getMessage_def)
  have "client_loop 2 ?r g = None" for g using client_loop_stuck search2_line [OF assms(3)] by blast
  then show ?thesis unfolding onClientMessage_def
    by (subst client_loop.simps) (simp add: k get Let_def del: append.simps)
qed

section \<open>Witnesses\<close>

definition two_up :: subpub where
  "two_up = \<lparr>subscribers = Map.empty, topics = [1 \<mapsto> {}, 2 \<mapsto> {}]\<rparr>"

theorem publish_delivers_witness:
  "map_option fst (sp_reads no_bytes [(1, sub_line ''foo'' @ CR_LF), (2, sub_line ''foo'' @ CR_LF),
       (9, pub_line ''foo'' ''hello'' @ CR_LF)] two_up) =
     Some [ASend 1 (''foo:hello'' @ CR_LF), ASend 2 (''foo:hello'' @ CR_LF)]"
  using publish_delivers [of "''foo''" "''hello''" two_up "[1, 2]" 9]
  by (simp add: trimmed_def plain_def line_len_ok_def sub_line_def pub_line_def blank_def two_up_def conns_at_def)

theorem client_receives_witness:
  "onClientMessage (''foo:hello'' @ CR_LF @ ''ba'') = Some (ClientDone [(''foo'', ''hello'')] ''ba'')"
  using client_receives [of "[(''foo'', ''hello'')]" "''ba''"]
  by (simp add: pushed_ok_def pushed_def trimmed_def plain_def line_len_ok_def blank_def)

theorem client_hangs_witness: "onClientMessage (''a:b'' @ CR_LF @ ''foo:hello'' @ CR_LF @ []) = None"
  by (rule client_hangs) (simp_all add: plain_def)

text \<open>Two connections come, both subscribe to the same topic, and the first one goes.\<close>

definition both_up :: subpub where
  "both_up = \<lparr>subscribers = Map.empty, topics = [1 \<mapsto> {}, 2 \<mapsto> {}]\<rparr>"

definition both_in :: subpub where
  "both_in = \<lparr>subscribers = [''foo'' \<mapsto> [1, 2]], topics = [1 \<mapsto> {''foo''}, 2 \<mapsto> {''foo''}]\<rparr>"

lemma both_up_reach: "sp_reach True {1, 2} both_up"
proof -
  have "sp_reach True {1} \<lparr>subscribers = Map.empty, topics = [1 \<mapsto> {}]\<rparr>"
    by (rule sp_up [OF sp_start, of 1]) (simp_all add: onServerConnection_def)
  from sp_up [OF this, of 2] show ?thesis
    by (simp add: onServerConnection_def both_up_def insert_commute)
qed

lemma subscribes_foo:
  assumes "topics s c = Some T" "''foo'' \<notin> T"
  shows "subscribes_once c (sub_line ''foo'' @ CR_LF) s"
    "onServerMessage c (sub_line ''foo'' @ CR_LF) s =
      ([], SpDone (s\<lparr>topics := (topics s)(c \<mapsto> insert ''foo'' T), subscribers := (subscribers s)(''foo'' \<mapsto> conns_at ''foo'' s @ [c])\<rparr>) [])"
proof -
  have ok: "plain (sub_line ''foo'')" "trimmed ''foo''" "line_len_ok (sub_line ''foo'')"
    by (simp_all add: plain_def trimmed_def line_len_ok_def sub_line_def blank_def)
  note cmd = sub_command [OF ok(2) assms(1) ok(3)]
  show "onServerMessage c (sub_line ''foo'' @ CR_LF) s =
      ([], SpDone (s\<lparr>topics := (topics s)(c \<mapsto> insert ''foo'' T), subscribers := (subscribers s)(''foo'' \<mapsto> conns_at ''foo'' s @ [c])\<rparr>) [])"
    using onServerMessage_line [of "sub_line ''foo''" c "[]" s] ok cmd
    by (simp add: line_len_ok_def onServerMessage_Nil)
  have "new_topic c (sub_line ''foo'') s"
    using assms by (simp add: new_topic_def substr_def sub_line_def npos_def size_mod_def strip_def blank_def)
  moreover have "getMessage (sub_line ''foo'' @ CR_LF) = Some (sub_line ''foo'', 0, [])"
    using getMessage_line [OF ok(1), of "[]"] ok(3) by (simp add: line_len_ok_def)
  moreover have "subscribes_once c [] s'" for s' by (subst subscribes_once.simps) simp
  ultimately show "subscribes_once c (sub_line ''foo'' @ CR_LF) s"
    by (subst subscribes_once.simps) (simp add: cmd)
qed

lemma both_in_reach: "sp_reach True {1, 2} both_in"
proof -
  let ?s1 = "both_up\<lparr>topics := (topics both_up)(1 \<mapsto> {''foo''}), subscribers := (subscribers both_up)(''foo'' \<mapsto> conns_at ''foo'' both_up @ [1])\<rparr>"
  have s1: "topics both_up 1 = Some {}" "topics ?s1 2 = Some {}" by (simp_all add: both_up_def)
  have "sp_reach True {1, 2} ?s1"
    using subscribes_foo [OF s1(1)] by (intro sp_read [OF both_up_reach, of 1]) auto
  from sp_read [OF this, of 2] subscribes_foo [OF s1(2)]
  have "sp_reach True {1, 2} (?s1\<lparr>topics := (topics ?s1)(2 \<mapsto> {''foo''}), subscribers := (subscribers ?s1)(''foo'' \<mapsto> conns_at ''foo'' ?s1 @ [2])\<rparr>)"
    by auto
  moreover have "?s1\<lparr>topics := (topics ?s1)(2 \<mapsto> {''foo''}), subscribers := (subscribers ?s1)(''foo'' \<mapsto> conns_at ''foo'' ?s1 @ [2])\<rparr> = both_in"
    by (simp add: both_up_def both_in_def conns_at_def fun_eq_iff)
  ultimately show ?thesis by simp
qed

theorem subscriber_leaves_witness:
  "\<exists>s'. onServerConnection False 1 both_in = SpDone s' [] \<and> conns_at ''foo'' s' = [2]"
proof -
  have "conns_at ''foo'' both_in = [1, 2]" by (simp add: both_in_def conns_at_def)
  with subscriber_leaves [OF both_in_reach, of 1] show ?thesis by fastforce
qed

end
