(* ===== verification/MaxConnection.thy ===== *)
theory MaxConnection
  imports ServerFacts
begin

text \<open>
  \<^verbatim>\<open>src/examples/max_connection.cc\<close>: an echo server that closes the connections over a
  bound. \<^verbatim>\<open>numConnected_\<close> only changes in the connection callback, up by one or down by one, so
  its value is a function of the calls of this callback so far, which the trace records.
\<close>

section \<open>The callbacks\<close>

definition mc_onConnection :: "int \<Rightarrow> conn_id \<Rightarrow> bool \<Rightarrow> int \<Rightarrow> int \<times> user_action list" where
  "mc_onConnection kMax c up n =
     (if up then (n + 1, if n + 1 > kMax then [AForceClose c] else []) else (n - 1, []))"

definition mc_onMessage :: "conn_id \<Rightarrow> bytes \<Rightarrow> user_action list" where
  "mc_onMessage c buffer = [ASetBuffer c [], ASend c buffer]"

fun numConnected :: "int \<Rightarrow> event list \<Rightarrow> int" where
  "numConnected n [] = n"
| "numConnected n (ConnCalled c up # es) = numConnected (fst (mc_onConnection 0 c up n)) es"
| "numConnected n (_ # es) = numConnected n es"

text \<open>The callback runs with its own call already at the end of the trace.\<close>

definition mc_user :: "int \<Rightarrow> 'z srv_world_scheme conn_env" where
  "mc_user kMax =
     \<lparr>onConnection = (\<lambda>c w. snd (mc_onConnection kMax c (connected c w) (numConnected 0 (butlast (trace w))))),
      onMessage = (\<lambda>c t w. mc_onMessage c (recvBuffer (conns w c))),
      onWriteComplete = (\<lambda>c w. []), onClose = (\<lambda>c w. w)\<rparr>"

lemma numConnected_append: "numConnected n (es @ fs) = numConnected (numConnected n es) fs"
  by (induction n es rule: numConnected.induct) simp_all

lemma fst_mc_onConnection: "fst (mc_onConnection k c up n) = (if up then n + 1 else n - 1)"
  by (simp add: mc_onConnection_def)

text \<open>
  The bound is enforced when a connection is established: the count goes up by one, and
  the connection stays up exactly when the count is then within the bound; one over it is
  disconnected at once, with its closing queued in its loop, and nothing else is queued.
\<close>

theorem max_connections_enforced:
  "let w' = connectEstablished (server_env (mc_user kMax)) c w; n = numConnected 0 (trace w) + 1 in
     numConnected 0 (trace w') = n \<and>
     conn_state (conns w' c) = (if n > kMax then DISCONNECTED else CONNECTED) \<and>
     taskQueue (loops w' (conn_loop (conns w c))) =
       taskQueue (loops w (conn_loop (conns w c))) @ (if n > kMax then [HandleClose c] else [])"
  by (simp add: Let_def connectEstablished_def connectionCallback_def server_env_def mc_user_def mc_onConnection_def
      run_action_def forceClose_def connected_def frame effect chan_op_defs numConnected_append)

lemma numConnected_close:
  "numConnected 0 (trace (handleClose (server_env (mc_user kMax)) c w)) = numConnected 0 (trace w) - 1"
  by (simp add: handleClose_def Let_def connectionCallback_def server_env_def mc_user_def mc_onConnection_def
      removeConnection_trace connected_def numConnected_append chan_op_defs)

text \<open>
  A connection that is force-closed and whose peer closes before the queued functor runs is
  reported down twice: the count is then one too small, and the server lets one connection
  more than its bound in.
\<close>

lemma force_close_undercounts:
  "numConnected 0 (trace (handleClose (server_env (mc_user kMax)) c (handleClose (server_env (mc_user kMax)) c w))) =
     numConnected 0 (trace w) - 2"
  by (simp add: numConnected_close)

end
