(* ===== verification/PingPong.thy ===== *)
theory PingPong
  imports Prelude
begin

text \<open>
  \<^verbatim>\<open>src/examples/pingpong_bench.cc\<close>: a benchmark that passes one-byte messages around a ring
  of socket pairs through the event loop. The world is the number of messages that wait at each
  reading end and the counters; a round is a sequence of read callbacks, each for any pair
  that has a byte, as \<^verbatim>\<open>epoll_wait\<close> reports them. The sockets are blocking: \<^verbatim>\<open>recv\<close> does not
  return at an end without a byte, and \<^verbatim>\<open>send\<close> does not return when the other end holds as
  many messages as its buffer takes, \<open>capacity\<close>. The counters are of type \<^verbatim>\<open>int\<close>, whose
  overflow is undefined.

  The lemmas show that a round with no more active pairs than one buffer takes cannot block,
  ends after exactly as many reads as messages are asked for, quits the loop at that moment and
  leaves nothing for the next round; and that a round with more active pairs than pairs and
  than the buffer takes blocks before its loop.
\<close>

record bench =
  numPipes :: nat
  numActive :: nat
  capacity :: nat
  pending :: "nat list"
  g_reads :: int
  g_writes :: int
  g_fired :: int
  bench_quit :: bool

text \<open>A call returns, blocks for ever, as no other thread reads, or has undefined behaviour.\<close>

datatype bench_end = Ran bench | Blocks | Undef

definition pipe_send :: "nat \<Rightarrow> bench \<Rightarrow> bench_end" where
  "pipe_send i b =
     (if pending b ! i < capacity b then Ran (b\<lparr>pending := (pending b)[i := pending b ! i + 1]\<rparr>) else Blocks)"

definition int_incr :: "int \<Rightarrow> int option" where
  "int_incr n = (if n + 1 < 2 ^ 31 then Some (n + 1) else None)"

definition readCallback :: "nat \<Rightarrow> bench \<Rightarrow> bench_end" where
  "readCallback idx b =
     (if pending b ! idx = 0 then Blocks
      else
        case int_incr (g_reads b) of
          None \<Rightarrow> Undef
        | Some reads \<Rightarrow>
            let b1 = b\<lparr>pending := (pending b)[idx := pending b ! idx - 1], g_reads := reads\<rparr>;
                sent = (if g_writes b1 > 0 then
                          let widx = (if idx + 1 \<ge> numPipes b1 then idx + 1 - numPipes b1 else idx + 1)
                          in case pipe_send widx b1 of
                               Ran b2 \<Rightarrow>
                                 (case int_incr (g_fired b2) of
                                    None \<Rightarrow> Undef
                                  | Some fired \<Rightarrow> Ran (b2\<lparr>g_writes := g_writes b2 - 1, g_fired := fired\<rparr>))
                             | stuck \<Rightarrow> stuck
                        else Ran b1)
            in case sent of
                 Ran b3 \<Rightarrow> Ran (if g_fired b3 = g_reads b3 then b3\<lparr>bench_quit := True\<rparr> else b3)
               | stuck \<Rightarrow> stuck)"

text \<open>
  What \<^verbatim>\<open>runOnce\<close> does before it runs the loop, and \<^verbatim>\<open>loop\<close> when it starts. The address it
  sends to is \<open>i * space + 1\<close> in the array of descriptors, with \<open>space\<close> twice the quotient: the
  writing end of pair \<open>i * (numPipes div numActive)\<close>. Without an active pair it divides by zero.
\<close>

primrec first_sends :: "nat \<Rightarrow> nat list \<Rightarrow> bench \<Rightarrow> bench_end" where
  "first_sends space [] b = Ran b"
| "first_sends space (i # is) b =
     (case pipe_send ((i * space + 1) div 2) b of
        Ran b1 \<Rightarrow> first_sends space is b1
      | stuck \<Rightarrow> stuck)"

definition runOnce :: "int \<Rightarrow> bench \<Rightarrow> bench_end" where
  "runOnce numWrites b =
     (if numActive b = 0 then Undef
      else
        case first_sends (numPipes b div numActive b * 2) [0..<numActive b] b of
          Ran b1 \<Rightarrow> Ran (b1\<lparr>g_fired := int (numActive b1), g_reads := 0, g_writes := numWrites, bench_quit := False\<rparr>)
        | stuck \<Rightarrow> stuck)"

text \<open>A number of callbacks, one after the other, each for a pair with a byte to read.\<close>

inductive bench_run :: "nat \<Rightarrow> bench \<Rightarrow> bench \<Rightarrow> bool" where
  bench_start: "bench_run 0 b b"
| bench_read: "bench_run n b c \<Longrightarrow> i < numPipes c \<Longrightarrow> readCallback i c = Ran d \<Longrightarrow> bench_run (Suc n) b d"

definition in_flight :: "bench \<Rightarrow> nat" where
  "in_flight b = sum_list (pending b)"

lemma sum_list_inc: "i < length xs \<Longrightarrow> sum_list (xs[i := xs ! i + (1::nat)]) = sum_list xs + 1"
  by (simp add: sum_list_update)

lemma sum_list_dec: "i < length xs \<Longrightarrow> 0 < xs ! i \<Longrightarrow> sum_list (xs[i := xs ! i - (1::nat)]) = sum_list xs - 1"
proof -
  assume "i < length xs" "0 < xs ! i"
  moreover from this have "xs ! i \<le> sum_list xs" by (simp add: elem_le_sum_list)
  ultimately show ?thesis by (simp add: sum_list_update)
qed

text \<open>What the buffers and counters have to hold for a round.\<close>

definition bench_fits :: "int \<Rightarrow> bench \<Rightarrow> bool" where
  "bench_fits numWrites b \<longleftrightarrow> 0 \<le> numWrites \<and> numActive b \<le> capacity b \<and> int (numActive b) + numWrites < 2 ^ 31"

definition bench_inv :: "int \<Rightarrow> nat \<Rightarrow> bench \<Rightarrow> bool" where
  "bench_inv numWrites n b \<longleftrightarrow> length (pending b) = numPipes b \<and> g_reads b = int n \<and> 0 \<le> g_writes b \<and>
     int (in_flight b) = g_fired b - g_reads b \<and> g_fired b + g_writes b = int (numActive b) + numWrites \<and>
     in_flight b \<le> numActive b \<and> (if in_flight b = 0 then g_writes b = 0 else True) \<and> bench_quit b = (in_flight b = 0)"

text \<open>The ring stays the ring.\<close>

definition same_ring :: "bench \<Rightarrow> bench \<Rightarrow> bool" where
  "same_ring b c \<longleftrightarrow> numPipes c = numPipes b \<and> numActive c = numActive b \<and> capacity c = capacity b"

lemma same_ring_trans: "same_ring a b \<Longrightarrow> same_ring b c \<Longrightarrow> same_ring a c"
  by (simp add: same_ring_def)

lemma in_flight_other [simp]:
  "in_flight (b\<lparr>bench_quit := q\<rparr>) = in_flight b" "in_flight (b\<lparr>g_writes := x, g_fired := y\<rparr>) = in_flight b"
  by (simp_all add: in_flight_def)

text \<open>A \<^verbatim>\<open>send\<close> with fewer messages under way than one buffer takes.\<close>

lemma pipe_send_room:
  assumes "i < length (pending b)" "in_flight b < capacity b"
  obtains c where "pipe_send i b = Ran c" "in_flight c = in_flight b + 1" "same_ring b c"
    "length (pending c) = length (pending b)" "g_reads c = g_reads b" "g_writes c = g_writes b" "g_fired c = g_fired b"
    "bench_quit c = bench_quit b"
proof -
  have "pending b ! i \<le> in_flight b" using assms(1) by (simp add: in_flight_def elem_le_sum_list)
  with assms(2) have "pipe_send i b = Ran (b\<lparr>pending := (pending b)[i := pending b ! i + 1]\<rparr>)" by (simp add: pipe_send_def)
  then show ?thesis by (rule that) (use sum_list_inc [OF assms(1)] in \<open>simp_all add: in_flight_def same_ring_def\<close>)
qed

lemma first_sends_room:
  assumes "length (pending b) = numPipes b" "list_all (\<lambda>i. (i * space + 1) div 2 < numPipes b) is"
    and "in_flight b + length is \<le> capacity b"
  shows "\<exists>c. first_sends space is b = Ran c \<and> in_flight c = in_flight b + length is \<and> same_ring b c \<and>
    length (pending c) = numPipes b"
  using assms
proof (induction "is" arbitrary: b)
  case Nil
  then show ?case by (simp add: same_ring_def)
next
  case (Cons i "is")
  then have "(i * space + 1) div 2 < length (pending b)" "in_flight b < capacity b" by simp_all
  then obtain c where c: "pipe_send ((i * space + 1) div 2) b = Ran c" "in_flight c = in_flight b + 1" "same_ring b c"
      "length (pending c) = length (pending b)"
    by (rule pipe_send_room)
  with Cons.prems have "length (pending c) = numPipes c" "list_all (\<lambda>i. (i * space + 1) div 2 < numPipes c) is"
      "in_flight c + length is \<le> capacity c"
    by (simp_all add: same_ring_def)
  from Cons.IH [OF this] c show ?case by (auto simp: same_ring_def)
qed

lemma first_pairs:
  assumes "0 < numPipes b" "i < numActive b"
  shows "(i * (numPipes b div numActive b * 2) + 1) div 2 < numPipes b"
proof -
  let ?q = "numPipes b div numActive b"
  have "(i * (?q * 2) + 1) div 2 = i * ?q" using div_mult_self1 [of 2 1 "i * ?q"] by (simp add: ac_simps)
  moreover have "i * ?q < numPipes b"
  proof (cases "?q = 0")
    case False
    with assms(2) have "i * ?q < numActive b * ?q" by simp
    also have "numActive b * ?q \<le> numPipes b" by simp
    finally show ?thesis .
  qed (use assms(1) in simp)
  ultimately show ?thesis by simp
qed

lemma runOnce_inv:
  assumes "length (pending b) = numPipes b" "in_flight b = 0" "0 < numPipes b" "0 < numActive b" "bench_fits numWrites b"
  obtains b0 where "runOnce numWrites b = Ran b0" "bench_inv numWrites 0 b0" "same_ring b b0"
proof -
  have "list_all (\<lambda>i. (i * (numPipes b div numActive b * 2) + 1) div 2 < numPipes b) [0..<numActive b]"
    using first_pairs [OF assms(3)] by (simp add: list_all_iff)
  from first_sends_room [OF assms(1) this] assms(2,5) obtain c where
    c: "first_sends (numPipes b div numActive b * 2) [0..<numActive b] b = Ran c" "in_flight c = numActive b"
      "same_ring b c" "length (pending c) = numPipes b"
    by (auto simp: bench_fits_def)
  show ?thesis
  proof (rule that)
    show "runOnce numWrites b = Ran (c\<lparr>g_fired := int (numActive c), g_reads := 0, g_writes := numWrites, bench_quit := False\<rparr>)"
      using c(1) assms(4) by (simp add: runOnce_def)
  qed (use c assms(4,5) in \<open>simp_all add: bench_inv_def in_flight_def same_ring_def bench_fits_def\<close>)
qed

lemma readCallback_inv:
  assumes inv: "bench_inv numWrites n b" and fits: "bench_fits numWrites b"
    and i: "i < numPipes b" and byte: "0 < pending b ! i"
  obtains c where "readCallback i b = Ran c" "bench_inv numWrites (Suc n) c" "same_ring b c"
proof -
  have len: "length (pending b) = numPipes b" using inv by (simp add: bench_inv_def)
  define b1 where "b1 = b\<lparr>pending := (pending b)[i := pending b ! i - 1], g_reads := g_reads b + 1\<rparr>"
  have "pending b ! i \<le> in_flight b" using i len by (simp add: in_flight_def elem_le_sum_list)
  then have flight: "in_flight b1 = in_flight b - 1" "0 < in_flight b"
    using sum_list_dec [of i "pending b"] byte i len by (simp_all add: b1_def in_flight_def)
  have quit: "\<not> bench_quit b" using inv flight(2) by (simp add: bench_inv_def)
  have reads: "int_incr (g_reads b) = Some (g_reads b + 1)"
    using inv fits flight(2) by (auto simp: int_incr_def bench_inv_def bench_fits_def)
  have b1: "same_ring b b1" "length (pending b1) = numPipes b" "g_reads b1 = g_reads b + 1" "g_writes b1 = g_writes b"
      "g_fired b1 = g_fired b" "\<not> bench_quit b1"
    using quit len by (simp_all add: b1_def same_ring_def)
  show ?thesis
  proof (cases "g_writes b > 0")
    case True
    define w where "w = (if i + 1 \<ge> numPipes b then i + 1 - numPipes b else i + 1)"
    have "w < length (pending b1)" using i b1(2) by (auto simp: w_def)
    moreover have "in_flight b1 < capacity b1"
      using flight inv fits b1(1) by (auto simp: bench_inv_def bench_fits_def same_ring_def)
    ultimately obtain b2 where b2: "pipe_send w b1 = Ran b2" "in_flight b2 = in_flight b1 + 1" "same_ring b1 b2"
        "length (pending b2) = length (pending b1)" "g_reads b2 = g_reads b1" "g_writes b2 = g_writes b1"
        "g_fired b2 = g_fired b1" "bench_quit b2 = bench_quit b1"
      by (rule pipe_send_room)
    have fired: "int_incr (g_fired b2) = Some (g_fired b + 1)"
      using inv fits True b1 b2 by (auto simp: int_incr_def bench_inv_def bench_fits_def)
    show ?thesis
    proof (rule that)
      show "readCallback i b = Ran (let b3 = b2\<lparr>g_writes := g_writes b2 - 1, g_fired := g_fired b + 1\<rparr>
          in if g_fired b3 = g_reads b3 then b3\<lparr>bench_quit := True\<rparr> else b3)"
        using byte reads b2(1) [unfolded b1_def w_def] fired True
        by (cases "i + 1 \<ge> numPipes b") (simp_all add: readCallback_def Let_def)
    qed (use inv flight b1 b2 True in \<open>auto simp: Let_def bench_inv_def same_ring_def\<close>)
  next
    case False
    show ?thesis
    proof (rule that)
      show "readCallback i b = Ran (if g_fired b1 = g_reads b1 then b1\<lparr>bench_quit := True\<rparr> else b1)"
        using byte reads False by (simp add: readCallback_def Let_def b1_def)
    qed (use inv flight b1 False in \<open>auto simp: bench_inv_def same_ring_def of_nat_diff\<close>)
  qed
qed

lemma readCallback_byte: "readCallback i b = Ran c \<Longrightarrow> 0 < pending b ! i"
  by (cases "pending b ! i") (auto simp: readCallback_def)

lemma bench_run_inv:
  "bench_run n b c \<Longrightarrow> bench_inv numWrites 0 b \<Longrightarrow> bench_fits numWrites b \<Longrightarrow> bench_inv numWrites n c \<and> same_ring b c"
proof (induction rule: bench_run.induct)
  case (bench_start b)
  then show ?case by (simp add: same_ring_def)
next
  case (bench_read n b c i d)
  then have c: "bench_inv numWrites n c" "same_ring b c" by blast+
  then have "bench_fits numWrites c" using bench_read.prems(2) by (simp add: bench_fits_def same_ring_def)
  from readCallback_inv [OF c(1) this bench_read.hyps(2) readCallback_byte [OF bench_read.hyps(3)]] bench_read.hyps(3)
  have "bench_inv numWrites (Suc n) d \<and> same_ring c d" by (metis bench_end.inject)
  with same_ring_trans [OF c(2)] show ?case by blast
qed

text \<open>
  A round ends exactly when it should: from an idle ring with some active pairs, no more than
  one buffer takes, after any number of callbacks in any order, the callbacks are as many as
  the reads and at most as many as the messages asked for; while they are fewer, some pair has
  a byte, the callback of each such pair returns, and the loop has not been told to quit; when
  they are equal, the loop has been told to quit and no byte is left in any pair.
\<close>

lemma bench_round_ends:
  assumes "runOnce numWrites b = Ran b0" "length (pending b) = numPipes b" "in_flight b = 0"
    and "0 < numPipes b" "0 < numActive b" "bench_fits numWrites b" "bench_run n b0 c"
  shows "let messages = int (numActive b) + numWrites in
     g_reads c = int n \<and> int n \<le> messages \<and>
     (if int n < messages then
        \<not> bench_quit c \<and> (\<exists>i<numPipes b. 0 < pending c ! i) \<and>
        (\<forall>i<numPipes b. 0 < pending c ! i \<longrightarrow> (\<exists>d. readCallback i c = Ran d))
      else bench_quit c \<and> in_flight c = 0)"
proof -
  obtain c0 where c0: "runOnce numWrites b = Ran c0" "bench_inv numWrites 0 c0" "same_ring b c0"
    using runOnce_inv [OF assms(2-6)] .
  with assms(1) have b0: "bench_inv numWrites 0 b0" "same_ring b b0" by simp_all
  have "bench_fits numWrites b0" using b0(2) assms(6) by (simp add: bench_fits_def same_ring_def)
  from bench_run_inv [OF assms(7) b0(1) this] have inv: "bench_inv numWrites n c" "same_ring b c"
    using same_ring_trans [OF b0(2)] by blast+
  then have fits: "bench_fits numWrites c" using assms(6) by (simp add: bench_fits_def same_ring_def)
  have some: "\<exists>i<numPipes b. 0 < pending c ! i" if "0 < in_flight c"
  proof -
    have "\<exists>i<length (pending c). 0 < pending c ! i"
      using that sum_list_eq_0_iff [of "pending c"] by (metis in_flight_def in_set_conv_nth neq0_conv)
    then show ?thesis using inv by (simp add: bench_inv_def same_ring_def)
  qed
  have runs: "\<forall>i<numPipes b. 0 < pending c ! i \<longrightarrow> (\<exists>d. readCallback i c = Ran d)"
    using readCallback_inv [OF inv(1) fits] inv(2) by (metis same_ring_def)
  show ?thesis using inv some runs by (auto simp: bench_inv_def same_ring_def Let_def split: if_splits)
qed

text \<open>
  With more active pairs than pairs the quotient is zero, and all first messages go to the
  first pair: when they are more than its buffer takes, the program waits in \<^verbatim>\<open>send\<close>.
\<close>

lemma first_sends_full:
  assumes "0 < length (pending b)" "capacity b < pending b ! 0 + length is" "pending b ! 0 \<le> capacity b"
  shows "first_sends 0 is b = Blocks"
  using assms
proof (induction "is" arbitrary: b)
  case (Cons i "is")
  show ?case
  proof (cases "pending b ! 0 < capacity b")
    case True
    with Cons.prems show ?thesis
      using Cons.IH [of "b\<lparr>pending := (pending b)[0 := pending b ! 0 + 1]\<rparr>"] by (simp add: pipe_send_def)
  qed (simp add: pipe_send_def)
qed simp

lemma too_many_active_block:
  assumes "numPipes b < numActive b" "capacity b < numActive b" "length (pending b) = numPipes b" "0 < numPipes b"
    and "pending b ! 0 = 0"
  shows "runOnce numWrites b = Blocks"
  using first_sends_full [of b "[0..<numActive b]"] assms by (simp add: runOnce_def)

end
