(* ===== verification/EventLoopThread.thy ===== *)
theory EventLoopThread
  imports Prelude
begin

text \<open>
  \<^verbatim>\<open>src/slite/EventLoopThread.h\<close> and \<^verbatim>\<open>EventLoopThread.cc\<close>: a thread that runs a loop which
  lives on its stack, and the object that owns the thread. The steps of the two threads
  interleave; each step is one access to the shared fields \<^verbatim>\<open>loop_\<close> and \<^verbatim>\<open>quit_\<close>. A step that
  would block (the wait for the loop, the join) is not possible until it would not. That
  \<^verbatim>\<open>quit\<close> makes a loop that is polling return is what \<^verbatim>\<open>LoopWake\<close> shows; of the loop, only its
  flag \<^verbatim>\<open>quit_\<close> is kept here, which \<^verbatim>\<open>loop\<close> clears when it starts.

  The lemmas show that \<^verbatim>\<open>startLoop\<close> returns the loop, alive, and that a destructor that comes
  while the loop runs ends; and what happens when it comes before.
\<close>

section \<open>State\<close>

text \<open>The program points of \<^verbatim>\<open>threadFunc\<close>, and of the thread that owns the object.\<close>

datatype thread_pc =
    NotStarted
  | Constructing    \<comment> \<open>line 42, before \<^verbatim>\<open>loop_ = &loop\<close>\<close>
  | Published       \<comment> \<open>line 50, before \<^verbatim>\<open>loop\<close> has cleared \<^verbatim>\<open>quit_\<close>\<close>
  | Looping
  | Leaving         \<comment> \<open>line 51, before \<^verbatim>\<open>loop_ = nullptr\<close>\<close>
  | Cleared         \<comment> \<open>line 54, before the loop is destroyed\<close>
  | Ended

datatype owner_pc =
    Made            \<comment> \<open>constructed\<close>
  | Waiting         \<comment> \<open>line 35, in \<^verbatim>\<open>cond_.wait\<close>\<close>
  | HasLoop         \<comment> \<open>\<^verbatim>\<open>startLoop\<close> has returned\<close>
  | Quitting        \<comment> \<open>line 23, \<^verbatim>\<open>loop_\<close> was not null\<close>
  | Joining         \<comment> \<open>line 25\<close>
  | Destroyed

record elt =
  owner :: owner_pc
  loop_thread :: thread_pc
  loop_ptr :: bool
  elt_quit :: bool
  terminate :: bool
  dangling :: bool    \<comment> \<open>\<^verbatim>\<open>quit\<close> was called on a loop that no longer exists\<close>

definition EventLoopThread_ctor :: elt where
  "EventLoopThread_ctor = \<lparr>owner = Made, loop_thread = NotStarted, loop_ptr = False, elt_quit = False,
     terminate = False, dangling = False\<rparr>"

section \<open>Steps\<close>

text \<open>One step of \<^verbatim>\<open>threadFunc\<close>.\<close>

definition threadFunc :: "elt \<Rightarrow> elt option" where
  "threadFunc s =
     (case loop_thread s of
        NotStarted \<Rightarrow> None
      | Constructing \<Rightarrow> Some (s\<lparr>loop_thread := Published, loop_ptr := True, elt_quit := False\<rparr>)
      | Published \<Rightarrow> Some (s\<lparr>loop_thread := Looping, elt_quit := False\<rparr>)
      | Looping \<Rightarrow> if elt_quit s then Some (s\<lparr>loop_thread := Leaving\<rparr>) else None
      | Leaving \<Rightarrow> Some (s\<lparr>loop_thread := Cleared, loop_ptr := False\<rparr>)
      | Cleared \<Rightarrow> Some (s\<lparr>loop_thread := Ended\<rparr>)
      | Ended \<Rightarrow> None)"

text \<open>One step of \<^verbatim>\<open>startLoop\<close>: start the thread, then wait until the loop is there.\<close>

definition startLoop :: "elt \<Rightarrow> elt option" where
  "startLoop s =
     (case owner s of
        Made \<Rightarrow> if loop_thread s = NotStarted then Some (s\<lparr>owner := Waiting, loop_thread := Constructing\<rparr>) else None
      | Waiting \<Rightarrow> if loop_ptr s then Some (s\<lparr>owner := HasLoop\<rparr>) else None
      | _ \<Rightarrow> None)"

text \<open>One step of the destructor: the test of \<^verbatim>\<open>loop_\<close>, the call of \<^verbatim>\<open>quit\<close>, the join.\<close>

definition EventLoopThread_dtor :: "elt \<Rightarrow> elt option" where
  "EventLoopThread_dtor s =
     (if owner s = Made \<or> owner s = HasLoop then
        (if loop_ptr s then Some (s\<lparr>owner := Quitting, terminate := True\<rparr>) else Some (s\<lparr>owner := Joining\<rparr>))
      else if owner s = Quitting then
        (if loop_thread s = Ended then Some (s\<lparr>owner := Joining, dangling := True\<rparr>)
         else Some (s\<lparr>owner := Joining, elt_quit := True\<rparr>))
      else if owner s = Joining then
        (if loop_thread s = NotStarted \<or> loop_thread s = Ended then Some (s\<lparr>owner := Destroyed\<rparr>) else None)
      else None)"

text \<open>
  A task or a callback that runs in the loop tells it to quit. The loop runs none before
  \<^verbatim>\<open>startLoop\<close> has handed the pointer to it out.
\<close>

definition task_quits :: "elt \<Rightarrow> elt option" where
  "task_quits s =
     (if loop_thread s = Looping \<and> owner s \<noteq> Made \<and> owner s \<noteq> Waiting then Some (s\<lparr>elt_quit := True\<rparr>) else None)"

inductive elt_step :: "elt \<Rightarrow> elt \<Rightarrow> bool" where
  elt_thread: "threadFunc s = Some t \<Longrightarrow> elt_step s t"
| elt_start: "startLoop s = Some t \<Longrightarrow> elt_step s t"
| elt_dtor: "EventLoopThread_dtor s = Some t \<Longrightarrow> elt_step s t"

text \<open>What may happen: the steps of both threads, and quits from within the loop.\<close>

inductive elt_reach :: "elt \<Rightarrow> bool" where
  elt_init: "elt_reach EventLoopThread_ctor"
| elt_next: "elt_reach s \<Longrightarrow> elt_step s t \<Longrightarrow> elt_reach t"
| elt_task: "elt_reach s \<Longrightarrow> task_quits s = Some t \<Longrightarrow> elt_reach t"

inductive elt_steps :: "nat \<Rightarrow> elt \<Rightarrow> elt \<Rightarrow> bool" where
  elt_none: "elt_steps 0 s s"
| elt_more: "elt_steps n s t \<Longrightarrow> elt_step t u \<Longrightarrow> elt_steps (Suc n) s u"

inductive_cases elt_stepE: "elt_step s t"

lemmas elt_defs = threadFunc_def startLoop_def EventLoopThread_dtor_def task_quits_def

section \<open>Starting\<close>

text \<open>The pointer is there exactly while the thread is between its two assignments.\<close>

definition elt_inv :: "elt \<Rightarrow> bool" where
  "elt_inv s \<longleftrightarrow> loop_ptr s = (loop_thread s \<in> {Published, Looping, Leaving}) \<and>
     (loop_thread s = NotStarted) = (owner s = Made \<or> loop_thread s = NotStarted \<and> owner s \<in> {Joining, Destroyed}) \<and>
     (if owner s = Made then loop_thread s = NotStarted else True) \<and>
     (if owner s = Waiting then loop_thread s \<in> {Constructing, Published, Looping} \<and>
        (if loop_thread s = Looping then \<not> elt_quit s else True) else True)"

lemma elt_step_inv: "elt_step s t \<Longrightarrow> elt_inv s \<Longrightarrow> elt_inv t"
  by (elim elt_stepE)
     (auto simp: elt_defs elt_inv_def split: thread_pc.splits owner_pc.splits if_splits)

lemma elt_reach_inv: "elt_reach s \<Longrightarrow> elt_inv s"
proof (induction rule: elt_reach.induct)
  case elt_init
  show ?case by (simp add: elt_inv_def EventLoopThread_ctor_def)
next
  case (elt_next s t)
  then show ?case using elt_step_inv by blast
next
  case (elt_task s t)
  then show ?case by (auto simp: elt_defs elt_inv_def split: if_splits)
qed

text \<open>
  \<^verbatim>\<open>startLoop\<close> hands out a loop: while it waits, in every interleaving, either the loop is
  published, then the wait ends, and the loop exists and runs or is about to run; or the
  thread is still making it, and the thread's next step publishes it.
\<close>

theorem startLoop_returns_loop:
  assumes "elt_reach s" "owner s = Waiting"
  shows "if loop_ptr s then startLoop s = Some (s\<lparr>owner := HasLoop\<rparr>) \<and> loop_thread s \<in> {Published, Looping}
     else startLoop s = None \<and> loop_thread s = Constructing \<and> map_option loop_ptr (threadFunc s) = Some True"
  using elt_reach_inv [OF assms(1)] assms(2)
  by (cases "loop_thread s") (auto simp: elt_inv_def startLoop_def threadFunc_def)

section \<open>Ending\<close>

text \<open>Steps that are left until the owner is done, once the loop runs and the destructor has begun.\<close>

definition owner_left :: "owner_pc \<Rightarrow> nat" where
  "owner_left p = (case p of HasLoop \<Rightarrow> 3 | Quitting \<Rightarrow> 2 | Joining \<Rightarrow> 1 | _ \<Rightarrow> 0)"

definition thread_left :: "thread_pc \<Rightarrow> nat" where
  "thread_left p = (case p of Looping \<Rightarrow> 3 | Leaving \<Rightarrow> 2 | Cleared \<Rightarrow> 1 | _ \<Rightarrow> 0)"

definition ending :: "nat \<Rightarrow> elt \<Rightarrow> bool" where
  "ending n s \<longleftrightarrow> n + owner_left (owner s) + thread_left (loop_thread s) = 6 \<and> \<not> dangling s \<and>
     loop_ptr s = (loop_thread s \<in> {Looping, Leaving}) \<and>
     (if owner s = HasLoop \<or> owner s = Quitting then loop_thread s = Looping \<and> \<not> elt_quit s
      else if owner s = Joining then elt_quit s \<and> loop_thread s \<in> {Looping, Leaving, Cleared, Ended}
      else owner s = Destroyed \<and> loop_thread s = Ended)"

lemma ending_step: "ending n s \<Longrightarrow> elt_step s t \<Longrightarrow> ending (Suc n) t"
  by (elim elt_stepE)
     (auto simp: elt_defs ending_def owner_left_def thread_left_def split: thread_pc.splits owner_pc.splits if_splits)

lemma ending_steps: "elt_steps n s t \<Longrightarrow> ending 0 s \<Longrightarrow> ending n t"
  by (induction rule: elt_steps.induct) (auto intro: ending_step)

lemma ending_progress: "ending n s \<Longrightarrow> owner s \<noteq> Destroyed \<Longrightarrow> \<exists>t. elt_step s t"
proof -
  assume "ending n s" "owner s \<noteq> Destroyed"
  then have "threadFunc s \<noteq> None \<or> EventLoopThread_dtor s \<noteq> None"
    by (cases "owner s"; cases "loop_thread s")
      (auto simp: ending_def threadFunc_def EventLoopThread_dtor_def split: if_splits)
  then show ?thesis by (auto intro: elt_thread elt_dtor)
qed

text \<open>
  C13. The destructor ends a loop that runs: when nobody else tells the loop to quit, every
  interleaving of the destructor with the thread takes at most six steps, never calls \<^verbatim>\<open>quit\<close>
  on a loop that is gone, and can go on until the object is destroyed, which is when the
  thread has ended and been joined.
\<close>

theorem thread_joined:
  assumes "owner s = HasLoop" "loop_thread s = Looping" "loop_ptr s" "\<not> elt_quit s" "\<not> dangling s"
    and "elt_steps n s t"
  shows "n \<le> 6 \<and> \<not> dangling t \<and>
    (if owner t = Destroyed then n = 6 \<and> loop_thread t = Ended else (\<exists>u. elt_step t u))"
proof -
  have "ending 0 s" using assms(1-5) by (simp add: ending_def owner_left_def thread_left_def)
  then have "ending n t" using assms(6) by (rule ending_steps [rotated])
  then show ?thesis using ending_progress [of n t]
    by (auto simp: ending_def owner_left_def thread_left_def)
qed

text \<open>
  A destructor that comes before the loop runs is never done: its \<^verbatim>\<open>quit\<close> is undone when the
  loop starts, and both threads wait for ever. One whose test of \<^verbatim>\<open>loop_\<close> comes before, and
  whose call of \<^verbatim>\<open>quit\<close> comes after, a task has ended the loop uses a loop that is gone.
\<close>

definition started :: "elt" where
  "started = EventLoopThread_ctor\<lparr>owner := HasLoop, loop_thread := Published, loop_ptr := True\<rparr>"

definition stuck_join :: "elt" where
  "stuck_join = started\<lparr>owner := Joining, loop_thread := Looping, terminate := True\<rparr>"

lemma started_reach: "elt_reach started"
proof -
  have "elt_reach (EventLoopThread_ctor\<lparr>owner := Waiting, loop_thread := Constructing\<rparr>)"
    by (rule elt_next [OF elt_init elt_start]) (simp add: startLoop_def EventLoopThread_ctor_def)
  then have "elt_reach (EventLoopThread_ctor\<lparr>owner := Waiting, loop_thread := Published, loop_ptr := True\<rparr>)"
    by (rule elt_next [OF _ elt_thread]) (simp add: threadFunc_def EventLoopThread_ctor_def)
  then show ?thesis
    by (rule elt_next [OF _ elt_start]) (simp add: startLoop_def EventLoopThread_ctor_def started_def)
qed

lemma early_quit_hangs: "elt_reach stuck_join \<and> (\<nexists>t. elt_step stuck_join t)"
proof
  have "elt_reach (started\<lparr>owner := Quitting, terminate := True\<rparr>)"
    by (rule elt_next [OF started_reach elt_dtor])
      (simp add: EventLoopThread_dtor_def started_def EventLoopThread_ctor_def)
  then have "elt_reach (started\<lparr>owner := Joining, terminate := True, elt_quit := True\<rparr>)"
    by (rule elt_next [OF _ elt_dtor]) (simp add: EventLoopThread_dtor_def started_def EventLoopThread_ctor_def)
  then show "elt_reach stuck_join"
    by (rule elt_next [OF _ elt_thread])
      (simp add: threadFunc_def started_def EventLoopThread_ctor_def stuck_join_def)
  show "\<nexists>t. elt_step stuck_join t"
    by (auto elim!: elt_stepE simp: elt_defs stuck_join_def started_def EventLoopThread_ctor_def)
qed

lemma late_quit_dangles: "\<exists>s. elt_reach s \<and> dangling s"
proof -
  let ?s = "started\<lparr>loop_thread := Looping\<rparr>"
  have "elt_reach ?s"
    by (rule elt_next [OF started_reach elt_thread]) (simp add: threadFunc_def started_def EventLoopThread_ctor_def)
  then have "elt_reach (?s\<lparr>owner := Quitting, terminate := True\<rparr>)"
    by (rule elt_next [OF _ elt_dtor]) (simp add: EventLoopThread_dtor_def started_def EventLoopThread_ctor_def)
  then have "elt_reach (?s\<lparr>owner := Quitting, terminate := True, elt_quit := True\<rparr>)"
    by (rule elt_task) (simp add: task_quits_def)
  then have "elt_reach (?s\<lparr>owner := Quitting, terminate := True, elt_quit := True, loop_thread := Leaving\<rparr>)"
    by (rule elt_next [OF _ elt_thread]) (simp add: threadFunc_def)
  then have "elt_reach (?s\<lparr>owner := Quitting, terminate := True, elt_quit := True, loop_thread := Cleared, loop_ptr := False\<rparr>)"
    by (rule elt_next [OF _ elt_thread]) (simp add: threadFunc_def)
  then have "elt_reach (?s\<lparr>owner := Quitting, terminate := True, elt_quit := True, loop_thread := Ended, loop_ptr := False\<rparr>)"
    by (rule elt_next [OF _ elt_thread]) (simp add: threadFunc_def)
  then have "elt_reach (?s\<lparr>owner := Joining, terminate := True, elt_quit := True, loop_thread := Ended,
      loop_ptr := False, dangling := True\<rparr>)"
    by (rule elt_next [OF _ elt_dtor]) (simp add: EventLoopThread_dtor_def)
  then show ?thesis by (intro exI [of _ "?s\<lparr>owner := Joining, terminate := True, elt_quit := True,
      loop_thread := Ended, loop_ptr := False, dangling := True\<rparr>"]) simp
qed

section \<open>Witnesses\<close>

theorem startLoop_returns_loop_witness:
  "map_option loop_ptr (threadFunc (EventLoopThread_ctor\<lparr>owner := Waiting, loop_thread := Constructing\<rparr>)) = Some True"
proof -
  have "elt_reach (EventLoopThread_ctor\<lparr>owner := Waiting, loop_thread := Constructing\<rparr>)"
    by (rule elt_next [OF elt_init elt_start]) (simp add: startLoop_def EventLoopThread_ctor_def)
  from startLoop_returns_loop [OF this] show ?thesis by (simp add: EventLoopThread_ctor_def)
qed

theorem thread_joined_witness:
  "\<exists>t. elt_steps 1 (started\<lparr>loop_thread := Looping\<rparr>) t \<and> \<not> dangling t \<and> (\<exists>u. elt_step t u)"
proof -
  let ?s = "started\<lparr>loop_thread := Looping\<rparr>" and ?t = "started\<lparr>loop_thread := Looping, owner := Quitting, terminate := True\<rparr>"
  have "elt_step ?s ?t"
    by (rule elt_dtor) (simp add: EventLoopThread_dtor_def started_def EventLoopThread_ctor_def)
  then have run: "elt_steps 1 ?s ?t" using elt_more [OF elt_none] by simp
  have "owner ?s = HasLoop" "loop_thread ?s = Looping" "loop_ptr ?s" "\<not> elt_quit ?s" "\<not> dangling ?s"
    by (simp_all add: started_def EventLoopThread_ctor_def)
  from thread_joined [OF this run] run show ?thesis by auto
qed

end
