(* ===== verification/MessageQueue.thy ===== *)
theory MessageQueue
  imports Prelude
begin

text \<open>
  \<^verbatim>\<open>src/examples/mq/MessageQueue.cc\<close>: a queue of strings over \<^verbatim>\<open>std::queue\<close>. \<^verbatim>\<open>pop\<close> binds a
  reference to the last element, removes the first, and returns a copy of what the reference
  refers to: of a queue with one element that element is gone by then, and an empty queue has
  no last element; both are undefined (\<^const>\<open>None\<close>).
\<close>

definition mq_push :: "string \<Rightarrow> string list \<Rightarrow> string list" where
  "mq_push data q = q @ [data]"

definition mq_pop :: "string list \<Rightarrow> (string \<times> string list) option" where
  "mq_pop q = (if length q < 2 then None else Some (last q, tl q))"

text \<open>So the queue is none: what is popped is the message pushed last, and the one lost is the first.\<close>

lemma pop_takes_newest:
  "q \<noteq> [] \<Longrightarrow> mq_pop (mq_push data q) = Some (data, mq_push data (tl q))"
  by (cases q) (simp_all add: mq_pop_def mq_push_def)

lemma pop_of_one: "mq_pop (mq_push data []) = None"
  by (simp add: mq_pop_def mq_push_def)

end
