(* ===== verification/Link.thy ===== *)
theory Link
  imports QueryServer "HOL-Library.Sublist"
begin

text \<open>
  Two programs that speak \<^verbatim>\<open>ProtobufCodec\<close> to each other: one has connection \<open>c\<close> of its
  world, the other connection \<open>d\<close> of its own, and what one kernel takes from \<^verbatim>\<open>send\<close> the
  other one hands out from \<^verbatim>\<open>recv\<close>, in pieces of its own choice. The programs send when they
  like, out of the loop and out of their callbacks, and the kernels answer as they like. A
  program may do more besides: it makes the connection and destroys it, and whatever leaves
  this connection alone may happen at any time.
\<close>

section \<open>A program at one end\<close>

text \<open>What leaves a connection alone: it may be about other connections, and any other state.\<close>

definition about :: "conn_id \<Rightarrow> event \<Rightarrow> bool" where
  "about c e \<longleftrightarrow>
     (case e of Created d \<Rightarrow> d = c | Sent d _ \<Rightarrow> d = c | HalfClosed d \<Rightarrow> d = c | Taken d _ \<Rightarrow> d = c | GivenUp d _ \<Rightarrow> d = c
      | ConnCalled d _ \<Rightarrow> d = c | MessageCalled d _ \<Rightarrow> d = c | WriteCompleteCalled d \<Rightarrow> d = c | CloseCalled d \<Rightarrow> d = c)"

lemmas about_simps [simp] = about_def [of d "Created _" for d, simplified] about_def [of d "Sent _ _" for d, simplified]
  about_def [of d "HalfClosed _" for d, simplified] about_def [of d "Taken _ _" for d, simplified]
  about_def [of d "GivenUp _ _" for d, simplified] about_def [of d "ConnCalled _ _" for d, simplified]
  about_def [of d "MessageCalled _ _" for d, simplified] about_def [of d "WriteCompleteCalled _" for d, simplified]
  about_def [of d "CloseCalled _" for d, simplified]

definition aside :: "conn_id \<Rightarrow> 'z net_world_scheme \<Rightarrow> 'z net_world_scheme \<Rightarrow> bool" where
  "aside c w w' \<longleftrightarrow> conns w' c = conns w c \<and> ch_events (chan_of c w') = ch_events (chan_of c w) \<and>
     (\<exists>es. trace w' = trace w @ es \<and> list_all (\<lambda>e. \<not> about c e) es) \<and> (conn_inv w \<longrightarrow> conn_inv w')"

text \<open>
  What a program sets on a connection: the callback of its codec, the connection callback,
  which is told whether the connection is up, and the close callback of the server or client
  that owns the connection. Its environment is the one both \<^verbatim>\<open>protobuf_server.cc\<close> and
  \<^verbatim>\<open>protobuf_client.cc\<close> set up, with \<^verbatim>\<open>ProtobufCodec::onMessage\<close> as message callback.
\<close>

record ('m, 'z) program =
  app_message :: "('m, user_action list) message_callback"
  app_connection :: "bool \<Rightarrow> conn_id \<Rightarrow> user_action list"
  app_close :: "conn_id \<Rightarrow> 'z net_world_scheme \<Rightarrow> 'z net_world_scheme"

definition codec_env :: "'m proto \<Rightarrow> ('m, 'z) program \<Rightarrow> 'z net_world_scheme conn_env" where
  "codec_env P A = (default_env (app_close A))\<lparr>
     onConnection := (\<lambda>c w. app_connection A (connected c w) c),
     onMessage := (\<lambda>c t w. codec_deliver (app_message A) c t (codec_onMessage P (recvBuffer (conns w c))) @
        [ASetBuffer c (snd (snd (codec_onMessage P (recvBuffer (conns w c)))))])\<rparr>"

lemma query_env_codec:
  "query_env P close = codec_env P \<lparr>app_message = onProtobufMessage GetDescriptor (QueryServer_dispatcher P),
     app_connection = \<lambda>up c. [], app_close = close\<rparr>"
  by (simp add: query_env_def codec_env_def QueryServer_onMessage_def default_env_def)

text \<open>
  A program whose callbacks send well-formed messages on the connection that called them, shut
  this connection down or quit a loop, and whose close callback leaves connections alone.
\<close>

definition says_on :: "'m proto \<Rightarrow> conn_id \<Rightarrow> user_action \<Rightarrow> bool" where
  "says_on P c a \<longleftrightarrow> (\<exists>m. codec_ok P m \<and> a = ASend c (fillEmptyBuffer P m)) \<or> a = AShutdown c \<or> (\<exists>l. a = AQuit l)"

definition civil :: "'m proto \<Rightarrow> ('m, 'z) program \<Rightarrow> bool" where
  "civil P A \<longleftrightarrow>
     (\<forall>c m t as. list_all (says_on P c) as \<longrightarrow> list_all (says_on P c) (app_message A c m t as)) \<and>
     (\<forall>up c. list_all (says_on P c) (app_connection A up c))"

definition speaks :: "'m proto \<Rightarrow> ('m, 'z) program \<Rightarrow> bool" where
  "speaks P A \<longleftrightarrow> civil P A \<and> (\<forall>c w. aside c w (app_close A c w))"

text \<open>
  A program that runs: its world, the bytes that \<^verbatim>\<open>recv\<close> has given it so far, and the messages
  its codec has handed to its callback.
\<close>

record ('m, 'z) party =
  party_world :: "'z net_world_scheme"
  party_heard :: bytes
  party_got :: "'m list"

text \<open>
  What \<^verbatim>\<open>recv\<close> needs to give the end of the stream: the other end has shut its write side
  down and everything sent before that has been heard; or the other end has been told that its
  connection is down, from when on its owner drops the connection, whose last reference closes
  the socket (\<^verbatim>\<open>TCPHandle.cc\<close>), at any time and with whatever not heard.
\<close>

definition before_close :: "conn_id \<Rightarrow> event list \<Rightarrow> event list" where
  "before_close c tr = takeWhile (\<lambda>e. e \<noteq> HalfClosed c) (since c tr)"

definition hung_up :: "conn_id \<Rightarrow> event list \<Rightarrow> bytes \<Rightarrow> bool" where
  "hung_up c tr heard \<longleftrightarrow> ConnCalled c False \<in> set (before_close c tr) \<or>
     (HalfClosed c \<in> set (since c tr) \<and> heard = sent_in c (before_close c tr))"

text \<open>An end that shut its write side down before it was told that the connection is down.\<close>

definition closed_first :: "conn_id \<Rightarrow> event list \<Rightarrow> bool" where
  "closed_first c tr \<longleftrightarrow> HalfClosed c \<in> set (since c tr) \<and> ConnCalled c False \<notin> set (before_close c tr)"

text \<open>
  What a program does with its connection \<open>c\<close>, apart from reading: it makes the connection
  and establishes it, when nothing has happened on it yet, and destroys it when it is not
  connected; it sends a message or shuts down, from its loop or from another thread; the loop
  runs such a task; the socket becomes writable; the kernel settles its next answers; or
  something else happens that leaves the connection alone.
\<close>

definition unused :: "conn_id \<Rightarrow> 'z net_world_scheme \<Rightarrow> bool" where
  "unused c w \<longleftrightarrow> list_all (\<lambda>e. \<not> about c e) (since c (trace w))"

inductive acts :: "'m proto \<Rightarrow> ('m, 'z) program \<Rightarrow> conn_id \<Rightarrow> 'z net_world_scheme \<Rightarrow> 'z net_world_scheme \<Rightarrow> bool"
  for P A c where
  makes: "unused c w \<Longrightarrow> acts P A c w (TCPConnection_ctor c l h name wc w)"
| established: "unused c w \<Longrightarrow> acts P A c w (connectEstablished (codec_env P A) c w)"
| destroyed: "conn_state (conns w c) \<noteq> CONNECTED \<Longrightarrow> acts P A c w (connectDestroyed (codec_env P A) c w)"
| sends: "codec_ok P m \<Longrightarrow> acts P A c w (fold run_action (codec_send P c m) w)"
| sends_task: "codec_ok P m \<Longrightarrow> acts P A c w (sendInLoop c (fillEmptyBuffer P m) w)"
| shuts: "acts P A c w (shutdown c w)"
| shuts_task: "acts P A c w (shutdownInLoop c w)"
| writable: "acts P A c w (handleSend c w)"
| written: "acts P A c w (writeCompleteCallback (codec_env P A) c w)"
| kernel: "acts P A c w (w\<lparr>replies := rs\<rparr>)"
| other: "aside c w w' \<Longrightarrow> acts P A c w w'"

text \<open>
  What one end does, when the other end is connection \<open>d\<close> of a world with trace \<open>tr\<close>: it acts,
  or the socket becomes readable, with some of the bytes that are under way, with an error, or
  with the end of the stream.
\<close>

inductive party_step ::
  "'m proto \<Rightarrow> ('m, 'z) program \<Rightarrow> conn_id \<Rightarrow> conn_id \<Rightarrow> event list \<Rightarrow> ('m, 'z) party \<Rightarrow> ('m, 'z) party \<Rightarrow> bool"
  for P A c d tr where
  does: "acts P A c (party_world p) w \<Longrightarrow> party_step P A c d tr p (p\<lparr>party_world := w\<rparr>)"
| readable: "isRecving (chan_of c (party_world p)) \<Longrightarrow> next_reply (party_world p) = Done n bs \<Longrightarrow>
    bs \<noteq> [] \<Longrightarrow> length bs \<le> recv_size \<Longrightarrow> prefix (party_heard p @ bs) (sent_bytes d tr) \<Longrightarrow>
    party_step P A c d tr p
      \<lparr>party_world = handleRecv (codec_env P A) c t (party_world p),
       party_heard = party_heard p @ bs,
       party_got = party_got p @ fst (codec_onMessage P (recvBuffer (conns (party_world p) c) @ bs))\<rparr>"
| unreadable: "next_reply (party_world p) = Failed e \<Longrightarrow>
    party_step P A c d tr p (p\<lparr>party_world := handleRecv (codec_env P A) c t (party_world p)\<rparr>)"
| ends: "isRecving (chan_of c (party_world p)) \<Longrightarrow> next_reply (party_world p) = Done n [] \<Longrightarrow>
    hung_up d tr (party_heard p) \<Longrightarrow>
    party_step P A c d tr p (p\<lparr>party_world := handleRecv (codec_env P A) c t (party_world p)\<rparr>)"

section \<open>The two ends\<close>

text \<open>What the kernel of one end has taken of its connection.\<close>

abbreviation said_by :: "conn_id \<Rightarrow> ('m, 'z) party \<Rightarrow> bytes" where
  "said_by c p \<equiv> sent_bytes c (trace (party_world p))"

text \<open>The data of the calls of \<^verbatim>\<open>sendInLoop\<close> that were not given up.\<close>

definition sends_of :: "conn_id \<Rightarrow> event list \<Rightarrow> bytes list" where
  "sends_of c es = concat (map (\<lambda>e. case e of Taken d bs \<Rightarrow> if d = c then [bs] else [] | _ \<Rightarrow> []) es)"

definition sends_in :: "conn_id \<Rightarrow> event list \<Rightarrow> bytes list" where
  "sends_in c tr = sends_of c (since c tr)"

lemma sends_of_simps [simp]:
  "sends_of c [] = []" "sends_of c (xs @ ys) = sends_of c xs @ sends_of c ys"
  "sends_of c (e # es) = (case e of Taken d bs \<Rightarrow> if d = c then [bs] else [] | _ \<Rightarrow> []) @ sends_of c es"
  by (simp_all add: sends_of_def)

lemma taken_sends_of: "taken_in c es = concat (sends_of c es)"
  by (induction es) (auto split: event.splits)

lemma taken_sends: "taken_bytes c tr = concat (sends_in c tr)"
  by (simp add: taken_bytes_def sends_in_def taken_sends_of)

inductive link_step ::
  "'m proto \<Rightarrow> ('m, 'y) program \<Rightarrow> ('m, 'z) program \<Rightarrow> conn_id \<Rightarrow> conn_id \<Rightarrow>
   ('m, 'y) party \<times> ('m, 'z) party \<Rightarrow> ('m, 'y) party \<times> ('m, 'z) party \<Rightarrow> bool"
  for P A B c d where
  left: "party_step P A c d (trace (party_world q)) p p' \<Longrightarrow> link_step P A B c d (p, q) (p', q)"
| right: "party_step P B d c (trace (party_world p)) q q' \<Longrightarrow> link_step P A B c d (p, q) (p, q')"

text \<open>Two programs whose connections have carried nothing yet, or are still to be made.\<close>

definition fresh :: "conn_id \<Rightarrow> ('m, 'z) party \<Rightarrow> bool" where
  "fresh c p \<longleftrightarrow> unused c (party_world p) \<and> conn_inv (party_world p) \<and> recvBuffer (conns (party_world p) c) = [] \<and>
     party_heard p = [] \<and> party_got p = []"

definition linked ::
  "'m proto \<Rightarrow> ('m, 'y) program \<Rightarrow> ('m, 'z) program \<Rightarrow> conn_id \<Rightarrow> conn_id \<Rightarrow> ('m, 'y) party \<times> ('m, 'z) party \<Rightarrow> bool" where
  "linked P A B c d pq \<longleftrightarrow> (\<exists>p q. fresh c p \<and> fresh d q \<and> (link_step P A B c d)\<^sup>*\<^sup>* (p, q) pq)"

section \<open>What the operations add to the trace\<close>

definition speech :: "'m proto \<Rightarrow> conn_id \<Rightarrow> event \<Rightarrow> bool" where
  "speech P c e = (case e of Created d \<Rightarrow> d \<noteq> c | ConnCalled d up \<Rightarrow> d \<noteq> c \<or> up
     | Taken d bs \<Rightarrow> d \<noteq> c \<or> (\<exists>m. codec_ok P m \<and> bs = fillEmptyBuffer P m) | _ \<Rightarrow> True)"

text \<open>
  The write side is only shut down behind all data taken, unless the connection was reported
  down before.
\<close>

definition tidy :: "conn_id \<Rightarrow> event list \<Rightarrow> bool" where
  "tidy c tr \<longleftrightarrow> (\<forall>pre post. since c tr = pre @ HalfClosed c # post \<and> ConnCalled c False \<notin> set pre \<longrightarrow>
     sent_in c pre = taken_in c pre)"

lemma tidy_add: "tidy c tr \<Longrightarrow> HalfClosed c \<notin> set es \<Longrightarrow> Created c \<notin> set es \<Longrightarrow> tidy c (tr @ es)"
  by (auto simp: tidy_def append_eq_append_conv2 Cons_eq_append_conv append_eq_Cons_conv)

lemma tidy_close:
  assumes "tidy c tr" "ConnCalled c False \<notin> set (since c tr) \<Longrightarrow> sent_bytes c tr = taken_bytes c tr"
  shows "tidy c (tr @ [HalfClosed c])"
  unfolding tidy_def
proof (intro allI impI)
  fix pre post
  assume *: "since c (tr @ [HalfClosed c]) = pre @ HalfClosed c # post \<and> ConnCalled c False \<notin> set pre"
  show "sent_in c pre = taken_in c pre"
  proof (cases post rule: rev_cases)
    case Nil
    with * assms(2) show ?thesis by (simp add: sent_bytes_def taken_bytes_def)
  next
    case (snoc ys y)
    with * have "since c tr = pre @ HalfClosed c # ys" by (simp flip: append_Cons append_assoc)
    with * assms(1) show ?thesis by (simp add: tidy_def)
  qed
qed

lemma speech_fresh: "list_all (speech P c) es \<Longrightarrow> Created c \<notin> set es \<and> ConnCalled c False \<notin> set es"
  by (auto simp: list_all_iff speech_def)

definition adds :: "'m proto \<Rightarrow> conn_id \<Rightarrow> 'z net_world_scheme \<Rightarrow> 'z net_world_scheme \<Rightarrow> bool" where
  "adds P c w w' \<longleftrightarrow> isRecving (chan_of c w') = isRecving (chan_of c w) \<and>
     (\<exists>es. trace w' = trace w @ es \<and> list_all (speech P c) es) \<and>
     (conn_inv w \<and> tidy c (trace w) \<longrightarrow> conn_inv w' \<and> tidy c (trace w'))"

definition talks :: "'m proto \<Rightarrow> conn_id \<Rightarrow> 'z net_world_scheme \<Rightarrow> 'z net_world_scheme \<Rightarrow> bool" where
  "talks P c w w' \<longleftrightarrow> adds P c w w' \<and> recvBuffer (conns w' c) = recvBuffer (conns w c)"

lemma adds_trans [trans]: "adds P c u v \<Longrightarrow> adds P c v w \<Longrightarrow> adds P c u w"
  by (auto simp: adds_def)

lemma talks_trans [trans]: "talks P c u v \<Longrightarrow> talks P c v w \<Longrightarrow> talks P c u w"
  by (auto simp: talks_def intro: adds_trans)

lemma adds_quiet:
  assumes "isRecving (chan_of c w') = isRecving (chan_of c w)"
    and "trace w' = trace w @ es" "list_all (speech P c) es" "HalfClosed c \<notin> set es" "conn_inv w \<Longrightarrow> conn_inv w'"
  shows "adds P c w w'"
proof -
  have "Created c \<notin> set es" using assms(3) by (auto simp: list_all_iff speech_def)
  with assms tidy_add show ?thesis by (auto simp: adds_def)
qed

lemma talks_quiet:
  assumes "recvBuffer (conns w' c) = recvBuffer (conns w c)" "isRecving (chan_of c w') = isRecving (chan_of c w)"
    and "trace w' = trace w @ es" "list_all (speech P c) es" "HalfClosed c \<notin> set es" "conn_inv w \<Longrightarrow> conn_inv w'"
  shows "talks P c w w'"
  using assms(1) adds_quiet [OF assms(2-6)] by (simp add: talks_def)

lemmas talks_same = talks_quiet [where es = "[]", simplified]

lemma talks_refl [simp]: "talks P c w w"
  by (rule talks_same) simp_all

lemma pushTask_talks: "talks P c w (pushTask l f w)"
  by (rule talks_same) (simp_all add: frame effect)

lemma isRecving_send_ops [simp]:
  "isRecving (chans (enableSend ch w) d) = isRecving (chans w d)"
  "isRecving (chans (disableSend ch w) d) = isRecving (chans w d)"
  "\<not> isRecving (chans (disableAll ch w) ch)"
proof -
  have mask: "(e OR SendEvent) AND RecvEvent = e AND RecvEvent" "(e AND NOT SendEvent) AND RecvEvent = e AND RecvEvent" for e
    by (rule bit_word_eqI; auto simp: event_defs bit_simps)+
  show "isRecving (chans (enableSend ch w) d) = isRecving (chans w d)"
    "isRecving (chans (disableSend ch w) d) = isRecving (chans w d)"
    by (cases "d = ch"; simp add: chan_op_defs effect isRecving_def mask)+
  show "\<not> isRecving (chans (disableAll ch w) ch)"
    by (simp add: chan_op_defs effect isRecving_def NoneEvent_def)
qed

lemma sendInLoop_recving: "isRecving (chan_of c (sendInLoop c data w)) = isRecving (chan_of c w)"
proof (cases "gives_up c data w")
  case True
  then show ?thesis by (simp add: sendInLoop_gives_up)
next
  case False
  define r where "r = sendDirect c data w"
  have "chans (snd (snd r)) = chans w" by (simp add: r_def sendDirect_world)
  then show ?thesis
    by (cases r) (auto simp: sendInLoop_def r_def [symmetric] Let_def)
qed

lemma sendInLoop_talks:
  assumes "codec_ok P m"
  shows "talks P c w (sendInLoop c (fillEmptyBuffer P m) w)"
proof (cases "gives_up c (fillEmptyBuffer P m) w")
  case True
  then show ?thesis
    by (intro talks_quiet [where es = "[GivenUp c (fillEmptyBuffer P m)]"])
      (simp_all add: sendInLoop_gives_up speech_def sendInLoop_keeps)
next
  case False
  note T = sendInLoop_takes [OF False]
  show ?thesis
    by (rule talks_quiet [OF _ sendInLoop_recving T(4)]) (use assms in \<open>auto simp: T(1) speech_def sendInLoop_keeps\<close>)
qed

lemma conn_send_talks: "codec_ok P m \<Longrightarrow> talks P c w (conn_send c (fillEmptyBuffer P m) w)"
  by (simp add: conn_send_def runTask_def sendInLoop_talks pushTask_talks)

lemma all_sent:
  assumes "conn_inv w" "\<not> isSending (chan_of c w)" "\<not> down c w"
  shows "sent_bytes c (trace w) = taken_bytes c (trace w)"
proof -
  have "send_ok c w" by (rule conn_invD [OF assms(1)])
  with assms(2,3) show ?thesis by (auto simp: send_ok_def)
qed

lemma shutdownInLoop_talks: "talks P c w (shutdownInLoop c w)"
proof (cases "isSending (chan_of c w)")
  case True
  then show ?thesis by (intro talks_same) (simp_all add: shutdownInLoop_def Let_def)
next
  case False
  then have "conn_inv w \<Longrightarrow> tidy c (trace w) \<Longrightarrow> tidy c (trace w @ [HalfClosed c])"
    using all_sent [of w c] by (intro tidy_close) (auto simp: down_def)
  with False show ?thesis
    by (auto simp: talks_def adds_def shutdownInLoop_def Let_def speech_def conn_inv_log quiet_def)
qed

lemma shutdown_talks: "talks P c w (shutdown c w)"
proof -
  have "talks P c w (conn_setState DISCONNECTING c w)" by (simp add: talks_same)
  from talks_trans [OF this shutdownInLoop_talks] talks_trans [OF this pushTask_talks] show ?thesis
    by (simp add: shutdown_def runTask_def)
qed

lemma handleSend_talks: "talks P c w (handleSend c w)"
proof -
  define w1 where "w1 = assertInLoopThread (conn_loop (conns w c)) w"
  have w1: "talks P c w w1" by (simp add: w1_def talks_same)
  show ?thesis
  proof (cases "\<exists>n. isSending (chan_of c w1) \<and> handle_send (sendBuffer (conns w1 c)) (next_reply w1) = SysOk n \<and> n > 0")
    case False
    have "talks P c w1 (pop_reply w1)" by (simp add: talks_same)
    with w1 have "talks P c w (pop_reply w1)" by (rule talks_trans)
    with w1 False show ?thesis by (auto simp: handleSend_def w1_def [symmetric] Let_def split: sys_result.split)
  next
    case True
    then obtain n where n: "isSending (chan_of c w1)" "n > 0"
      "handle_send (sendBuffer (conns w1 c)) (next_reply w1) = SysOk n" by blast
    define w2 where "w2 = upd_conn c (\<lambda>m. m\<lparr>sendBuffer := drop n (sendBuffer m)\<rparr>)
                          (log (Sent c (take n (sendBuffer (conns w1 c)))) (pop_reply w1))"
    define w3 where "w3 = (if length (sendBuffer (conns w2 c)) = 0
                         then pushWriteComplete c (disableSend (ConnChan c) w2) else w2)"
    have split: "handleSend c w = (if conn_state (conns w3 c) = DISCONNECTING then shutdownInLoop c w3 else w3)"
      using n unfolding handleSend_def w1_def [symmetric] by (simp add: Let_def w2_def w3_def)
    have "conn_inv w1 \<Longrightarrow> conn_inv w3"
      using handleSend_writes_keeps [OF _ n(1,3)] unfolding w3_def w2_def by blast
    then have "talks P c w1 w3"
      by (intro talks_quiet [where es = "[Sent c (take n (sendBuffer (conns w1 c)))]"]) (simp_all add: w3_def w2_def speech_def)
    with w1 have w3: "talks P c w w3" by (rule talks_trans)
    with talks_trans [OF w3 shutdownInLoop_talks] show ?thesis by (simp add: split)
  qed
qed

lemma quit_talks: "talks P c w (quit_loop l w)"
  by (rule talks_same) (simp_all add: quit_defs Let_def frame)

lemma aside_talks:
  assumes "aside c w w'"
  shows "talks P c w w'"
proof -
  obtain es where es: "trace w' = trace w @ es" "list_all (\<lambda>e. \<not> about c e) es" using assms by (auto simp: aside_def)
  have "list_all (speech P c) es" "HalfClosed c \<notin> set es"
    using es(2) by (auto simp: list_all_iff about_def speech_def split: event.splits)
  with es(1) assms show ?thesis by (intro talks_quiet [where es = es]) (simp_all add: aside_def isRecving_def)
qed

lemma actions_talk: "list_all (says_on P c) as \<Longrightarrow> talks P c w (fold run_action as w)"
proof (induction as arbitrary: w)
  case Nil
  then show ?case by simp
next
  case (Cons a as)
  have "talks P c w (run_action a w)"
    using Cons.prems by (auto simp: says_on_def run_action_def conn_send_talks shutdown_talks quit_talks)
  also have "talks P c (run_action a w) (fold run_action as (run_action a w))" using Cons by simp
  finally show ?case by simp
qed

section \<open>One read\<close>

lemma speaks_deliver:
  assumes "speaks P A"
  shows "list_all (says_on P c) (codec_deliver (app_message A) c t (ms, e, r))"
proof -
  have "list_all (says_on P c) as \<Longrightarrow> list_all (says_on P c) (fold (\<lambda>m. app_message A c m t) ms as)" for as
    using assms by (induction ms arbitrary: as) (auto simp: speaks_def civil_def)
  from this [of "[]"] show ?thesis by (simp add: codec_deliver_def says_on_def split: option.split)
qed

lemma codec_callback:
  fixes w :: "'z net_world_scheme"
  assumes "speaks P A" "codec_onMessage P (recvBuffer (conns w c)) = (ms, e, r)"
  shows "recvBuffer (conns (messageCallback (codec_env P A) c t w) c) = r \<and>
    adds P c w (messageCallback (codec_env P A) c t w) \<and> \<not> unused c (messageCallback (codec_env P A) c t w)"
proof -
  define v where "v = log (MessageCalled c t) w"
  define u where "u = fold run_action (codec_deliver (app_message A) c t (ms, e, r)) v"
  have v: "adds P c w v"
    by (rule adds_quiet [where es = "[MessageCalled c t]"]) (simp_all add: v_def speech_def conn_inv_log quiet_def)
  have said: "talks P c v u" unfolding u_def by (rule actions_talk [OF speaks_deliver [OF assms(1)]])
  then have u: "adds P c w u" using v adds_trans by (auto simp: talks_def)
  have used: "\<not> unused c u"
    using said by (auto simp: v_def talks_def adds_def unused_def about_def dest: speech_fresh)
  have run: "messageCallback (codec_env P A) c t w = upd_conn c (\<lambda>n. n\<lparr>recvBuffer := r\<rparr>) u"
    using assms(2) by (simp add: messageCallback_def Let_def codec_env_def v_def u_def run_action_def)
  have "adds P c u (upd_conn c (\<lambda>n. n\<lparr>recvBuffer := r\<rparr>) u)"
    by (rule adds_quiet [where es = "[]"]) simp_all
  with u have "adds P c w (upd_conn c (\<lambda>n. n\<lparr>recvBuffer := r\<rparr>) u)" by (rule adds_trans)
  then show ?thesis using used unfolding run by (simp add: unused_def)
qed

lemma reply_frame: "next_reply (check b a (assertInLoopThread l w)) = next_reply w"
  by (simp add: next_reply_def)

lemma handleRecv_codec:
  fixes w :: "'z net_world_scheme"
  assumes "speaks P A" "codec_onMessage P (recvBuffer (conns w c) @ bs) = (ms, e, r)"
    and "(\<exists>n. next_reply w = Done n bs \<and> bs \<noteq> [] \<and> length bs \<le> recv_size) \<or>
         (\<exists>x. next_reply w = Failed x \<and> x \<in> {EINTR, EWOULDBLOCK} \<and> bs = [])"
  shows "recvBuffer (conns (handleRecv (codec_env P A) c t w) c) = r \<and>
    adds P c w (handleRecv (codec_env P A) c t w) \<and> \<not> unused c (handleRecv (codec_env P A) c t w)"
proof -
  define v where "v = upd_conn c (\<lambda>n. n\<lparr>recvBuffer := recvBuffer n @ bs\<rparr>)
    (pop_reply (check (isRecving (chan_of c w)) NotRecving (assertInLoopThread (conn_loop (conns w c)) w)))"
  have v: "recvBuffer (conns v c) = recvBuffer (conns w c) @ bs" "adds P c w v"
    using adds_quiet [where es = "[]" and w = w and w' = v] by (simp_all add: v_def)
  have "handleRecv (codec_env P A) c t w = messageCallback (codec_env P A) c t v"
    using assms(3) by (auto simp: handleRecv_def Let_def reply_frame handle_recv_def min_def v_def)
  then show ?thesis
    using codec_callback [OF assms(1), of v c ms e r t] assms(2) v adds_trans [OF v(2)] by simp
qed

lemma handleRecv_fails:
  assumes "next_reply w = Failed x" "x \<notin> {EINTR, EWOULDBLOCK}"
  shows "handleRecv E c t w = pop_reply (check (isRecving (chan_of c w)) NotRecving (assertInLoopThread (conn_loop (conns w c)) w))"
  using assms by (simp add: handleRecv_def Let_def reply_frame handle_recv_def handleError_def)

text \<open>
  The connection callback of an established connection, and the end of the stream, which closes
  the connection and reports it down.
\<close>

definition set_up :: "conn_id \<Rightarrow> 'z net_world_scheme \<Rightarrow> 'z net_world_scheme" where
  "set_up c w = log (ConnCalled c True) (upd_chan (ConnChan c) (tie c) (enableRecv (ConnChan c) (conn_setState CONNECTED c w)))"

lemma set_up_simps:
  "trace (set_up c w) = trace w @ [ConnCalled c True]" "recvBuffer (conns (set_up c w) c) = recvBuffer (conns w c)"
  "conn_inv w \<Longrightarrow> conn_inv (set_up c w)"
  by (simp_all add: set_up_def conn_inv_log quiet_def)

lemma connectEstablished_talks:
  assumes "speaks P A"
  shows "talks P c (set_up c w) (connectEstablished (codec_env P A) c w)"
proof -
  have "connectEstablished (codec_env P A) c w = fold run_action (app_connection A True c) (set_up c w)"
    by (simp add: connectEstablished_def connectionCallback_def codec_env_def Let_def set_up_def connected_def)
  moreover have "list_all (says_on P c) (app_connection A True c)" using assms by (simp add: speaks_def civil_def)
  ultimately show ?thesis by (simp add: actions_talk)
qed

definition set_down :: "conn_id \<Rightarrow> 'z net_world_scheme \<Rightarrow> 'z net_world_scheme" where
  "set_down c w = log (ConnCalled c False) (disableAll (ConnChan c) (conn_setState DISCONNECTED c
    (assertInLoopThread (conn_loop (conns w c)) (pop_reply
      (check (isRecving (chan_of c w)) NotRecving (assertInLoopThread (conn_loop (conns w c)) w))))))"

lemma set_down_simps:
  "trace (set_down c w) = trace w @ [ConnCalled c False]" "recvBuffer (conns (set_down c w) c) = recvBuffer (conns w c)"
  "\<not> isRecving (chan_of c (set_down c w))"
  by (simp_all add: set_down_def)

lemma set_down_keeps: "conn_inv w \<Longrightarrow> conn_inv (set_down c w)"
proof -
  assume inv: "conn_inv w"
  define v where "v = assertInLoopThread (conn_loop (conns w c)) (pop_reply
    (check (isRecving (chan_of c w)) NotRecving (assertInLoopThread (conn_loop (conns w c)) w)))"
  have "conn_inv (connectionCallback (default_env (\<lambda>c w. w)) c (disableAll (ConnChan c) (conn_setState DISCONNECTED c v)))"
    using inv by (intro disconnect_keeps) (simp add: v_def)
  then show ?thesis
    by (simp add: connectionCallback_def default_env_def connected_def Let_def set_down_def v_def)
qed

lemma handleRecv_ends:
  assumes "speaks P A" "next_reply w = Done n []"
  shows "talks P c (set_down c w) (handleRecv (codec_env P A) c t w)"
proof -
  define u where "u = fold run_action (app_connection A False c) (set_down c w)"
  have ended: "handleRecv (codec_env P A) c t w = app_close A c (log (CloseCalled c) u)"
    using assms(2) by (simp add: handleRecv_def Let_def reply_frame handle_recv_def handleClose_def codec_env_def
        default_env_def connectionCallback_def connected_def u_def set_down_def)
  have "talks P c (set_down c w) u"
    using assms(1) unfolding u_def by (intro actions_talk) (simp add: speaks_def civil_def)
  also have "talks P c u (log (CloseCalled c) u)"
    by (rule talks_quiet [where es = "[CloseCalled c]"]) (simp_all add: speech_def conn_inv_log quiet_def)
  also have "talks P c (log (CloseCalled c) u) (app_close A c (log (CloseCalled c) u))"
    using assms(1) by (intro aside_talks) (simp add: speaks_def)
  finally show ?thesis unfolding ended .
qed

text \<open>Destruction, and the callback of a write that is complete.\<close>

lemma connectDestroyed_talks:
  "conn_state (conns w c) \<noteq> CONNECTED \<Longrightarrow> talks P c w (connectDestroyed E c w)"
  by (rule talks_same) (simp_all add: connectDestroyed_def effect isRecving_def)

lemma writeCompleteCallback_talks: "talks P c w (writeCompleteCallback (codec_env P A) c w)"
  by (rule talks_quiet [where es = "[WriteCompleteCalled c]"])
    (simp_all add: writeCompleteCallback_def codec_env_def default_env_def speech_def conn_inv_log quiet_def)

section \<open>The invariant of one end\<close>

text \<open>
  What was sent so far are encoded messages; the codec has handled exactly what was heard; the
  connection is reported down only when the other end, with trace \<open>tr\<close>, has hung up.
\<close>

definition party_ok :: "'m proto \<Rightarrow> conn_id \<Rightarrow> conn_id \<Rightarrow> event list \<Rightarrow> ('m, 'z) party \<Rightarrow> bool" where
  "party_ok P c d tr p \<longleftrightarrow> conn_inv (party_world p) \<and> tidy c (trace (party_world p)) \<and>
     (\<exists>ms. list_all (codec_ok P) ms \<and> sends_in c (trace (party_world p)) = map (fillEmptyBuffer P) ms) \<and>
     codec_onMessage P (party_heard p) = (party_got p, None, recvBuffer (conns (party_world p) c)) \<and>
     prefix (party_heard p) (sent_bytes d tr) \<and>
     (unused c (party_world p) \<longrightarrow> party_heard p = []) \<and>
     (down c (party_world p) \<longrightarrow> hung_up d tr (party_heard p) \<and> \<not> isRecving (chan_of c (party_world p)))"

lemma speech_sends:
  "list_all (speech P c) es \<Longrightarrow> \<exists>ms. list_all (codec_ok P) ms \<and> sends_of c es = map (fillEmptyBuffer P) ms"
proof (induction es)
  case Nil
  then show ?case by (intro exI [of _ "[]"]) simp
next
  case (Cons e es)
  then obtain ms where ms: "list_all (codec_ok P) ms" "sends_of c es = map (fillEmptyBuffer P) ms"
    by auto
  show ?case
  proof (cases "\<exists>m. codec_ok P m \<and> e = Taken c (fillEmptyBuffer P m)")
    case True
    then obtain m where "codec_ok P m" "e = Taken c (fillEmptyBuffer P m)" by blast
    with ms show ?thesis by (intro exI [of _ "m # ms"]) simp
  next
    case False
    with Cons.prems ms show ?thesis by (intro exI [of _ ms]) (auto simp: speech_def split: event.splits)
  qed
qed

text \<open>What the other end may rely on when a trace grows.\<close>

definition grows :: "conn_id \<Rightarrow> event list \<Rightarrow> event list \<Rightarrow> bool" where
  "grows c tr tr' \<longleftrightarrow> prefix (filter (about c) (since c tr)) (filter (about c) (since c tr'))"

lemma grows_trans: "grows c x y \<Longrightarrow> grows c y z \<Longrightarrow> grows c x z"
  unfolding grows_def by (rule prefix_order.trans)

lemma grows_add: "Created c \<notin> set es \<Longrightarrow> grows c tr (tr @ es)"
  by (simp add: grows_def)

lemma about_matters:
  "sent_in c (filter (about c) es) = sent_in c es"
  "sent_in c (takeWhile (\<lambda>e. e \<noteq> HalfClosed c) (filter (about c) es)) = sent_in c (takeWhile (\<lambda>e. e \<noteq> HalfClosed c) es)"
  "HalfClosed c \<in> set (filter (about c) es) \<longleftrightarrow> HalfClosed c \<in> set es"
  "ConnCalled c False \<in> set (takeWhile (\<lambda>e. e \<noteq> HalfClosed c) (filter (about c) es)) \<longleftrightarrow>
     ConnCalled c False \<in> set (takeWhile (\<lambda>e. e \<noteq> HalfClosed c) es)"
  by (induction es) (auto simp: about_def split: event.split)

lemma grows_heard:
  assumes "grows c tr tr'"
  shows "prefix (sent_bytes c tr) (sent_bytes c tr')" "hung_up c tr h \<Longrightarrow> hung_up c tr' h"
    "closed_first c tr \<Longrightarrow> closed_first c tr'"
proof -
  obtain es where es: "filter (about c) (since c tr') = filter (about c) (since c tr) @ es"
    using assms by (auto simp: grows_def prefix_def)
  have "sent_in c (since c tr') = sent_in c (since c tr) @ sent_in c es"
    using about_matters(1) [of c "since c tr'"] about_matters(1) [of c "since c tr"] by (simp add: es)
  then show "prefix (sent_bytes c tr) (sent_bytes c tr')" by (simp add: sent_bytes_def)
  let ?cut = "takeWhile (\<lambda>e. e \<noteq> HalfClosed c)"
  note matters = about_matters [of c "since c tr"] about_matters [of c "since c tr'"]
  have half: "HalfClosed c \<in> set (since c tr')" "?cut (filter (about c) (since c tr')) = ?cut (filter (about c) (since c tr))"
    if "HalfClosed c \<in> set (since c tr)"
  proof -
    from that have "HalfClosed c \<in> set (filter (about c) (since c tr))" unfolding about_matters .
    moreover from this have "?cut (filter (about c) (since c tr) @ es) = ?cut (filter (about c) (since c tr))"
      by (rule takeWhile_append1) simp
    ultimately show "HalfClosed c \<in> set (since c tr')" "?cut (filter (about c) (since c tr')) = ?cut (filter (about c) (since c tr))"
      using matters(7) by (auto simp: es)
  qed
  have told: "ConnCalled c False \<in> set (before_close c tr')" if "ConnCalled c False \<in> set (before_close c tr)"
  proof -
    have "ConnCalled c False \<in> set (?cut (filter (about c) (since c tr)))" using that matters(4) by (simp add: before_close_def)
    then have "ConnCalled c False \<in> set (?cut (filter (about c) (since c tr')))"
      unfolding es by (auto simp: takeWhile_append dest: set_takeWhileD)
    with matters(8) show ?thesis by (simp add: before_close_def)
  qed
  have same: "sent_in c (before_close c tr') = sent_in c (before_close c tr)"
      "ConnCalled c False \<in> set (before_close c tr') \<longleftrightarrow> ConnCalled c False \<in> set (before_close c tr)"
    if "HalfClosed c \<in> set (since c tr)"
    using half(2) [OF that] matters(2,4,6,8) by (simp_all add: before_close_def)
  show "hung_up c tr h \<Longrightarrow> hung_up c tr' h" using half(1) told same(1) by (auto simp: hung_up_def)
  show "closed_first c tr \<Longrightarrow> closed_first c tr'" using half(1) same(2) by (auto simp: closed_first_def)
qed

text \<open>A connection that is unused has sent nothing, and is not reported down.\<close>

lemma unused_nothing:
  assumes "unused c w"
  shows "sends_in c (trace w) = []" "sent_bytes c (trace w) = []" "\<not> down c w" "tidy c (trace w)"
    "filter (about c) (since c (trace w)) = []"
proof -
  have none: "sends_of c es = []" "sent_in c es = []" if "list_all (\<lambda>e. \<not> about c e) es" for es
    using that by (induction es) (auto simp: about_def split: event.splits)
  show "sends_in c (trace w) = []" "sent_bytes c (trace w) = []"
    using assms none by (simp_all add: unused_def sends_in_def sent_bytes_def)
  show "filter (about c) (since c (trace w)) = []"
    using assms by (simp add: unused_def filter_empty_conv list_all_iff)
  show "\<not> down c w" using assms by (auto simp: unused_def down_def list_all_iff about_def)
  show "tidy c (trace w)" using assms by (auto simp: unused_def tidy_def about_def list_all_iff)
qed

lemma party_ok_grows: "party_ok P c d tr p \<Longrightarrow> grows d tr tr' \<Longrightarrow> party_ok P c d tr' p"
  by (auto simp: party_ok_def grows_heard intro: prefix_order.trans grows_heard)

lemma adds_keeps:
  assumes ok: "party_ok P c d tr p" and adds: "adds P c (party_world p) w"
    and run: "codec_onMessage P h = (g, None, recvBuffer (conns w c))"
    and h: "prefix h (sent_bytes d tr)" "down c (party_world p) \<Longrightarrow> h = party_heard p" "unused c w \<Longrightarrow> h = party_heard p"
  shows "party_ok P c d tr \<lparr>party_world = w, party_heard = h, party_got = g\<rparr> \<and>
    grows c (trace (party_world p)) (trace w)"
proof -
  obtain es where es: "trace w = trace (party_world p) @ es" "list_all (speech P c) es"
    using adds by (auto simp: adds_def)
  note new = speech_fresh [OF es(2)]
  obtain ms where "list_all (codec_ok P) ms" "sends_in c (trace (party_world p)) = map (fillEmptyBuffer P) ms"
    using ok by (auto simp: party_ok_def)
  moreover obtain ms' where "list_all (codec_ok P) ms'" "sends_of c es = map (fillEmptyBuffer P) ms'"
    using speech_sends [OF es(2)] by blast
  ultimately have "\<exists>ms. list_all (codec_ok P) ms \<and> sends_in c (trace w) = map (fillEmptyBuffer P) ms"
    using new by (intro exI [of _ "ms @ ms'"]) (simp add: sends_in_def es(1))
  moreover have "down c w = down c (party_world p)" using new by (simp add: down_def es(1))
  moreover have "unused c w \<Longrightarrow> unused c (party_world p)" using new by (simp add: unused_def es(1))
  moreover have "grows c (trace (party_world p)) (trace w)" using new es(1) by (simp add: grows_add)
  ultimately show ?thesis using ok adds run h by (auto simp: party_ok_def adds_def)
qed

lemma talks_keeps:
  assumes "party_ok P c d tr p" "talks P c (party_world p) w"
  shows "party_ok P c d tr (p\<lparr>party_world := w\<rparr>) \<and> grows c (trace (party_world p)) (trace w)"
proof -
  have "adds P c (party_world p) w" "codec_onMessage P (party_heard p) = (party_got p, None, recvBuffer (conns w c))"
    "prefix (party_heard p) (sent_bytes d tr)"
    using assms by (simp_all add: talks_def party_ok_def)
  from adds_keeps [OF assms(1) this] show ?thesis by (cases p) simp
qed

section \<open>The two ends together\<close>

text \<open>A part of the stream never confuses the codec, and gives the first of its messages.\<close>

lemma codec_of_part:
  assumes "list_all (codec_ok P) ms" "prefix h (concat (map (fillEmptyBuffer P) ms))"
    and "codec_onMessage P h = (got, e, r)"
  shows "e = None \<and> (\<exists>later. ms = got @ later \<and> (h = concat (map (fillEmptyBuffer P) ms) \<longrightarrow> later = []))"
proof -
  obtain x where x: "concat (map (fillEmptyBuffer P) ms) = h @ x" using assms(2) by (auto simp: prefix_def)
  have "codec_front P [] = Incomplete"
    by (simp add: codec_front_def kMinMessageLen_def kHeaderLen_def Let_def)
  with codec.run_encoded [OF assms(1), of "[]"] have all: "codec_onMessage P (h @ x) = (ms, None, [])"
    by (simp add: x)
  with codec.run_more [of P h x] assms(3) have "e = None \<and> (\<exists>later. ms = got @ later)"
    by (cases e) (auto split: prod.splits)
  moreover have "got = ms" if "x = []" using all assms(3) that by simp
  ultimately show ?thesis using x by auto
qed

lemma codec_idle: "codec_onMessage P [] = ([], None, [])"
  by (subst codec_onMessage.simps) (simp add: kMinMessageLen_def kHeaderLen_def)

lemma said_of_party:
  assumes "party_ok P c d tr p"
  shows "\<exists>ms. list_all (codec_ok P) ms \<and> sends_in c (trace (party_world p)) = map (fillEmptyBuffer P) ms \<and>
    said_by c p @ sendBuffer (conns (party_world p) c) = concat (map (fillEmptyBuffer P) ms)"
proof -
  have "send_ok c (party_world p)" using assms by (auto simp: party_ok_def conn_inv_def)
  then show ?thesis using assms taken_sends [of c "trace (party_world p)"]
    by (auto simp: send_ok_def party_ok_def)
qed

lemma said_prefix:
  assumes "party_ok P c d tr p"
  obtains ms where "list_all (codec_ok P) ms" "prefix (said_by c p) (concat (map (fillEmptyBuffer P) ms))"
  using said_of_party [OF assms] by (metis prefixI)

lemma acts_keeps:
  assumes "acts P A c w w'" and p: "party_world p = w" and ok: "party_ok P c d tr p" and speaks: "speaks P A"
  shows "party_ok P c d tr (p\<lparr>party_world := w'\<rparr>) \<and> grows c (trace w) (trace w')"
proof -
  have inv: "conn_inv w" using ok p by (simp add: party_ok_def)
  have same: ?thesis if "talks P c w w'"
    using talks_keeps [OF ok] that by (simp add: p)
  show ?thesis
    using assms(1)
  proof cases
    case (makes l h name wc)
    have v: "since c (trace w') = []" "recvBuffer (conns w' c) = []" "conn_inv w'"
      using ctor_keeps [OF inv] makes(1) by (simp_all add: TCPConnection_ctor_def)
    then have "unused c w'" by (simp add: unused_def)
    then show ?thesis
      using ok makes(2) p v(2,3) unused_nothing [of c w'] unused_nothing [of c w]
      by (auto simp: party_ok_def grows_def codec_idle)
  next
    case established
    have up: "party_ok P c d tr (p\<lparr>party_world := set_up c w\<rparr>)" "grows c (trace w) (trace (set_up c w))"
      using ok established(2) set_up_simps(3) [OF inv] p unused_nothing [OF established(2)]
        tidy_add [of c "trace w" "[ConnCalled c True]"]
      by (auto simp: party_ok_def unused_def set_up_simps sends_in_def down_def about_def intro!: grows_add)
    from talks_keeps [OF up(1)] connectEstablished_talks [OF speaks, of c w] grows_trans [OF up(2)]
    show ?thesis by (simp add: established(1))
  next
    case destroyed
    show ?thesis unfolding destroyed(1) by (rule same [unfolded destroyed(1), OF connectDestroyed_talks [OF destroyed(2)]])
  next
    case (sends m)
    have "talks P c w w'" unfolding sends(1) using sends(2) by (simp add: codec_send_def run_action_def conn_send_talks)
    then show ?thesis by (rule same)
  next
    case (kernel rs)
    have "conn_inv w' = conn_inv w" unfolding kernel by (rule conn_inv_cong) simp_all
    then have "talks P c w w'" unfolding kernel by (intro talks_same) simp_all
    then show ?thesis by (rule same)
  qed (use same in \<open>auto simp: sendInLoop_talks shutdown_talks shutdownInLoop_talks handleSend_talks
      writeCompleteCallback_talks aside_talks\<close>)
qed

lemma party_step_keeps:
  assumes "party_step P A c d tr p p'" and ok: "party_ok P c d tr p" and speaks: "speaks P A"
    and said: "list_all (codec_ok P) ms" "prefix (sent_bytes d tr) (concat (map (fillEmptyBuffer P) ms))"
  shows "party_ok P c d tr p' \<and> grows c (trace (party_world p)) (trace (party_world p'))"
proof -
  let ?w = "party_world p" and ?E = "codec_env P A"
  have inv: "conn_inv ?w" and run: "codec_onMessage P (party_heard p) = (party_got p, None, recvBuffer (conns ?w c))"
    using ok by (simp_all add: party_ok_def)
  have same: ?thesis if "p' = p\<lparr>party_world := w\<rparr>" "talks P c ?w w" for w
    using talks_keeps [OF ok that(2)] by (simp add: that(1))
  show ?thesis
    using assms(1)
  proof cases
    case (does w)
    show ?thesis using acts_keeps [OF does(2) refl ok speaks] by (simp add: does(1))
  next
    case (readable n bs t)
    obtain ms1 e r where out: "codec_onMessage P (recvBuffer (conns ?w c) @ bs) = (ms1, e, r)"
      by (cases "codec_onMessage P (recvBuffer (conns ?w c) @ bs)")
    have all: "codec_onMessage P (party_heard p @ bs) = (party_got p @ ms1, e, r)"
      using codec.run_more [of P "party_heard p" bs] by (simp add: run out)
    then have none: "e = None"
      using codec_of_part [OF said(1) prefix_order.trans [OF readable(6) said(2)]] by blast
    have "\<exists>n. next_reply ?w = Done n bs \<and> bs \<noteq> [] \<and> length bs \<le> recv_size" using readable by blast
    from handleRecv_codec [OF speaks out disjI1 [OF this], of t]
    have w': "recvBuffer (conns (handleRecv ?E c t ?w) c) = r" "adds P c ?w (handleRecv ?E c t ?w)"
      "\<not> unused c (handleRecv ?E c t ?w)" by simp_all
    have "codec_onMessage P (party_heard p @ bs) = (party_got p @ ms1, None, recvBuffer (conns (handleRecv ?E c t ?w) c))"
      using all none w'(1) by simp
    moreover have "\<not> down c ?w" using ok readable(2) by (auto simp: party_ok_def)
    ultimately show ?thesis
      using adds_keeps [OF ok w'(2) _ readable(6)] w'(3) by (simp add: readable(1) out)
  next
    case (unreadable x t)
    show ?thesis
    proof (cases "x \<in> {EINTR, EWOULDBLOCK}")
      case False
      show ?thesis
        using handleRecv_fails [OF unreadable(2) False] by (intro same [OF unreadable(1)] talks_same) simp_all
    next
      case True
      have "codec_onMessage P (recvBuffer (conns ?w c) @ []) = ([], None, recvBuffer (conns ?w c))"
        using codec.run_idle [OF run] by simp
      from handleRecv_codec [OF speaks this, of t] True unreadable(2)
      show ?thesis by (intro same [OF unreadable(1)]) (auto simp: talks_def)
    qed
  next
    case (ends n t)
    have down: "party_ok P c d tr (p\<lparr>party_world := set_down c ?w\<rparr>)" "grows c (trace ?w) (trace (set_down c ?w))"
      using ok ends(4) tidy_add [of c "trace ?w" "[ConnCalled c False]"] set_down_keeps [OF inv]
      by (auto simp: party_ok_def set_down_simps sends_in_def unused_def about_def intro!: grows_add)
    from talks_keeps [OF down(1)] handleRecv_ends [OF speaks ends(3), of c t] grows_trans [OF down(2)]
    show ?thesis by (simp add: ends(1))
  qed
qed

text \<open>An end is down only when one of the two has shut its side down, and not because it was told.\<close>

definition link_ok :: "'m proto \<Rightarrow> conn_id \<Rightarrow> conn_id \<Rightarrow> ('m, 'y) party \<times> ('m, 'z) party \<Rightarrow> bool" where
  "link_ok P c d pq \<longleftrightarrow> party_ok P c d (trace (party_world (snd pq))) (fst pq) \<and>
     party_ok P d c (trace (party_world (fst pq))) (snd pq) \<and>
     (down c (party_world (fst pq)) \<or> down d (party_world (snd pq)) \<longrightarrow>
        closed_first c (trace (party_world (fst pq))) \<or> closed_first d (trace (party_world (snd pq))))"

lemma link_ok_turned: "link_ok P c d (p, q) \<longleftrightarrow> link_ok P d c (q, p)"
  by (auto simp: link_ok_def)

lemma hung_up_told: "hung_up c (trace w) h \<Longrightarrow> down c w \<or> closed_first c (trace w)"
  by (auto simp: hung_up_def down_def closed_first_def before_close_def dest: set_takeWhileD)

lemma party_step_among:
  assumes "party_step P A c d (trace (party_world q)) p p'" "speaks P A" "link_ok P c d (p, q)"
  shows "link_ok P c d (p', q)"
proof -
  have ok: "party_ok P c d (trace (party_world q)) p" "party_ok P d c (trace (party_world p)) q"
    using assms(3) by (simp_all add: link_ok_def)
  obtain ms where "list_all (codec_ok P) ms" "prefix (said_by d q) (concat (map (fillEmptyBuffer P) ms))"
    using said_prefix [OF ok(2)] .
  from party_step_keeps [OF assms(1) ok(1) assms(2) this]
  have p': "party_ok P c d (trace (party_world q)) p'" and grown: "grows c (trace (party_world p)) (trace (party_world p'))"
    by blast+
  have "down c (party_world p') \<Longrightarrow> down d (party_world q) \<or> closed_first d (trace (party_world q))"
    using p' hung_up_told by (auto simp: party_ok_def)
  with assms(3) p' party_ok_grows [OF ok(2) grown] grows_heard(3) [OF grown] show ?thesis
    by (auto simp: link_ok_def)
qed

lemma link_step_keeps:
  "link_step P A B c d pq pq' \<Longrightarrow> speaks P A \<Longrightarrow> speaks P B \<Longrightarrow> link_ok P c d pq \<Longrightarrow> link_ok P c d pq'"
  by (erule link_step.cases) (auto dest: party_step_among simp: link_ok_turned [of P c d])

lemma fresh_ok: "fresh c p \<Longrightarrow> party_ok P c d tr p"
  using unused_nothing [of c "party_world p"] by (auto simp: fresh_def party_ok_def codec_idle intro: exI [of _ "[]"])

lemma linked_ok:
  assumes "linked P A B c d pq" "speaks P A" "speaks P B"
  shows "link_ok P c d pq"
proof -
  obtain p q where pq: "fresh c p" "fresh d q" "(link_step P A B c d)\<^sup>*\<^sup>* (p, q) pq"
    using assms(1) by (auto simp: linked_def)
  have "link_ok P c d (p, q)"
    using pq(1,2) unused_nothing(3) [of c "party_world p"] unused_nothing(3) [of d "party_world q"]
      fresh_ok [OF pq(1)] fresh_ok [OF pq(2)]
    by (auto simp: link_ok_def fresh_def)
  with pq(3) show ?thesis by (induction rule: rtranclp_induct) (auto intro: link_step_keeps assms(2,3))
qed

lemma heard_of_said:
  assumes "party_ok P c d tr p" "party_ok P d c (trace (party_world p)) q"
  shows "\<exists>later. list_all (codec_ok P) (party_got q @ later) \<and>
    sends_in c (trace (party_world p)) = map (fillEmptyBuffer P) (party_got q @ later) \<and>
    (sendBuffer (conns (party_world p) c) = [] \<and> party_heard q = said_by c p \<longrightarrow> later = [])"
proof -
  obtain ms where ms: "list_all (codec_ok P) ms" "sends_in c (trace (party_world p)) = map (fillEmptyBuffer P) ms"
    "said_by c p @ sendBuffer (conns (party_world p) c) = concat (map (fillEmptyBuffer P) ms)"
    using said_of_party [OF assms(1)] by blast
  have heard: "prefix (party_heard q) (said_by c p)"
    "codec_onMessage P (party_heard q) = (party_got q, None, recvBuffer (conns (party_world q) d))"
    using assms(2) by (simp_all add: party_ok_def)
  then have "prefix (party_heard q) (concat (map (fillEmptyBuffer P) ms))"
    using ms(3) by (metis append_assoc prefix_def)
  from codec_of_part [OF ms(1) this heard(2)] obtain later where "ms = party_got q @ later"
    "party_heard q = concat (map (fillEmptyBuffer P) ms) \<longrightarrow> later = []"
    by blast
  then show ?thesis using ms by (intro exI [of _ later]) (auto simp del: map_append)
qed

text \<open>Everything sent up to the end of the stream has been handed over when the end is reported.\<close>

lemma heard_at_end:
  assumes "party_ok P c d tr p" "party_ok P d c (trace (party_world p)) q" "down d (party_world q)"
    and "ConnCalled c False \<notin> set (before_close c (trace (party_world p)))"
  shows "HalfClosed c \<in> set (since c (trace (party_world p)))"
    "sends_of c (before_close c (trace (party_world p))) = map (fillEmptyBuffer P) (party_got q)"
proof -
  define pre where "pre = before_close c (trace (party_world p))"
  have heard: "party_heard q = sent_in c pre" "HalfClosed c \<in> set (since c (trace (party_world p)))"
    "codec_onMessage P (party_heard q) = (party_got q, None, recvBuffer (conns (party_world q) d))"
    using assms(2-4) unfolding party_ok_def hung_up_def pre_def by blast+
  from heard(2) show "HalfClosed c \<in> set (since c (trace (party_world p)))" .
  obtain post where split: "since c (trace (party_world p)) = pre @ HalfClosed c # post"
    using split_list_first [OF heard(2)] by (force simp: pre_def before_close_def takeWhile_append)
  then have all: "party_heard q = concat (sends_of c pre)"
    using assms(1,4) heard(1) by (simp add: party_ok_def tidy_def pre_def taken_sends_of)
  obtain ms where ms: "list_all (codec_ok P) ms" "sends_of c pre @ sends_of c post = map (fillEmptyBuffer P) ms"
    using assms(1) by (auto simp: party_ok_def sends_in_def split)
  then obtain ms1 ms2 where ms1: "ms = ms1 @ ms2" "sends_of c pre = map (fillEmptyBuffer P) ms1"
    by (auto simp: append_eq_map_conv)
  have "ms1 = party_got q"
    using codec_of_part [of P ms1 "party_heard q"] ms(1) ms1 all heard(3) by auto
  with ms1(2) show "sends_of c (before_close c (trace (party_world p))) = map (fillEmptyBuffer P) (party_got q)"
    by (simp add: pre_def)
qed

end
