(* ===== verification/EndToEnd.thy ===== *)
theory EndToEnd
  imports Link
begin

text \<open>
  What two linked programs can rely on: every message taken for sending is handed over once and
  in order, and a graceful end loses nothing. The query client and server are such programs.
\<close>

section \<open>What two linked programs can rely on\<close>

text \<open>
  Two programs that speak the codec, end to end: whatever the programs send and when, from
  the loop or from their message callbacks, whatever the two kernels answer to \<^verbatim>\<open>send\<close> and
  \<^verbatim>\<open>recv\<close>, and however the bytes are cut on the way, the messages handed to the callback at
  either end are, in order, the first of the messages the other end's \<^verbatim>\<open>sendInLoop\<close> has
  taken, each once and unchanged; and they are all of them when the sender has nothing
  buffered and nothing is under way.
\<close>

theorem codec_end_to_end:
  assumes "linked P A B c d (p, q)" "speaks P A" "speaks P B"
  shows "\<exists>later back.
    sends_in c (trace (party_world p)) = map (fillEmptyBuffer P) (party_got q @ later) \<and>
    sends_in d (trace (party_world q)) = map (fillEmptyBuffer P) (party_got p @ back) \<and>
    (sendBuffer (conns (party_world p) c) = [] \<and> party_heard q = said_by c p \<longrightarrow> later = []) \<and>
    (sendBuffer (conns (party_world q) d) = [] \<and> party_heard p = said_by d q \<longrightarrow> back = [])"
proof -
  have ok: "party_ok P c d (trace (party_world q)) p" "party_ok P d c (trace (party_world p)) q"
    using linked_ok [OF assms] by (simp_all add: link_ok_def)
  from heard_of_said [OF ok] heard_of_said [OF ok(2,1)] show ?thesis by blast
qed

text \<open>
  A graceful end loses nothing: when a connection is reported down to a program, then either
  the other end had been told before that its connection is down, and may have closed its
  socket; or the other end has shut its write side down, and the program's callback has been
  handed every message that the other end's \<^verbatim>\<open>sendInLoop\<close> had taken before that, in order, each
  once and unchanged, whether they were sent at once or waited in the send buffer. And no end is
  ever reported down unless one of the two has shut its side down before it was told itself.
\<close>

theorem graceful_end:
  assumes "linked P A B c d (p, q)" "speaks P A" "speaks P B" "down d (party_world q)"
  shows "let said = before_close c (trace (party_world p)) in
    (closed_first c (trace (party_world p)) \<or> closed_first d (trace (party_world q))) \<and>
    (ConnCalled c False \<in> set said \<or>
     HalfClosed c \<in> set (since c (trace (party_world p))) \<and> sends_of c said = map (fillEmptyBuffer P) (party_got q))"
proof -
  have ok: "link_ok P c d (p, q)" using linked_ok [OF assms(1-3)] .
  then have "party_ok P c d (trace (party_world q)) p" "party_ok P d c (trace (party_world p)) q"
    by (simp_all add: link_ok_def)
  from heard_at_end [OF this assms(4)] ok assms(4) show ?thesis
    by (auto simp: Let_def link_ok_def)
qed

section \<open>A run of the query client and server\<close>

definition query_server_app ::
  "query_msg proto \<Rightarrow> (conn_id \<Rightarrow> 'z net_world_scheme \<Rightarrow> 'z net_world_scheme) \<Rightarrow> (query_msg, 'z) program" where
  "query_server_app P close = \<lparr>app_message = onProtobufMessage GetDescriptor (QueryServer_dispatcher P),
     app_connection = \<lambda>up c. [], app_close = close\<rparr>"

definition query_client_app ::
  "query_msg proto \<Rightarrow> query_msg \<Rightarrow> loop_id \<Rightarrow> (conn_id \<Rightarrow> 'z net_world_scheme \<Rightarrow> 'z net_world_scheme) \<Rightarrow>
   (query_msg, 'z) program" where
  "query_client_app P messageToSend l close = \<lparr>app_message = \<lambda>c m t as. as,
     app_connection = QueryClient_onConnection P messageToSend l, app_close = close\<rparr>"

lemma query_civil:
  assumes "codec_ok P (AnswerMsg the_answer)"
  shows "civil P (query_server_app P close)"
  using assms by (auto simp: civil_def query_server_app_def server_dispatch reply_def says_on_def split: query_msg.split)

lemma client_civil:
  assumes "codec_ok P m"
  shows "civil P (query_client_app P m l close)"
  using assms by (auto simp: civil_def query_client_app_def QueryClient_onConnection_def codec_send_def says_on_def)

lemma server_speaks:
  assumes "codec_ok P (AnswerMsg the_answer)" "\<And>c w. aside c w (close c w)"
  shows "speaks P (query_server_app P close)"
  using query_civil [OF assms(1), of close] assms(2) by (simp add: speaks_def) (simp add: query_server_app_def)

lemma client_speaks:
  assumes "codec_ok P m" "\<And>c w. aside c w (close c w)"
  shows "speaks P (query_client_app P m l close)"
  using client_civil [OF assms(1), of l close] assms(2) by (simp add: speaks_def) (simp add: query_client_app_def)

lemma aside_refl [simp]: "aside c w w"
  by (simp add: aside_def)

abbreviation server_app :: "(query_msg, unit) program" where
  "server_app \<equiv> query_server_app query_proto (\<lambda>c w. w)"

abbreviation client_app :: "(query_msg, unit) program" where
  "client_app \<equiv> query_client_app query_proto (QueryMsg client_query) 0 (\<lambda>c w. w)"

abbreviation query_bytes :: bytes where
  "query_bytes \<equiv> fillEmptyBuffer query_proto (QueryMsg client_query)"

text \<open>
  The client sends its query and shuts down; the server reads the query in one piece, answers,
  and reads the end of the stream.
\<close>

abbreviation at_start :: "reply list \<Rightarrow> (query_msg, unit) party" where
  "at_start rs \<equiv> \<lparr>party_world = enableRecv (ConnChan 5) (open_conn rs), party_heard = [], party_got = []\<rparr>"

definition run_client :: "(query_msg, unit) party" where
  "run_client = \<lparr>party_world = shutdownInLoop 5 (sendInLoop 5 query_bytes (enableRecv (ConnChan 5) (open_conn [Done 25 []]))),
     party_heard = [], party_got = []\<rparr>"

definition run_server :: "(query_msg, unit) party" where
  "run_server = \<lparr>party_world = handleRecv (codec_env query_proto server_app) 5 0
       (enableRecv (ConnChan 5) (open_conn [Done 7 query_bytes, Done 4 []])),
     party_heard = query_bytes, party_got = [QueryMsg client_query]\<rparr>"

definition run_server_end :: "(query_msg, unit) party" where
  "run_server_end = run_server\<lparr>party_world := handleRecv (codec_env query_proto server_app) 5 0
     ((party_world run_server)\<lparr>replies := [Done 2 []]\<rparr>)\<rparr>"

lemma length_query: "length query_bytes = 25"
  by (simp add: fillEmptyBuffer_frame length_frame_body query_proto_def query_type_def)

lemma fresh_start: "fresh 5 (at_start rs)"
  by (simp add: fresh_def unused_def open_conn_def conn_inv_boot) (simp add: boot_net_def)

lemma run_client_facts:
  "since 5 (trace (party_world run_client)) = [Sent 5 query_bytes, Taken 5 query_bytes, HalfClosed 5]"
  "sendBuffer (conns (party_world run_client) 5) = []"
proof -
  let ?w = "enableRecv (ConnChan 5) (open_conn [Done 25 []])"
  have off: "\<not> isSending (chan_of 5 ?w)"
    by simp (simp add: open_conn_def boot_net_def Channel_ctor_def isSending_def NoneEvent_def)
  have w: "direct 5 ?w" "next_reply ?w = Done 25 []" "trace ?w = []" "sendBuffer (conns ?w 5) = []"
    using off by (simp_all add: direct_def open_conn_def boot_net_def next_reply_def)
  then have goes: "\<not> gives_up 5 query_bytes ?w" by (simp add: gives_up_def open_conn_def)
  have n: "sent_now 5 query_bytes ?w = 25" using w length_query by (simp add: sent_now_def)
  note T = sendInLoop_takes [OF goes, unfolded n]
  show "since 5 (trace (party_world run_client)) = [Sent 5 query_bytes, Taken 5 query_bytes, HalfClosed 5]"
    "sendBuffer (conns (party_world run_client) 5) = []"
    unfolding run_client_def using w off length_query
    by (simp_all add: shutdownInLoop_def Let_def T since_def)
qed

lemma run_client_said: "said_by 5 run_client = query_bytes"
  by (simp add: sent_bytes_def run_client_facts)

lemma query_handed_over: "fst (codec_onMessage query_proto query_bytes) = [QueryMsg client_query]"
  using codec.run_encoded [of query_proto "[QueryMsg client_query]" "[]"] query_proto_ok
  by (simp add: codec_front_def kMinMessageLen_def kHeaderLen_def Let_def)

abbreviation run_steps :: "(query_msg, unit) party \<times> (query_msg, unit) party \<Rightarrow> (query_msg, unit) party \<times> (query_msg, unit) party \<Rightarrow> bool" where
  "run_steps \<equiv> (link_step query_proto client_app server_app 5 5)\<^sup>*\<^sup>*"

lemma run_to_query:
  "run_steps (at_start [Done 25 []], at_start [Done 7 query_bytes, Done 4 []]) (run_client, run_server)"
proof -
  let ?rs = "[Done 7 query_bytes, Done 4 []]"
  have "run_steps (at_start [Done 25 []], at_start ?rs) (run_client, at_start ?rs)"
  proof (rule converse_rtranclp_into_rtranclp)
    let ?p = "(at_start [Done 25 []])\<lparr>party_world := sendInLoop 5 query_bytes (party_world (at_start [Done 25 []]))\<rparr>"
    show "link_step query_proto client_app server_app 5 5 (at_start [Done 25 []], at_start ?rs) (?p, at_start ?rs)"
      by (intro link_step.left party_step.does acts.sends_task query_proto_ok)
    have "run_client = ?p\<lparr>party_world := shutdownInLoop 5 (party_world ?p)\<rparr>" by (simp add: run_client_def)
    then have "link_step query_proto client_app server_app 5 5 (?p, at_start ?rs) (run_client, at_start ?rs)"
      using link_step.left [OF party_step.does [OF acts.shuts_task]] by metis
    then show "run_steps (?p, at_start ?rs) (run_client, at_start ?rs)" by (rule r_into_rtranclp)
  qed
  also have "run_steps (run_client, at_start ?rs) (run_client, run_server)"
  proof (intro r_into_rtranclp link_step.right)
    let ?w = "party_world (at_start ?rs)"
    have "isRecving (chan_of 5 ?w)"
      by (simp add: enableRecv_def effect isRecving_def Channel_ctor_def open_conn_def boot_net_def event_defs)
    moreover have "next_reply ?w = Done 7 query_bytes" "query_bytes \<noteq> []" "length query_bytes \<le> recv_size"
      using length_query by (auto simp: recv_size_def open_conn_def boot_net_def next_reply_def)
    moreover have "recvBuffer (conns ?w 5) = []" by (simp add: open_conn_def boot_net_def)
    ultimately show "party_step query_proto server_app 5 5 (trace (party_world run_client)) (at_start ?rs) run_server"
      using party_step.readable [of "at_start ?rs" 5 7 query_bytes 5 "trace (party_world run_client)" query_proto server_app 0]
      by (simp add: run_client_said query_handed_over run_server_def)
  qed
  finally show ?thesis .
qed

lemma run_linked:
  assumes "run_steps (at_start [Done 25 []], at_start [Done 7 query_bytes, Done 4 []]) pq"
  shows "linked query_proto client_app server_app 5 5 pq"
  using assms unfolding linked_def by (metis fresh_start)

theorem codec_end_to_end_witness:
  "sends_in 5 (trace (party_world run_client)) = map (fillEmptyBuffer query_proto) (party_got run_server)"
proof -
  have "speaks query_proto client_app" by (rule client_speaks) (simp_all add: query_proto_ok)
  from codec_end_to_end [OF run_linked [OF run_to_query] this server_speaks [OF query_proto_ok(2) aside_refl]] run_client_facts run_client_said
  show ?thesis by (auto simp: run_server_def)
qed

lemma run_server_recving:
  "isRecving (chan_of 5 (party_world run_server))"
proof -
  let ?w = "enableRecv (ConnChan 5) (open_conn [Done 7 query_bytes, Done 4 []])"
  have "codec_onMessage query_proto (recvBuffer (conns ?w 5) @ query_bytes) = ([QueryMsg client_query], None, [])"
    using codec.run_encoded [of query_proto "[QueryMsg client_query]" "[]"] query_proto_ok
    by (simp add: codec_front_def kMinMessageLen_def kHeaderLen_def Let_def open_conn_def boot_net_def)
  moreover have "\<exists>n. next_reply ?w = Done n query_bytes \<and> query_bytes \<noteq> [] \<and> length query_bytes \<le> recv_size"
    using length_query by (auto simp: recv_size_def open_conn_def boot_net_def next_reply_def)
  moreover have "isRecving (chan_of 5 ?w)"
    by (simp add: enableRecv_def effect isRecving_def Channel_ctor_def open_conn_def boot_net_def event_defs)
  ultimately show "isRecving (chan_of 5 (party_world run_server))"
    using handleRecv_codec [OF server_speaks [OF query_proto_ok(2) aside_refl], of ?w 5 query_bytes "[QueryMsg client_query]" None "[]" 0]
    by (simp add: run_server_def adds_def)
qed

lemma run_to_end:
  "run_steps (at_start [Done 25 []], at_start [Done 7 query_bytes, Done 4 []]) (run_client, run_server_end)"
proof -
  let ?q = "run_server\<lparr>party_world := (party_world run_server)\<lparr>replies := [Done 2 []]\<rparr>\<rparr>"
  note run_to_query
  also have "run_steps (run_client, run_server) (run_client, ?q)"
    by (intro r_into_rtranclp link_step.right party_step.does acts.kernel)
  also have "run_steps (run_client, ?q) (run_client, run_server_end)"
  proof (intro r_into_rtranclp link_step.right)
    have "hung_up 5 (trace (party_world run_client)) (party_heard ?q)"
      by (simp add: hung_up_def before_close_def run_client_facts run_server_def)
    moreover have "next_reply (party_world ?q) = Done 2 []" "isRecving (chan_of 5 (party_world ?q))"
      using run_server_recving by (simp_all add: next_reply_def)
    ultimately show "party_step query_proto server_app 5 5 (trace (party_world run_client)) ?q run_server_end"
      using party_step.ends [of ?q 5 2 5 "trace (party_world run_client)" query_proto server_app 0]
      by (simp add: run_server_end_def)
  qed
  finally show ?thesis .
qed

lemma run_server_down: "down 5 (party_world run_server_end)"
proof -
  let ?w = "(party_world run_server)\<lparr>replies := [Done 2 []]\<rparr>"
  have "next_reply ?w = Done 2 []" by (simp add: next_reply_def)
  from handleRecv_ends [OF server_speaks [OF query_proto_ok(2) aside_refl] this, of 5 0]
  show ?thesis
    by (auto simp: run_server_end_def down_def talks_def adds_def set_down_simps dest!: speech_fresh)
qed

theorem graceful_end_witness:
  "sends_of 5 (before_close 5 (trace (party_world run_client))) = map (fillEmptyBuffer query_proto) [QueryMsg client_query]"
proof -
  have "speaks query_proto client_app" by (rule client_speaks) (simp_all add: query_proto_ok)
  from graceful_end [OF run_linked [OF run_to_end] this server_speaks [OF query_proto_ok(2) aside_refl] run_server_down]
  show ?thesis
    by (simp add: Let_def before_close_def run_client_facts(1) run_server_end_def run_server_def)
qed

end
