(* ===== verification/TimerPrograms.thy ===== *)
theory TimerPrograms
  imports Timer
begin

text \<open>
  Timers over more than one event, and the examples that are made of them:
  \<^verbatim>\<open>src/examples/sing.cc\<close> and \<^verbatim>\<open>oneshot.cc\<close>. A periodic timer stays set and calls its callback
  at each of its events; timers that were set on one loop leave one another alone.
\<close>

section \<open>Periodic timers\<close>

lemma timer_of_upd [simp]:
  "timer_of (upd_chan ch g w) = timer_of w" "numCreate (upd_chan ch g w) = numCreate w"
  "timer_of (upd_loop l h w) = timer_of w" "numCreate (upd_loop l h w) = numCreate w"
  by (simp_all add: upd_chan_def upd_loop_def)

lemma more_frame:
  fixes v w :: "('f, 'z) timer_world_scheme"
  assumes "ev_world.more v = ev_world.more w"
  shows "timer_of v = timer_of w" "numCreate v = numCreate w" "timer_world.more v = timer_world.more w"
proof -
  show "timer_of v = timer_of w" using assms by (cases v; cases w; simp)
  show "numCreate v = numCreate w" using assms by (cases v; cases w; simp)
  show "timer_world.more v = timer_world.more w" using assms by (cases v; cases w; simp)
qed

lemma timer_of_events [simp]:
  fixes w :: "('f, 'z) timer_world_scheme"
  shows "timer_of (enableRecv ch w) = timer_of w" "numCreate (enableRecv ch w) = numCreate w"
    "timer_world.more (enableRecv ch w) = timer_world.more w"
  by (rule more_frame; simp add: chan_op_defs frame)+

lemma armed_idle [simp]: "armed l s cb (upd_chan ch (\<lambda>c. c\<lparr>ch_handling := b\<rparr>) w) = armed l s cb w"
  by (simp add: armed_def)

lemma periodic_stays:
  assumes "armed l s cb w" "leaves_timer s l (exec cb)" "\<not> one_shot (t_spec (timer_of w s))"
  shows "armed l s cb (timer_fires exec s t w)"
    "t_spec (timer_of (timer_fires exec s t w) s) = t_spec (timer_of w s)"
    "reg_inv w \<Longrightarrow> reg_inv (timer_fires exec s t w)"
  using armed_called [of l s cb w exec, OF assms(1,2)] assms(2)
  by (simp_all add: periodic_fires [of l s cb w exec t, OF assms] leaves_timer_def)

section \<open>Several timers\<close>

text \<open>What setting a timer leaves alone.\<close>

lemma run_timer_in_loop:
  assumes "isInLoopThread l w" "s = numCreate w + 1"
  shows "snd (run_timer l f bound time interval cb w) =
    upd_loop l (\<lambda>L. L\<lparr>timers := (timers L)(s \<mapsto> nat s)\<rparr>)
      (upd_timer s (\<lambda>t. t\<lparr>timerCallback := Some cb, t_spec := timer_spec time interval\<rparr>)
        (upd_chan (TimerChan s) (tie (nat s)) (enableRecv (TimerChan s) (snd (Timer_ctor l f w)))))"
proof -
  have ctor: "Timer_ctor l f w = (s, snd (Timer_ctor l f w))" "t_loop (timer_of (snd (Timer_ctor l f w)) s) = l"
    "isInLoopThread l (snd (Timer_ctor l f w))"
    using assms by (simp_all add: Timer_ctor_def Let_def isInLoopThread_def)
  define w1 where "w1 = snd (Timer_ctor l f w)"
  have "isInLoopThread l (upd_chan (TimerChan s) (tie (nat s)) (enableRecv (TimerChan s) w1))"
    using ctor(3) by (simp add: w1_def chan_op_defs frame)
  then have "addTimer bound s time interval cb w1 =
      upd_timer s (\<lambda>t. t\<lparr>timerCallback := Some cb, t_spec := timer_spec time interval\<rparr>)
        (upd_chan (TimerChan s) (tie (nat s)) (enableRecv (TimerChan s) w1))"
    using ctor(2) by (simp add: addTimer_def Let_def runTask_def w1_def addTimerInLoop_def assertInLoopThread_def)
  then show ?thesis
    unfolding run_timer_def by (subst ctor(1)) (simp add: w1_def)
qed

lemma run_timer_others:
  fixes w :: "('f, 'z) timer_world_scheme" and time interval :: rat and bound cb :: 'f and f :: fd
  assumes "isInLoopThread l w" "s = numCreate w + 1" "ch_state (chans w (TimerChan s)) = NEW"
  defines "w' \<equiv> snd (run_timer l f bound time interval cb w)"
  shows "numCreate w' = s" "s' \<noteq> s \<Longrightarrow> timer_of w' s' = timer_of w s'"
    "ch \<noteq> TimerChan s \<Longrightarrow> chans w' ch = chans w ch" "s' \<noteq> s \<Longrightarrow> timers (loops w' l) s' = timers (loops w l) s'"
    "isInLoopThread k w' = isInLoopThread k w" "timer_world.more w' = timer_world.more w"
    "g \<noteq> f \<Longrightarrow> channels (loops w' l) g = channels (loops w l) g"
proof -
  define w1 where "w1 = snd (Timer_ctor l f w)"
  have w1: "chans w1 = (chans w)(TimerChan s := Channel_ctor l f)" "loops w1 = loops w" "numCreate w1 = s"
    "timer_of w1 s' = (if s' = s then timer_of w1 s else timer_of w s')" "timer_world.more w1 = timer_world.more w"
    "self w1 = self w" for s'
    by (simp_all add: w1_def Timer_ctor_def Let_def assms(2))
  define w2 where "w2 = upd_chan (TimerChan s) (tie (nat s)) (enableRecv (TimerChan s) w1)"
  have w2: "timer_of w2 = timer_of w1" "numCreate w2 = numCreate w1" "timer_world.more w2 = timer_world.more w1"
    by (rule more_frame; simp add: w2_def chan_op_defs frame)+
  have loops2: "loops w2 = loops (enableRecv (TimerChan s) w1)" by (simp add: w2_def)
  have w': "w' = upd_loop l (\<lambda>L. L\<lparr>timers := (timers L)(s \<mapsto> nat s)\<rparr>)
      (upd_timer s (\<lambda>t. t\<lparr>timerCallback := Some cb, t_spec := timer_spec time interval\<rparr>) w2)"
    unfolding w'_def run_timer_in_loop [OF assms(1,2)] by (simp add: w2_def w1_def)
  note D = w' upd_timer_def upd_loop_def
  show "numCreate w' = s" by (simp add: D w2 w1(3,5))
  show "s' \<noteq> s \<Longrightarrow> timer_of w' s' = timer_of w s'" using w1(4) [of s'] by (simp add: D w2)
  show "ch \<noteq> TimerChan s \<Longrightarrow> chans w' ch = chans w ch" by (simp add: D w2_def chan_op_defs effect w1(1))
  show "s' \<noteq> s \<Longrightarrow> timers (loops w' l) s' = timers (loops w l) s'"
    by (simp add: D loops2 chan_op_defs frame w1(2,6))
  show "isInLoopThread k w' = isInLoopThread k w"
    by (simp add: D isInLoopThread_def w2_def chan_op_defs frame w1(2,6))
  show "timer_world.more w' = timer_world.more w" by (simp add: D w2 w1(3,5))
  show "g \<noteq> f \<Longrightarrow> channels (loops w' l) g = channels (loops w l) g"
    using set_events_loops_NEW [of w1 "TimerChan s"]
    by (simp add: D loops2 chan_op_defs w1(1,2) Channel_ctor_def)
qed

text \<open>One event leaves the other timers set.\<close>

lemma timer_of_dtor [simp]:
  fixes w :: "('f, 'z) timer_world_scheme"
  shows "timer_of (Timer_dtor s w) = timer_of w" "timer_world.more (Timer_dtor s w) = timer_world.more w"
  by (rule more_frame; simp add: Timer_dtor_def chan_op_defs frame)+

lemma one_shot_event:
  assumes "armed l s cb w" "leaves_timer s l (exec cb)" "one_shot (t_spec (timer_of w s))" "reg_inv w"
  shows "reg_inv (timer_fires exec s t w)" "timers (loops (timer_fires exec s t w) l) s = None"
    "s' \<noteq> s \<Longrightarrow> leaves_timer s' l (exec cb) \<Longrightarrow> armed l s' cb' w \<Longrightarrow>
      armed l s' cb' (timer_fires exec s t w) \<and> t_spec (timer_of (timer_fires exec s t w) s') = t_spec (timer_of w s')"
    "s' \<noteq> s \<Longrightarrow> leaves_timer s' l (exec cb) \<Longrightarrow> timers (loops w l) s' = None \<Longrightarrow>
      timers (loops (timer_fires exec s t w) l) s' = None"
proof -
  define u where "u = exec cb (firing s w)"
  define v where "v = upd_chan (TimerChan s) (\<lambda>c. c\<lparr>ch_handling := False\<rparr>)
    (upd_loop l (\<lambda>L. L\<lparr>timers := (timers L)(s := None)\<rparr>) u)"
  have fires: "timer_fires exec s t w = Timer_dtor s v"
    unfolding v_def u_def by (rule one_shot_fires [of l s cb w exec t, OF assms(1-3)])
  have "armed l s cb u" unfolding u_def by (rule armed_called [of l s cb w exec, OF assms(1,2)])
  then have "ch_state (chans v (TimerChan s)) = ADD" by (simp add: v_def armed_def)
  moreover have "reg_inv v" using assms(2,4) by (simp add: v_def u_def leaves_timer_def)
  ultimately have D: "reg_inv (Timer_dtor s v)" "timers (loops (Timer_dtor s v) l) = timers (loops v l)"
    "\<And>ch. ch \<noteq> TimerChan s \<Longrightarrow> chans (Timer_dtor s v) ch = chans v ch"
    by (simp_all add: Timer_dtor_frees)
  show "reg_inv (timer_fires exec s t w)" unfolding fires by (rule D)
  show "timers (loops (timer_fires exec s t w) l) s = None" unfolding fires D(2) by (simp add: v_def)
  show "armed l s' cb' (timer_fires exec s t w) \<and> t_spec (timer_of (timer_fires exec s t w) s') = t_spec (timer_of w s')"
    if "s' \<noteq> s" "leaves_timer s' l (exec cb)" "armed l s' cb' w"
  proof -
    have "chans v (TimerChan s') = chans w (TimerChan s')" "timer_of v s' = timer_of w s'"
      "timers (loops v l) s' = timers (loops w l) s'"
      using that(1,2) by (simp_all add: v_def u_def leaves_timer_def) (simp add: firing_def)
    then show ?thesis using that(1,3) D(2) D(3) [of "TimerChan s'"] unfolding fires by (simp add: armed_def)
  qed
  show "timers (loops (timer_fires exec s t w) l) s' = None"
    if "s' \<noteq> s" "leaves_timer s' l (exec cb)" "timers (loops w l) s' = None"
    using that unfolding fires D(2) by (simp add: v_def u_def leaves_timer_def)
qed

section \<open>Timers set one after the other\<close>

text \<open>
  \<open>set_timers l b xs\<close>: successive calls of \<^verbatim>\<open>runAfter\<close>, each with the descriptor the kernel
  gives, a delay and a callback; \<open>b\<close> is the functor that would be queued by another thread.
\<close>

fun set_timers ::
  "loop_id \<Rightarrow> 'f \<Rightarrow> (fd \<times> rat \<times> 'f) list \<Rightarrow> ('f, 'z) timer_world_scheme \<Rightarrow> ('f, 'z) timer_world_scheme" where
  "set_timers l b [] w = w"
| "set_timers l b ((f, delay, cb) # xs) w = set_timers l b xs (snd (runAfter l f b delay cb w))"

fun numbered :: "int \<Rightarrow> (fd \<times> rat \<times> 'f) list \<Rightarrow> (int \<times> rat \<times> 'f) list" where
  "numbered n [] = []"
| "numbered n ((f, delay, cb) # xs) = (n + 1, delay, cb) # numbered (n + 1) xs"

lemma numbered_over: "e \<in> set (numbered n xs) \<Longrightarrow> n < fst e"
  by (induction xs arbitrary: n) force+

lemma numbered_distinct: "distinct (map fst (numbered n xs))"
  by (induction n xs rule: numbered.induct) (auto dest: numbered_over)

text \<open>The state in which a program sets its timers, and the timers that are set in a state.\<close>

definition ready :: "loop_id \<Rightarrow> ('f, 'z) timer_world_scheme \<Rightarrow> bool" where
  "ready l w \<longleftrightarrow> reg_inv w \<and> isInLoopThread l w \<and> 0 \<le> numCreate w \<and>
     (\<forall>s > numCreate w. ch_state (chans w (TimerChan s)) = NEW)"

definition pending :: "loop_id \<Rightarrow> (int \<times> rat \<times> 'f) list \<Rightarrow> ('f, 'z) timer_world_scheme \<Rightarrow> bool" where
  "pending l es w \<longleftrightarrow> list_all (\<lambda>(s, delay, cb). armed l s cb w \<and> t_spec (timer_of w s) = timer_spec delay 0) es"

lemma run_timer_ready:
  fixes w :: "('f, 'z) timer_world_scheme" and bound cb :: 'f and delay :: rat and f :: fd
  assumes "ready l w" "channels (loops w l) f = None"
  defines "w' \<equiv> snd (runAfter l f bound delay cb w)"
  shows "ready l w'" "armed l (numCreate w + 1) cb w'" "t_spec (timer_of w' (numCreate w + 1)) = timer_spec delay 0"
    "numCreate w' = numCreate w + 1"
proof -
  have R: "reg_inv w" "isInLoopThread l w" "ch_state (chans w (TimerChan (numCreate w + 1))) = NEW"
    "0 \<le> numCreate w" "\<forall>s > numCreate w. ch_state (chans w (TimerChan s)) = NEW"
    using assms(1) by (simp_all add: ready_def)
  note O = run_timer_others [where f = f and bound = bound and time = delay and interval = 0 and cb = cb, OF R(2) refl R(3), folded runAfter_def w'_def]
  note N = run_timer_registers [where bound = bound and time = delay and interval = 0 and cb = cb, OF R(1-3) refl assms(2), folded runAfter_def w'_def]
  show "armed l (numCreate w + 1) cb w'" "t_spec (timer_of w' (numCreate w + 1)) = timer_spec delay 0"
    "numCreate w' = numCreate w + 1"
    using N O(1) R(4) by (simp_all add: armed_def)
  have "ch_state (chans w' (TimerChan s)) = NEW" if "s > numCreate w + 1" for s
    using that O(3) [of "TimerChan s"] R(5) by simp
  then show "ready l w'" using N(1) O(1,5) R(2,4) by (simp add: ready_def)
qed

lemma run_timer_pending:
  fixes w :: "('f, 'z) timer_world_scheme" and bound cb :: 'f
  assumes "ready l w" "pending l es w" "list_all (\<lambda>e. fst e \<le> numCreate w) es"
  shows "pending l es (snd (runAfter l f bound delay cb w))"
proof -
  have R: "isInLoopThread l w" "ch_state (chans w (TimerChan (numCreate w + 1))) = NEW"
    using assms(1) by (simp_all add: ready_def)
  note O = run_timer_others [where f = f and bound = bound and time = delay and interval = 0 and cb = cb, OF R(1) refl R(2), folded runAfter_def]
  have "armed l s cb' (snd (runAfter l f bound delay cb w)) \<and>
      t_spec (timer_of (snd (runAfter l f bound delay cb w)) s) = timer_spec d 0"
    if "(s, d, cb') \<in> set es" for s d cb'
  proof -
    have "s \<noteq> numCreate w + 1" "armed l s cb' w" "t_spec (timer_of w s) = timer_spec d 0"
      using that assms(2,3) by (auto simp: pending_def list_all_iff)
    then show ?thesis using O(2) [of s] O(3) [of "TimerChan s"] O(4) [of s] by (simp add: armed_def)
  qed
  then show ?thesis by (auto simp: pending_def list_all_iff)
qed

lemma set_timers_pending:
  fixes w :: "('f, 'z) timer_world_scheme"
  assumes "ready l w" "pending l es w" "list_all (\<lambda>e. fst e \<le> numCreate w) es"
    and "distinct (map fst xs)" "list_all (\<lambda>x. channels (loops w l) (fst x) = None) xs"
  shows "ready l (set_timers l b xs w) \<and> pending l (es @ numbered (numCreate w) xs) (set_timers l b xs w) \<and>
    timer_world.more (set_timers l b xs w) = timer_world.more w"
  using assms
proof (induction xs arbitrary: es w)
  case Nil
  then show ?case by simp
next
  case (Cons x xs)
  obtain f d cb where x: "x = (f, d, cb)" by (cases x)
  define w' where "w' = snd (runAfter l f b d cb w)"
  have free: "channels (loops w l) f = None" using Cons.prems(5) by (simp add: x)
  note N = run_timer_ready [where bound = b and delay = d and cb = cb, OF Cons.prems(1) free, folded w'_def]
  have R: "isInLoopThread l w" "ch_state (chans w (TimerChan (numCreate w + 1))) = NEW"
    using Cons.prems(1) by (simp_all add: ready_def)
  note O = run_timer_others [where f = f and bound = b and time = d and interval = 0 and cb = cb, OF R(1) refl R(2), folded runAfter_def w'_def]
  have "pending l (es @ [(numCreate w + 1, d, cb)]) w'"
    using run_timer_pending [where f = f and bound = b and delay = d and cb = cb, OF Cons.prems(1-3)] N(2,3) by (simp add: pending_def w'_def)
  moreover have "list_all (\<lambda>e. fst e \<le> numCreate w') (es @ [(numCreate w + 1, d, cb)])"
    using Cons.prems(3) N(4) by (auto simp: list_all_iff)
  moreover have "channels (loops w' l) (fst y) = None" if "y \<in> set xs" for y
  proof -
    have "fst y \<noteq> f" using Cons.prems(4) that by (force simp: x)
    then show ?thesis using O(7) [of "fst y"] Cons.prems(5) that by (simp add: list_all_iff)
  qed
  ultimately show ?case
    using Cons.IH [of w' "es @ [(numCreate w + 1, d, cb)]"] N(1,4) O(6) Cons.prems(4)
    by (simp add: x w'_def [symmetric] list_all_iff)
qed

section \<open>Events of timers that are set\<close>

text \<open>
  What a program's timer callbacks do: they leave the timers alone, and change what is observed
  of the program (\<open>obs\<close>) as \<open>does\<close> says; handling an event changes nothing else of it.
\<close>

locale timer_calls =
  fixes exec :: "'f \<Rightarrow> ('f, 'z) timer_world_scheme \<Rightarrow> ('f, 'z) timer_world_scheme"
    and obs :: "('f, 'z) timer_world_scheme \<Rightarrow> 'o" and does :: "'f \<Rightarrow> 'o \<Rightarrow> 'o"
  assumes leaves: "leaves_timer s l (exec cb)"
    and seen: "obs (exec cb w) = does cb (obs w)"
    and unseen: "obs (upd_chan ch h w) = obs w" "obs (upd_loop l k w) = obs w" "obs (Timer_dtor s w) = obs w"
begin

lemma periodic_events:
  assumes "armed l s cb w" "\<not> one_shot (t_spec (timer_of w s))" "reg_inv w"
  shows "armed l s cb (fold (timer_fires exec s) ts w) \<and> reg_inv (fold (timer_fires exec s) ts w) \<and>
    obs (fold (timer_fires exec s) ts w) = (does cb ^^ length ts) (obs w)"
  using assms
proof (induction ts arbitrary: w)
  case Nil
  then show ?case by simp
next
  case (Cons t ts)
  note stays = periodic_stays [of l s cb w exec, OF Cons.prems(1) leaves Cons.prems(2)]
  have "obs (timer_fires exec s t w) = does cb (obs w)"
    by (simp add: periodic_fires [of l s cb w exec t, OF Cons.prems(1) leaves Cons.prems(2)] seen unseen firing_def)
  with Cons.IH [of "timer_fires exec s t w"] stays [of t] Cons.prems(2,3) show ?case
    by (simp add: funpow_swap1)
qed

lemma one_shot_obs:
  assumes "armed l s cb w" "one_shot (t_spec (timer_of w s))"
  shows "obs (timer_fires exec s t w) = does cb (obs w)"
  by (simp add: one_shot_fires [of l s cb w exec t, OF assms(1) leaves assms(2)] seen unseen firing_def)

lemma one_shot_spec: "one_shot (timer_spec delay 0)"
  by (simp add: one_shot_def timer_spec_def trunc_def Let_def)

lemma all_events:
  assumes "pending l es w" "distinct (map fst es)" "reg_inv w"
  shows "let w' = fold (\<lambda>e. timer_fires exec (fst e) (moment (fst e))) es w in
    reg_inv w' \<and> obs w' = fold (\<lambda>e. does (snd (snd e))) es (obs w) \<and>
    (\<forall>s. s \<in> fst ` set es \<or> timers (loops w l) s = None \<longrightarrow> timers (loops w' l) s = None)"
  using assms
proof (induction es arbitrary: w)
  case Nil
  then show ?case by simp
next
  case (Cons e es)
  obtain s d cb where e: "e = (s, d, cb)" by (cases e)
  have a: "armed l s cb w" "one_shot (t_spec (timer_of w s))"
    using Cons.prems(1) by (simp_all add: e pending_def one_shot_spec)
  note E = one_shot_event [of l s cb w exec, OF a(1) leaves a(2) Cons.prems(3)]
  have "pending l es (timer_fires exec s (moment s) w)"
    unfolding pending_def list_all_iff
  proof clarify
    fix s' d' cb'
    assume in_es: "(s', d', cb') \<in> set es"
    then have "s' \<noteq> s" using Cons.prems(2) by (force simp: e)
    moreover have "armed l s' cb' w" "t_spec (timer_of w s') = timer_spec d' 0"
      using Cons.prems(1) in_es by (auto simp: pending_def list_all_iff)
    ultimately show "armed l s' cb' (timer_fires exec s (moment s) w) \<and>
        t_spec (timer_of (timer_fires exec s (moment s) w) s') = timer_spec d' 0"
      using E(3) [OF _ leaves, of s' cb' "moment s"] by simp
  qed
  moreover have "timers (loops (timer_fires exec s (moment s) w) l) s' = None"
    if "s' = s \<or> timers (loops w l) s' = None" for s'
    using that E(2) [of "moment s"] E(4) [OF _ leaves, of s' "moment s"] by (cases "s' = s") auto
  moreover have "obs (timer_fires exec s (moment s) w) = does cb (obs w)" by (rule one_shot_obs [OF a])
  ultimately show ?case
    using Cons.IH [of "timer_fires exec s (moment s) w"] Cons.prems(2) E(1) [of "moment s"]
    by (auto simp: e Let_def)
qed

end

section \<open>Printing programs\<close>

text \<open>A callback of \<^verbatim>\<open>sing.cc\<close> is the text it prints.\<close>

record song_world = "string timer_world" +
  printed :: string

definition print_text :: "string \<Rightarrow> song_world \<Rightarrow> song_world" where
  "print_text text w = w\<lparr>printed := printed w @ text\<rparr>"

definition sing_lines :: "(rat \<times> string) list" where
  "sing_lines = [(1, ''.''), (2, ''.''), (3, ''.''), (4, ''.''), (9 / 2, ''If I.''), (5, ''die young. ''),
     (6, ''bury me in.''), (7, ''satin. ''), (8, ''lay me down ''), (9, ''on a. ''), (10, ''bed of roses.'')]"

definition sing_main :: "fd list \<Rightarrow> song_world \<Rightarrow> song_world" where
  "sing_main fs w = set_timers 0 [] (zip fs sing_lines) w"

lemma printed_frame:
  fixes v w :: song_world
  assumes "ev_world.more v = ev_world.more w"
  shows "printed v = printed w"
  using assms by (cases v; cases w; simp)

lemma printed_dtor [simp]:
  fixes w :: song_world
  shows "printed (Timer_dtor s w) = printed w"
  by (rule printed_frame) (simp add: Timer_dtor_def chan_op_defs frame)

interpretation song: timer_calls print_text printed "\<lambda>text out. out @ text"
proof unfold_locales
  fix s l cb
  have "reg_inv (print_text cb w) = reg_inv w" for w
    by (rule reg_inv_cong) (simp_all add: print_text_def)
  then show "leaves_timer s l (print_text cb)" by (simp add: leaves_timer_def print_text_def)
qed (simp_all add: print_text_def upd_chan_def upd_loop_def)

section \<open>Properties\<close>

lemma periodic_spec: "1 / 1000 \<le> interval \<Longrightarrow> \<not> one_shot (timer_spec time interval)"
proof
  assume i: "1 / 1000 \<le> interval" and once: "one_shot (timer_spec time interval)"
  define k where "k = \<lfloor>interval * 1000\<rfloor>"
  have pos: "1 \<le> k" using i by (simp add: k_def le_floor_iff)
  then have t: "trunc (interval * 1000) = k" using i by (simp add: trunc_def k_def)
  have "k div 1000 = 0" "k mod 1000 = 0"
    using once sdiv_smod_nonneg [of k] pos by (auto simp: one_shot_def timer_spec_def Let_def t)
  then have "k = 0" using div_mult_mod_eq [of k 1000] by simp
  with pos show False by simp
qed

text \<open>
  C28. A timer set with \<^verbatim>\<open>runEvery\<close> and an interval of a millisecond or more never stops by
  itself: after any number of events its callback has run exactly that often, in the loop the
  timer is still set and its channel registered, and the registration invariant holds.
\<close>

theorem periodic_timer_runs:
  assumes "timer_calls exec obs does" "ready l w" "channels (loops w l) f = None" "1 / 1000 \<le> interval"
  shows "let s = numCreate w + 1; w1 = snd (runEvery l f bound interval cb w); w' = fold (timer_fires exec s) ts w1 in
    obs w' = (does cb ^^ length ts) (obs w1) \<and> timers (loops w' l) s = Some (nat s) \<and>
    ch_state (chans w' (TimerChan s)) = ADD \<and> reg_inv w'"
proof -
  define s where "s = numCreate w + 1"
  define w1 where "w1 = snd (runEvery l f bound interval cb w)"
  have R: "reg_inv w" "isInLoopThread l w" "ch_state (chans w (TimerChan s)) = NEW" "0 \<le> s"
    using assms(2) by (simp_all add: ready_def s_def)
  note N = run_timer_registers [where bound = bound and time = interval and interval = interval and cb = cb,
      OF R(1-3) s_def assms(3), folded runEvery_def w1_def]
  have "armed l s cb w1" using N R(4) by (simp add: armed_def)
  moreover have "\<not> one_shot (t_spec (timer_of w1 s))" using N(5) periodic_spec [OF assms(4)] by simp
  ultimately show ?thesis
    using timer_calls.periodic_events [OF assms(1), of l s cb w1 ts] N(1)
    by (simp add: s_def [symmetric] w1_def [symmetric] Let_def armed_def)
qed

lemma numbered_names: "map fst (numbered n xs) = map (\<lambda>i. n + int i) [1..<Suc (length xs)]"
proof (induction n xs rule: numbered.induct)
  case (2 n f d cb xs)
  have "[1..<Suc (Suc (length xs))] = 1 # map Suc [1..<Suc (length xs)]"
    by (simp add: map_Suc_upt upt_conv_Cons del: upt_Suc)
  with 2 show ?case by (simp add: comp_def add.assoc del: upt_Suc)
qed simp

lemma numbered_rest: "length fs = length ys \<Longrightarrow> map snd (numbered n (zip fs ys)) = ys"
  by (induction fs ys arbitrary: n rule: list_induct2) auto

lemma sing_expiries:
  "map (\<lambda>(delay, text). expiry (timer_spec delay 0)) sing_lines =
     [1000000000, 2000000000, 3000000000, 4000000000, 4000500000, 5000000000, 6000000000, 7000000000,
      8000000000, 9000000000, 10000000000]"
  by (simp add: sing_lines_def expiry_spec Let_def)

text \<open>
  C32. \<^verbatim>\<open>sing.cc\<close>: the eleven timers are set to expire one after the other, in the order of
  the program text, at eleven different times; when their events come in this order, the
  program has printed its song, line by line, and every timer is gone.
\<close>

theorem sing_plays:
  assumes "ready 0 w" "distinct fs" "length fs = 11" "list_all (\<lambda>f. channels (loops w 0) f = None) fs"
  shows "let w1 = sing_main fs w; names = map (\<lambda>i. numCreate w + int i) [1..<12];
      w' = fold (\<lambda>s. timer_fires print_text s (moment s)) names w1 in
    sorted_wrt (<) (map (\<lambda>s. expiry (t_spec (timer_of w1 s))) names) \<and>
    printed w' = printed w @ ''....If I.die young. bury me in.satin. lay me down on a. bed of roses.'' \<and>
    list_all (\<lambda>s. timers (loops w' 0) s = None) names"
proof -
  define es where "es = numbered (numCreate w) (zip fs sing_lines)"
  define w1 where "w1 = sing_main fs w"
  have len: "length fs = length sing_lines" using assms(3) by (simp add: sing_lines_def)
  have names: "map fst es = map (\<lambda>i. numCreate w + int i) [1..<12]"
  proof -
    have "length (zip fs sing_lines) = 11" using assms(3) len by simp
    then show ?thesis by (simp only: es_def numbered_names) simp
  qed
  have texts: "map snd es = sing_lines" unfolding es_def by (rule numbered_rest [OF len])
  have "distinct (map fst (zip fs sing_lines))" "list_all (\<lambda>x. channels (loops w 0) (fst x) = None) (zip fs sing_lines)"
    using assms(2,4) len by (auto simp: list_all_iff dest: set_zip_leftD)
  from set_timers_pending [OF assms(1) _ _ this, of "[]" "[]"] have w1: "ready 0 w1" "pending 0 es w1"
    "timer_world.more w1 = timer_world.more w"
    by (simp_all add: pending_def sing_main_def w1_def es_def)
  then have out: "printed w1 = printed w" by (cases w1; cases w; simp)
  have "map (\<lambda>s. expiry (t_spec (timer_of w1 s))) (map fst es) = map (\<lambda>(delay, text). expiry (timer_spec delay 0)) (map snd es)"
    using w1(2) by (auto simp: pending_def list_all_iff)
  then have order: "sorted_wrt (<) (map (\<lambda>s. expiry (t_spec (timer_of w1 s))) (map fst es))"
    unfolding texts sing_expiries by simp
  define w' where "w' = fold (\<lambda>s. timer_fires print_text s (moment s)) (map fst es) w1"
  have w': "w' = fold (\<lambda>e. timer_fires print_text (fst e) (moment (fst e))) es w1"
    by (simp add: w'_def fold_map comp_def)
  have "printed w' = fold (\<lambda>e out. out @ snd (snd e)) es (printed w1)" "list_all (\<lambda>s. timers (loops w' 0) s = None) (map fst es)"
    using song.all_events [OF w1(2), of moment] w1(1) numbered_distinct [of "numCreate w"]
    by (auto simp: w' Let_def es_def ready_def list_all_iff)
  moreover have "fold (\<lambda>e out. out @ snd (snd e)) es (printed w1) = printed w1 @ concat (map snd (map snd es))"
    using fold_appends [of "\<lambda>e. snd (snd e)" es "printed w1"] by (simp add: comp_def)
  ultimately have "printed w' = printed w @ ''....If I.die young. bury me in.satin. lay me down on a. bed of roses.''"
    unfolding texts out by (simp add: sing_lines_def)
  with order \<open>list_all _ (map fst es)\<close> show ?thesis
    unfolding w'_def names w1_def [symmetric] Let_def by blast
qed

section \<open>A channel of its own on a timer descriptor\<close>

text \<open>
  \<^verbatim>\<open>oneshot.cc\<close> registers a channel on a timer descriptor itself. The descriptor is set to two
  seconds, and every two seconds after that; the callback quits the loop.
\<close>

definition oneshot_spec :: itimerspec where
  "oneshot_spec = \<lparr>value_sec = 2, value_nsec = 0, interval_sec = 2, interval_nsec = 0\<rparr>"

definition timeout :: "int \<Rightarrow> song_world \<Rightarrow> song_world" where
  "timeout t w = quit_loop 0 (print_text (''Timeout!'' @ [CHR 0x0A]) w)"

definition oneshot_main :: "chan_id \<Rightarrow> fd \<Rightarrow> song_world \<Rightarrow> song_world" where
  "oneshot_main ch f w = enableRecv ch (w\<lparr>chans := (chans w)(ch := Channel_ctor 0 f)\<rparr>)"

definition oneshot_cbs :: "song_world chan_callbacks" where
  "oneshot_cbs = \<lparr>recvCallback = Some timeout, sendCallback = None, closeCallback = None, errorCallback = None\<rparr>"

text \<open>However often the poll times out before, the first event of the timer ends the program.\<close>

lemma printed_frames [simp]:
  fixes w :: song_world
  shows "printed (upd_loop l g w) = printed w" "printed (upd_chan ch h w) = printed w"
    "printed (assertInLoopThread l w) = printed w" "printed (enableRecv ch w) = printed w"
  by (rule printed_frame; simp add: assertInLoopThread_def chan_op_defs frame)+

lemma timeouts_pass:
  "\<not> quit (loops w l) \<Longrightarrow>
   loop_while alive cbs exec l (replicate n (PollEvents []) @ prs) w = loop_while alive cbs exec l prs w"
  by (induction n) (simp_all add: loop_while.simps [of _ _ _ _ "PollEvents [] # _"] loop_body_def)

lemma oneshot_returns:
  fixes w :: song_world and ch t n prs
  assumes "isInLoopThread 0 w" "taskQueue (loops w 0) = []" "eventsSize (loops w 0) = 32"
  defines "polls \<equiv> replicate n (PollEvents []) @ PollEvents [(ch, EPOLLIN, t)] # prs"
  shows "fst (loop_run (\<lambda>_ _. True) (\<lambda>_. oneshot_cbs) print_text 0 polls (oneshot_main ch f w)) = Returned \<and>
    printed (snd (loop_run (\<lambda>_ _. True) (\<lambda>_. oneshot_cbs) print_text 0 polls (oneshot_main ch f w))) =
      printed w @ ''Timeout!'' @ [CHR 0x0A]"
proof -
  define u where "u = upd_loop 0 (\<lambda>L. L\<lparr>quit := False\<rparr>) (assertInLoopThread 0 (oneshot_main ch f w))"
  have "printed (oneshot_main ch f w) = printed w" by (simp add: oneshot_main_def)
  then have "printed u = printed w" by (simp add: u_def)
  then have u: "\<not> quit (loops u 0)" "printed u = printed w" "taskQueue (loops u 0) = []"
    "eventsSize (loops u 0) = 32" "isInLoopThread 0 u"
    using assms(1-3) by (simp_all, simp_all add: u_def oneshot_main_def assertInLoopThread_def chan_op_defs frame isInLoopThread_def)
  define v where "v = loop_body (\<lambda>_ _. True) (\<lambda>_. oneshot_cbs) print_text 0 [(ch, EPOLLIN, t)] u"
  have v: "quit (loops v 0)" "printed v = printed w @ ''Timeout!'' @ [CHR 0x0A]"
    using u by (simp_all add: v_def loop_body_def handle_one_def handleEvents_def handleEventsWithGuard_def Let_def
        oneshot_cbs_def call_def only_EPOLLIN timeout_def quit_defs print_text_def doTask_defs wakeup_def)
  have "loop_run (\<lambda>_ _. True) (\<lambda>_. oneshot_cbs) print_text 0 polls (oneshot_main ch f w) = (Returned, v)"
    unfolding loop_run_def loop_enter_def u_def [symmetric] polls_def
    using u(1) v(1) by (simp add: timeouts_pass loop_while.simps [of _ _ _ _ "PollEvents [(ch, EPOLLIN, t)] # prs"]
        v_def [symmetric] loop_while.simps [of _ _ _ _ prs v])
  then show ?thesis using v(2) by simp
qed

section \<open>Witnesses\<close>

definition song_start :: song_world where
  "song_start = \<lparr>self = 0, loops = (\<lambda>_. boot_loop), chans = (\<lambda>_. Channel_ctor 0 0), threadLoop = Map.empty,
     violations = [], timer_of = (\<lambda>_. \<lparr>t_fd = 0, t_loop = 0, timerCallback = None, t_spec = zero_spec\<rparr>),
     numCreate = 0, printed = []\<rparr>"

lemma ready_start: "ready 0 song_start" "channels (loops song_start 0) f = None"
  by (simp_all add: ready_def song_start_def reg_inv_def boot_loop_def Channel_ctor_def isInLoopThread_def)

theorem periodic_timer_runs_witness:
  "let w1 = snd (runEvery 0 9 [] (5 / 2) ''tick '' song_start) in
   printed (fold (timer_fires print_text 1) [10, 20, 30] w1) = printed w1 @ ''tick tick tick ''"
proof -
  have "numCreate song_start + 1 = 1" by (simp add: song_start_def)
  with periodic_timer_runs [OF song.timer_calls_axioms ready_start(1) ready_start(2) [of 9],
      of "5 / 2" "[]" "''tick ''" "[10, 20, 30]"]
  show ?thesis by (simp add: Let_def numeral_3_eq_3)
qed

theorem sing_plays_witness:
  "let w1 = sing_main (map int [3..<14]) song_start in
   printed (fold (\<lambda>s. timer_fires print_text s (s * 1000)) (map (\<lambda>i. int i) [1..<12]) w1) =
     ''....If I.die young. bury me in.satin. lay me down on a. bed of roses.''"
proof -
  have "distinct (map int [3..<14])" "length (map int [3..<14]) = 11"
    "list_all (\<lambda>f. channels (loops song_start 0) f = None) (map int [3..<14])"
    by (simp_all add: list_all_iff ready_start distinct_map del: upt_rec_numeral)
  from sing_plays [OF ready_start(1) this, of "\<lambda>s. s * 1000"] show ?thesis
    by (simp add: Let_def song_start_def del: upt_rec_numeral upt_Suc)
qed

end
