(* ===== verification/PoolProcess.thy ===== *)
theory PoolProcess
  imports ThreadPool
begin

text \<open>
  The rest of \<^verbatim>\<open>ThreadPool.cc\<close>: the callback every thread runs first, what happens to a task
  that throws, joining, and the destructor. A process is a pool with the state of its threads;
  what a task throws is an argument, so that the tasks stay those of \<open>ThreadPool\<close>. The
  process refines the pool: as long as it is alive its pool does only steps of
  \<^const>\<open>pool_step\<close>.
\<close>

section \<open>Exceptions\<close>

text \<open>\<^verbatim>\<open>slite::Exception\<close> has a message and a stack trace.\<close>

datatype thrown = SliteException string string | StdException string | OtherException

definition what :: "thrown \<Rightarrow> string" where
  "what x = (case x of SliteException message stack \<Rightarrow> message | StdException message \<Rightarrow> message | OtherException \<Rightarrow> [])"

definition stackTrace :: "thrown \<Rightarrow> string" where
  "stackTrace x = (case x of SliteException message stack \<Rightarrow> stack | _ \<Rightarrow> [])"

text \<open>
  What ends a process: \<^verbatim>\<open>abort\<close>; an exception that leaves a thread's function; one that
  leaves \<^verbatim>\<open>main\<close> or is thrown by \<^verbatim>\<open>join\<close>.
\<close>

datatype fate = Alive | Aborted | Terminated

text \<open>The handlers of \<^verbatim>\<open>runInThread\<close>: the lines they print, and what they end with.\<close>

definition catch_clause :: "string \<Rightarrow> thrown \<Rightarrow> string list \<times> fate" where
  "catch_clause name x =
     (case x of
        SliteException message stack \<Rightarrow>
          ([''exception caught in ThreadPool '' @ name, ''reason: '' @ what x, ''stack trace: '' @ stackTrace x], Aborted)
      | StdException message \<Rightarrow>
          ([''exception caught in ThreadPool '' @ name, ''reason: '' @ what x], Aborted)
      | OtherException \<Rightarrow> ([''unknown exception caught in ThreadPool '' @ name], Terminated))"

section \<open>The process\<close>

text \<open>
  \<open>begun\<close> tells of each thread whether it has passed the thread init callback; \<open>joinable\<close> of
  each thread object whether it has not been joined.
\<close>

record 'a process =
  pool :: "'a thread_pool"
  threadInitCallback :: "'a option"
  begun :: "bool list"
  joinable :: "bool list"
  err_lines :: "string list"
  fate :: fate

definition process_of :: "string \<Rightarrow> 'a process" where
  "process_of name = \<lparr>pool = ThreadPool_ctor name, threadInitCallback = None, begun = [], joinable = [],
     err_lines = [], fate = Alive\<rparr>"

definition setThreadInitCallback :: "'a \<Rightarrow> 'a process \<Rightarrow> 'a process" where
  "setThreadInitCallback cb s = s\<lparr>threadInitCallback := Some cb\<rparr>"

definition ends_with :: "thrown \<Rightarrow> 'a process \<Rightarrow> 'a process" where
  "ends_with x s = (case catch_clause (pool_name (pool s)) x of
     (lines, f) \<Rightarrow> s\<lparr>err_lines := err_lines s @ lines, fate := f\<rparr>)"

text \<open>A call in the thread that owns the pool: what it throws nobody catches.\<close>

definition call_here :: "('a \<Rightarrow> thrown option) \<Rightarrow> 'a \<Rightarrow> 'a process \<Rightarrow> 'a process" where
  "call_here throws task s = (if throws task = None then s else s\<lparr>fate := Terminated\<rparr>)"

definition pp_start :: "('a \<Rightarrow> thrown option) \<Rightarrow> nat \<Rightarrow> 'a process \<Rightarrow> 'a process option" where
  "pp_start throws n s =
     (case tp_start n (pool s) of
        None \<Rightarrow> None
      | Some p \<Rightarrow>
          let s1 = s\<lparr>pool := p, begun := replicate n False, joinable := replicate n True\<rparr>
          in Some (if n = 0 then (case threadInitCallback s of Some cb \<Rightarrow> call_here throws cb s1 | None \<Rightarrow> s1) else s1))"

definition pp_run :: "('a \<Rightarrow> thrown option) \<Rightarrow> 'a \<Rightarrow> 'a process \<Rightarrow> 'a process option" where
  "pp_run throws task s =
     (case tp_run task (pool s) of
        None \<Rightarrow> None
      | Some p \<Rightarrow> Some (if workers (pool s) = [] then call_here throws task (s\<lparr>pool := p\<rparr>) else s\<lparr>pool := p\<rparr>))"

text \<open>One step of a thread: its init callback, then the loop of \<^const>\<open>runInThread\<close>, all inside the \<^verbatim>\<open>try\<close>.\<close>

definition pp_thread :: "('a \<Rightarrow> thrown option) \<Rightarrow> nat \<Rightarrow> 'a process \<Rightarrow> 'a process option" where
  "pp_thread throws i s =
     (if \<not> begun s ! i then
        (case threadInitCallback s of
           Some cb \<Rightarrow> (case throws cb of Some x \<Rightarrow> Some (ends_with x s) | None \<Rightarrow> Some (s\<lparr>begun := (begun s)[i := True]\<rparr>))
         | None \<Rightarrow> Some (s\<lparr>begun := (begun s)[i := True]\<rparr>))
      else
        case workers (pool s) ! i of
          Running task \<Rightarrow>
            (case throws task of
               Some x \<Rightarrow> Some (ends_with x s)
             | None \<Rightarrow> map_option (\<lambda>p. s\<lparr>pool := p\<rparr>) (runInThread i (pool s)))
        | _ \<Rightarrow> map_option (\<lambda>p. s\<lparr>pool := p\<rparr>) (runInThread i (pool s)))"

text \<open>
  \<^verbatim>\<open>stop\<close> tells the threads, then joins them one after the other: \<^verbatim>\<open>join\<close> waits for the end of
  a thread, and throws if the thread has been joined before.
\<close>

definition pp_tell_stop :: "'a process \<Rightarrow> 'a process" where
  "pp_tell_stop s = s\<lparr>pool := tp_stop (pool s)\<rparr>"

definition pp_join :: "'a process \<Rightarrow> 'a process option" where
  "pp_join s =
     (if list_all (\<lambda>b. b) (joinable s)
      then if joined (pool s) then Some (s\<lparr>joinable := map (\<lambda>_. False) (joinable s)\<rparr>) else None
      else Some (s\<lparr>fate := Terminated\<rparr>))"

text \<open>
  The destructor stops a pool that runs. Thread objects that are still joinable when they are
  destroyed end the process.
\<close>

definition pp_dtor :: "'a process \<Rightarrow> 'a process option" where
  "pp_dtor s =
     (case (if running (pool s) then pp_join (pp_tell_stop s) else Some s) of
        None \<Rightarrow> None
      | Some s1 \<Rightarrow> Some (if list_ex (\<lambda>b. b) (joinable s1) then s1\<lparr>fate := Terminated\<rparr> else s1))"

inductive process_step :: "('a \<Rightarrow> thrown option) \<Rightarrow> 'a process \<Rightarrow> 'a process \<Rightarrow> bool" for throws where
  submit: "fate s = Alive \<Longrightarrow> pp_run throws task s = Some s' \<Longrightarrow> process_step throws s s'"
| thread: "fate s = Alive \<Longrightarrow> i < length (workers (pool s)) \<Longrightarrow> pp_thread throws i s = Some s' \<Longrightarrow> process_step throws s s'"
| tell: "fate s = Alive \<Longrightarrow> process_step throws s (pp_tell_stop s)"
| wait: "fate s = Alive \<Longrightarrow> \<not> running (pool s) \<Longrightarrow> pp_join s = Some s' \<Longrightarrow> process_step throws s s'"

section \<open>The process refines the pool\<close>

lemma ends_with_pool [simp]: "pool (ends_with x s) = pool s" "fate (ends_with x s) \<noteq> Alive"
  by (simp_all add: ends_with_def catch_clause_def split: thrown.splits)

lemma call_here_pool [simp]: "pool (call_here throws task s) = pool s"
  by (simp add: call_here_def)

lemma process_step_pool: "process_step throws s s' \<Longrightarrow> pool s' = pool s \<or> pool_step (pool s) (pool s')"
proof (induction rule: process_step.induct)
  case (submit s task s')
  then show ?case by (auto simp: pp_run_def intro: pool_step.submit split: option.splits if_splits)
next
  case (thread s i s')
  then show ?case
    by (auto simp: pp_thread_def intro: pool_step.work split: if_splits option.splits worker.splits)
next
  case (tell s)
  then show ?case by (simp add: pp_tell_stop_def pool_step.stop)
next
  case (wait s s')
  then show ?case by (auto simp: pp_join_def split: if_splits)
qed

definition process_reach :: "('a \<Rightarrow> thrown option) \<Rightarrow> 'a process \<Rightarrow> 'a process \<Rightarrow> bool" where
  "process_reach throws = (process_step throws)\<^sup>*\<^sup>*"

lemma process_reach_pool: "process_reach throws s s' \<Longrightarrow> pool_reach (pool s) (pool s')"
  unfolding process_reach_def
  by (induction rule: rtranclp_induct) (auto dest: process_step_pool intro: pool_reach.intros)

section \<open>What an exception leaves\<close>

text \<open>
  While the process is alive, nothing that has run has thrown; when it is not, the last thing
  printed is what the handlers print.
\<close>

definition process_ok :: "('a \<Rightarrow> thrown option) \<Rightarrow> 'a process \<Rightarrow> bool" where
  "process_ok throws s \<longleftrightarrow> workers (pool s) \<noteq> [] \<and> list_all (\<lambda>task. throws task = None) (executed (pool s)) \<and>
     (fate s = Alive \<longrightarrow> err_lines s = []) \<and>
     (fate s = Aborted \<longrightarrow> (\<exists>x. err_lines s = fst (catch_clause (pool_name (pool s)) x)))"

lemma runInThread_frame:
  assumes "runInThread i p = Some p'"
  shows "length (workers p') = length (workers p) \<and> pool_name p' = pool_name p \<and>
    executed p' = executed p @ (case workers p ! i of Running task \<Rightarrow> [task] | _ \<Rightarrow> [])"
  using assms by (auto simp: runInThread_def tp_take_def set_worker_def split: worker.splits list.splits if_splits)

lemma process_step_ok: "process_step throws s s' \<Longrightarrow> process_ok throws s \<Longrightarrow> process_ok throws s'"
proof (induction rule: process_step.induct)
  case (submit s task s')
  then show ?case by (auto simp: process_ok_def pp_run_def tp_run_def split: if_splits)
next
  case (thread s i s')
  have ended: "process_ok throws (ends_with x s)" for x
    using thread.prems thread(1) by (auto simp: process_ok_def ends_with_def catch_clause_def split: thrown.splits)
  have ran: "process_ok throws (s\<lparr>pool := p\<rparr>)"
    if "runInThread i (pool s) = Some p" "\<And>task. workers (pool s) ! i = Running task \<Longrightarrow> throws task = None" for p
    using thread.prems runInThread_frame [OF that(1)] that(2)
    by (auto simp: process_ok_def split: worker.splits)
  have "process_ok throws (s\<lparr>begun := bs\<rparr>)" for bs using thread.prems by (simp add: process_ok_def)
  with thread(3) ended ran show ?case
    by (auto simp: pp_thread_def split: if_splits option.splits worker.splits)
next
  case (tell s)
  then show ?case by (simp add: process_ok_def pp_tell_stop_def tp_stop_def)
next
  case (wait s s')
  then show ?case by (auto simp: process_ok_def pp_join_def split: if_splits)
qed

lemma process_reach_ok: "process_reach throws s s' \<Longrightarrow> process_ok throws s \<Longrightarrow> process_ok throws s'"
  unfolding process_reach_def by (induction rule: rtranclp_induct) (auto dest: process_step_ok)

text \<open>A pool before it is started, with a bound for its queue and a thread init callback or none.\<close>

definition prepared :: "string \<Rightarrow> int \<Rightarrow> 'a option \<Rightarrow> 'a process" where
  "prepared name m cb = (process_of name)\<lparr>pool := setMaxQueueSize m (ThreadPool_ctor name), threadInitCallback := cb\<rparr>"

lemma started_ok:
  assumes "pp_start throws n (prepared name m cb) = Some s" "0 < n"
  shows "process_ok throws s" "pool_inv (pool s)" "fate s = Alive" "joinable s = replicate n True"
proof -
  obtain p where p: "tp_start n (setMaxQueueSize m (ThreadPool_ctor name)) = Some p"
    "s = (prepared name m cb)\<lparr>pool := p, begun := replicate n False, joinable := replicate n True\<rparr>"
    using assms by (auto simp: pp_start_def prepared_def split: option.splits)
  from started_inv [OF p(1) assms(2)] show "pool_inv (pool s)" by (simp add: p(2))
  show "process_ok throws s"
    using p assms(2)
    by (auto simp: process_ok_def prepared_def process_of_def tp_start_def setMaxQueueSize_def ThreadPool_ctor_def)
  show "fate s = Alive" "joinable s = replicate n True" by (simp_all add: p(2) prepared_def process_of_def)
qed

section \<open>Properties\<close>

text \<open>
  C14. Exceptions in a pool are never lost: as long as the process is alive, no task that a
  worker has finished threw, nothing was printed, and the queue has lost no task; and when a
  worker runs a task that throws, its next step prints the reason and ends the process, with
  \<^verbatim>\<open>abort\<close> for the exceptions it knows.
\<close>

theorem pool_exceptions:
  assumes "pp_start throws n (prepared name m cb) = Some s0" "0 < n" "process_reach throws s0 s" "fate s = Alive"
  shows "list_all (\<lambda>task. throws task = None) (executed (pool s)) \<and> err_lines s = [] \<and>
    taken (pool s) @ queue (pool s) = accepted (pool s) \<and>
    (\<forall>i task x. begun s ! i \<and> workers (pool s) ! i = Running task \<and> throws task = Some x \<longrightarrow>
      pp_thread throws i s = Some (ends_with x s) \<and> fate (ends_with x s) \<noteq> Alive \<and>
      err_lines (ends_with x s) = fst (catch_clause (pool_name (pool s)) x))"
proof -
  note start = started_ok [OF assms(1,2)]
  have ok: "process_ok throws s" by (rule process_reach_ok [OF assms(3) start(1)])
  have "pool_inv (pool s)" by (rule pool_reach_inv [OF process_reach_pool [OF assms(3)] start(2)])
  with ok assms(4) show ?thesis
    by (auto simp: process_ok_def pool_inv_def pp_thread_def ends_with_def catch_clause_def split: thrown.splits)
qed

text \<open>
  A pool is stopped once: after its threads were joined, the destructor does nothing more, but a
  second call of \<^verbatim>\<open>stop\<close> joins threads that were joined and ends the process.
\<close>

theorem pool_stop_twice:
  assumes "joined (pool s)" "\<not> running (pool s)" "fate s = Alive" "joinable s = replicate n True" "0 < n"
  shows "\<exists>s1. pp_join s = Some s1 \<and> fate s1 = Alive \<and> pp_dtor s1 = Some s1 \<and>
    (\<exists>s2. pp_join (pp_tell_stop s1) = Some s2 \<and> fate s2 = Terminated)"
  using assms by (simp add: pp_join_def pp_dtor_def pp_tell_stop_def list_all_iff list_ex_iff)

section \<open>Examples\<close>

text \<open>Task 7 throws, every other task returns.\<close>

definition throws7 :: "nat \<Rightarrow> thrown option" where
  "throws7 task = (if task = 7 then Some (StdException ''bad'') else None)"

definition one_thread :: "nat process" where
  "one_thread = the (pp_start throws7 1 (prepared ''p'' 0 None))"

definition running_seven :: "nat process" where
  "running_seven = one_thread\<lparr>pool := (pool one_thread)\<lparr>workers := [Running 7], accepted := [7], taken := [7]\<rparr>,
     begun := [True]\<rparr>"

lemma one_thread_simps:
  "pp_start throws7 1 (prepared ''p'' 0 None) = Some one_thread"
  "pool one_thread = \<lparr>pool_name = ''p'', queue = [], maxQueueSize = 0, running = True, workers = [Checking],
     accepted = [], taken = [], executed = []\<rparr>"
  "begun one_thread = [False]" "fate one_thread = Alive" "threadInitCallback one_thread = None"
  "err_lines one_thread = []"
  by (simp_all add: one_thread_def pp_start_def prepared_def process_of_def tp_start_def setMaxQueueSize_def
      ThreadPool_ctor_def)

lemma running_seven_reached: "process_reach throws7 one_thread running_seven"
proof -
  define s1 where "s1 = one_thread\<lparr>begun := [True]\<rparr>"
  define s2 where "s2 = s1\<lparr>pool := (pool one_thread)\<lparr>queue := [7], accepted := [7]\<rparr>\<rparr>"
  define s3 where "s3 = s1\<lparr>pool := (pool one_thread)\<lparr>queue := [7], accepted := [7], workers := [Taking]\<rparr>\<rparr>"
  have "process_step throws7 one_thread s1"
    by (rule process_step.thread [of _ 0]) (simp_all add: s1_def pp_thread_def one_thread_simps)
  moreover have "process_step throws7 s1 s2"
    by (rule process_step.submit [of _ _ 7]) (simp_all add: s1_def s2_def pp_run_def tp_run_def isFull_def one_thread_simps)
  moreover have "process_step throws7 s2 s3"
    by (rule process_step.thread [of _ 0])
      (simp_all add: s1_def s2_def s3_def pp_thread_def one_thread_simps runInThread_def set_worker_def)
  moreover have "process_step throws7 s3 running_seven"
    by (rule process_step.thread [of _ 0])
      (simp_all add: s1_def s3_def running_seven_def pp_thread_def one_thread_simps runInThread_def set_worker_def tp_take_def)
  ultimately have "(process_step throws7)\<^sup>*\<^sup>* one_thread running_seven"
    by (rule converse_rtranclp_into_rtranclp [OF _ converse_rtranclp_into_rtranclp [OF _
        converse_rtranclp_into_rtranclp [OF _ r_into_rtranclp]]])
  then show ?thesis by (simp add: process_reach_def)
qed

theorem pool_exceptions_witness:
  "err_lines (the (pp_thread throws7 0 running_seven)) = [''exception caught in ThreadPool p'', ''reason: bad'']"
proof -
  have "fate running_seven = Alive" "begun running_seven ! 0" "workers (pool running_seven) ! 0 = Running 7"
    and x: "throws7 7 = Some (StdException ''bad'')" "pool_name (pool running_seven) = ''p''"
    by (simp_all add: running_seven_def one_thread_simps throws7_def)
  with pool_exceptions [OF one_thread_simps(1) _ running_seven_reached]
  have "pp_thread throws7 0 running_seven = Some (ends_with (StdException ''bad'') running_seven) \<and>
      err_lines (ends_with (StdException ''bad'') running_seven) = fst (catch_clause ''p'' (StdException ''bad''))"
    by (metis zero_less_one)
  then show ?thesis by (simp add: catch_clause_def what_def)
qed

theorem pool_stop_twice_witness:
  "\<exists>s1. pp_join (one_thread\<lparr>pool := (pool one_thread)\<lparr>running := False, workers := [Exited]\<rparr>\<rparr>) = Some s1 \<and>
    (\<exists>s2. pp_join (pp_tell_stop s1) = Some s2 \<and> fate s2 = Terminated)"
  using pool_stop_twice [of "one_thread\<lparr>pool := (pool one_thread)\<lparr>running := False, workers := [Exited]\<rparr>\<rparr>" 1]
    started_ok(4) [OF one_thread_simps(1)]
  by (auto simp: joined_def one_thread_simps)

end
