(* ===== verification/SubPubMain.thy ===== *)
theory SubPubMain
  imports SubPub
begin

text \<open>
  \<^verbatim>\<open>main\<close> of \<^verbatim>\<open>src/examples/subpub.cc\<close>: the two ways to start the program, the subscribers,
  the publisher and its timers, and both sides put together over a whole run. The bytes of the
  clients reach the server in the order they are sent on each connection; the subscribers are
  connected before the publisher's timers expire.
\<close>

section \<open>Starting\<close>

text \<open>What \<^verbatim>\<open>getopt\<close> gives first: an option, or nothing.\<close>

datatype pattern = ClientPattern | ServerPattern | Usage

definition pattern_of :: "char option \<Rightarrow> pattern" where
  "pattern_of opt = (if opt = Some CHR ''c'' then ClientPattern else if opt = Some CHR ''s'' then ServerPattern else Usage)"

text \<open>The names of the thousand subscribers.\<close>

definition sub_names :: "string list" where
  "sub_names = map (\<lambda>i. ''sub'' @ to_string (int i + 1)) [0..<1000]"

lemma sub_names_distinct: "distinct sub_names \<and> length sub_names = 1000 \<and> ''pub'' \<notin> set sub_names"
proof -
  have "inj (\<lambda>i :: nat. ''sub'' @ to_string (int i + 1))"
    by (rule injI) (auto simp: to_string_def dest!: nat_to_string_inj)
  then show ?thesis
    unfolding sub_names_def distinct_map by (auto intro: inj_on_subset simp del: upt_rec_numeral)
qed

section \<open>The publisher\<close>

text \<open>
  \<^verbatim>\<open>g_publishConn\<close> is set when the publisher is connected. A timer that expires before that
  calls through a null pointer.
\<close>

definition onClientConnection2 :: "bool \<Rightarrow> conn_id \<Rightarrow> conn_id option \<Rightarrow> conn_id option" where
  "onClientConnection2 up c g = (if up then Some c else g)"

datatype tick = Tick4 | Tick6

definition publisher_tick :: "conn_id option \<Rightarrow> tick \<Rightarrow> user_action list option" where
  "publisher_tick g k =
     (case g of None \<Rightarrow> None
      | Some c \<Rightarrow> Some [ASend c ((case k of Tick4 \<Rightarrow> ''pub:foo hello'' | Tick6 \<Rightarrow> ''pub:bar world'') @ CR_LF)])"

lemma early_tick_crashes: "publisher_tick None k = None"
  by (simp add: publisher_tick_def)

text \<open>What a message must be for the assertions in \<^verbatim>\<open>onClientMessage\<close>.\<close>

definition client_assert :: "string \<times> string \<Rightarrow> bool" where
  "client_assert p =
     (if fst p = ''foo'' then snd p = ''hello'' else if fst p = ''bar'' then snd p = ''world'' else True)"

section \<open>A run\<close>

text \<open>The bytes of the actions on a connection, in order.\<close>

definition bytes_to :: "conn_id \<Rightarrow> user_action list \<Rightarrow> string" where
  "bytes_to c as = concat (map (\<lambda>a. case a of ASend d bs \<Rightarrow> if d = c then bs else [] | _ \<Rightarrow> []) as)"

definition content :: "tick \<Rightarrow> string \<times> string" where
  "content k = (case k of Tick4 \<Rightarrow> (''foo'', ''hello'') | Tick6 \<Rightarrow> (''bar'', ''world''))"

text \<open>
  The reads of the server: each subscriber's two messages, then what the publisher sends as
  its timers expire.
\<close>

definition sends_of_actions :: "user_action list \<Rightarrow> (conn_id \<times> string) list" where
  "sends_of_actions as = concat (map (\<lambda>a. case a of ASend d bs \<Rightarrow> [(d, bs)] | _ \<Rightarrow> []) as)"

definition demo_reads :: "conn_id list \<Rightarrow> conn_id \<Rightarrow> tick list \<Rightarrow> (conn_id \<times> string) list" where
  "demo_reads cs p ks =
     concat (map (\<lambda>c. sends_of_actions (onClientConnection True c)) cs) @
     concat (map (\<lambda>k. sends_of_actions (the (publisher_tick (onClientConnection2 True p None) k))) ks)"

definition all_up :: "conn_id list \<Rightarrow> subpub" where
  "all_up cs = \<lparr>subscribers = Map.empty, topics = (\<lambda>c. if c \<in> set cs then Some {} else None)\<rparr>"

lemma foo_bar:
  "trimmed ''foo''" "plain ''foo''" "line_len_ok (sub_line ''foo'')" "trimmed ''bar''" "plain ''bar''"
  "line_len_ok (sub_line ''bar'')" "sub_line ''foo'' = ''sub:foo''" "sub_line ''bar'' = ''sub:bar''"
  by (simp_all add: trimmed_def plain_def line_len_ok_def sub_line_def blank_def)

lemma client_sends: "sends_of_actions (onClientConnection True c) = [(c, sub_line ''foo'' @ CR_LF), (c, sub_line ''bar'' @ CR_LF)]"
  by (simp add: sends_of_actions_def onClientConnection_def sub_line_def)

lemma demo_subs:
  assumes "list_all (\<lambda>c. topics s c \<noteq> None) cs"
  shows "\<exists>s'. sp_reads no_bytes (concat (map (\<lambda>c. sends_of_actions (onClientConnection True c)) cs) @ evs) s =
      sp_reads no_bytes evs s' \<and>
    conns_at ''foo'' s' = conns_at ''foo'' s @ cs \<and> conns_at ''bar'' s' = conns_at ''bar'' s @ cs"
  using assms
proof (induction cs arbitrary: s)
  case (Cons c cs)
  then obtain ts where ts: "topics s c = Some ts" by auto
  define s1 where "s1 = s\<lparr>topics := (topics s)(c \<mapsto> insert ''foo'' ts),
    subscribers := (subscribers s)(''foo'' \<mapsto> conns_at ''foo'' s @ [c])\<rparr>"
  define s2 where "s2 = s1\<lparr>topics := (topics s1)(c \<mapsto> insert ''bar'' (insert ''foo'' ts)),
    subscribers := (subscribers s1)(''bar'' \<mapsto> conns_at ''bar'' s1 @ [c])\<rparr>"
  have ts1: "topics s1 c = Some (insert ''foo'' ts)" by (simp add: s1_def)
  have reads: "sp_reads no_bytes (concat (map (\<lambda>c. sends_of_actions (onClientConnection True c)) (c # cs)) @ evs) s =
      sp_reads no_bytes (concat (map (\<lambda>c. sends_of_actions (onClientConnection True c)) cs) @ evs) s2"
    unfolding list.map concat.simps client_sends append.simps
    by (simp only: sp_reads_sub [OF foo_bar(1-3) ts, folded s1_def] sp_reads_sub [OF foo_bar(4-6) ts1, folded s2_def])
  have "list_all (\<lambda>c. topics s2 c \<noteq> None) cs" using Cons.prems by (auto simp: s2_def s1_def list_all_iff)
  from Cons.IH [OF this] obtain s' where IH:
    "sp_reads no_bytes (concat (map (\<lambda>c. sends_of_actions (onClientConnection True c)) cs) @ evs) s2 = sp_reads no_bytes evs s'"
    "conns_at ''foo'' s' = conns_at ''foo'' s2 @ cs" "conns_at ''bar'' s' = conns_at ''bar'' s2 @ cs"
    by blast
  moreover have "conns_at ''foo'' s2 = conns_at ''foo'' s @ [c]" "conns_at ''bar'' s2 = conns_at ''bar'' s @ [c]"
    by (simp_all add: s2_def s1_def conns_at_def)
  ultimately show ?case using reads by (intro exI [of _ s']) (simp del: list.map concat.simps)
qed auto

lemma demo_tick:
  assumes "conns_at ''foo'' s = cs" "conns_at ''bar'' s = cs" "cs \<noteq> []"
  shows "sp_reads no_bytes (sends_of_actions (the (publisher_tick (Some p) k)) @ evs) s =
    map_option (\<lambda>(as, e). (map (\<lambda>c. ASend c (pushed (content k) @ CR_LF)) cs @ as, e)) (sp_reads no_bytes evs s)"
proof -
  obtain t m where tm: "content k = (t, m)" by (cases "content k")
  have ok: "trimmed t" "CHR '' '' \<notin> set t" "trimmed m" "line_len_ok (pub_line t m)" "plain (pub_line t m)"
    and subs: "subscribers s t = Some cs"
    and line: "sends_of_actions (the (publisher_tick (Some p) k)) = [(p, pub_line t m @ CR_LF)]"
    using tm assms
    by (auto simp: content_def trimmed_def plain_def line_len_ok_def pub_line_def blank_def conns_at_def
        publisher_tick_def sends_of_actions_def split: tick.splits option.splits)
  have "onServerMessage p (pub_line t m @ CR_LF) s = (map (\<lambda>c. ASend c (t @ '':'' @ m @ CR_LF)) cs, SpDone s [])"
    using onServerMessage_line [of "pub_line t m" p "[]" s] ok(4,5) pub_command [OF ok(1-3) subs ok(4), of p]
    by (simp add: line_len_ok_def onServerMessage_Nil)
  then show ?thesis by (simp add: line tm pushed_def split: option.split)
qed

lemma demo_ticks:
  assumes "conns_at ''foo'' s = cs" "conns_at ''bar'' s = cs" "cs \<noteq> []"
  shows "\<exists>e. sp_reads no_bytes (concat (map (\<lambda>k. sends_of_actions (the (publisher_tick (Some p) k))) ks)) s =
    Some (concat (map (\<lambda>k. map (\<lambda>c. ASend c (pushed (content k) @ CR_LF)) cs) ks), e)"
  by (induction ks) (auto simp: demo_tick [OF assms])

lemma bytes_to_all:
  "distinct cs \<Longrightarrow> c \<in> set cs \<Longrightarrow> bytes_to c (map (\<lambda>c. ASend c bs) cs) = bs"
proof (induction cs)
  case (Cons d cs)
  have "bytes_to c (map (\<lambda>c. ASend c bs) cs) = []" if "c \<notin> set cs" for cs
    using that by (induction cs) (auto simp: bytes_to_def)
  with Cons show ?case by (auto simp: bytes_to_def)
qed simp

lemma bytes_to_concat: "bytes_to c (concat ass) = concat (map (bytes_to c) ass)"
  by (induction ass) (simp_all add: bytes_to_def)

text \<open>
  C27. The publish-and-subscribe program, both sides together: any number of subscribers and
  one publisher whose timers expire in any order; the server sends every subscriber one line
  for each expiry, in order, and the handler of each subscriber gets exactly the topics and
  contents that were published, in order, so that its assertions hold, and returns with an
  empty buffer; a subscriber counts one message per expiry.
\<close>

theorem subpub_run:
  assumes "distinct cs" "c \<in> set cs"
  shows "\<exists>as s' bufs. sp_reads no_bytes (demo_reads cs p ks) (all_up cs) = Some (as, s', bufs) \<and>
    onClientMessage (bytes_to c as) = Some (ClientDone (map content ks) []) \<and>
    list_all client_assert (map content ks)"
proof -
  have up: "list_all (\<lambda>c. topics (all_up cs) c \<noteq> None) cs" by (simp add: all_up_def list_all_iff)
  obtain s1 where s1: "sp_reads no_bytes (demo_reads cs p ks) (all_up cs) =
        sp_reads no_bytes (concat (map (\<lambda>k. sends_of_actions (the (publisher_tick (Some p) k))) ks)) s1"
      "conns_at ''foo'' s1 = cs" "conns_at ''bar'' s1 = cs"
    using demo_subs [OF up] by (auto simp: demo_reads_def onClientConnection2_def all_up_def conns_at_def)
  define as where "as = concat (map (\<lambda>k. map (\<lambda>c. ASend c (pushed (content k) @ CR_LF)) cs) ks)"
  have "\<exists>s' bufs. sp_reads no_bytes (demo_reads cs p ks) (all_up cs) = Some (as, s', bufs)"
  proof -
    have "cs \<noteq> []" using assms(2) by auto
    from demo_ticks [OF s1(2,3) this, of p ks] show ?thesis unfolding s1(1) as_def by auto
  qed
  moreover have "bytes_to c as = concat (map (\<lambda>x. pushed x @ CR_LF) (map content ks))"
    by (simp add: as_def bytes_to_concat comp_def bytes_to_all [OF assms])
  moreover have "list_all pushed_ok (map content ks)"
    by (auto simp: list_all_iff content_def pushed_ok_def trimmed_def plain_def blank_def line_len_ok_def pushed_def
        split: tick.split)
  ultimately have "\<exists>s' bufs. sp_reads no_bytes (demo_reads cs p ks) (all_up cs) = Some (as, s', bufs) \<and>
      onClientMessage (bytes_to c as) = Some (ClientDone (map content ks) [])"
    using client_receives [of "map content ks" "[]"] by simp
  moreover have "list_all client_assert (map content ks)"
    by (auto simp: list_all_iff client_assert_def content_def split: tick.split)
  ultimately show ?thesis by blast
qed

theorem subpub_run_witness:
  "\<exists>as s' bufs. sp_reads no_bytes (demo_reads [3, 2] 9 [Tick4, Tick6, Tick4]) (all_up [3, 2]) = Some (as, s', bufs) \<and>
    onClientMessage (bytes_to 2 as) = Some (ClientDone [(''foo'', ''hello''), (''bar'', ''world''), (''foo'', ''hello'')] [])"
  using subpub_run [of "[3, 2]" 2 9 "[Tick4, Tick6, Tick4]"] by (auto simp: content_def)

end
