(* ===== verification/Host.thy ===== *)
theory Host
  imports Link ConnOwner
begin

text \<open>
  The program around a connection: its loops, their queues of tasks, and the server or client
  that owns the connection. Every callback and task of such a program either leaves connection
  \<open>d\<close> alone or is one of the acts of \<open>Link\<close> on it, and what waits in the queues stays well
  formed. The contract of the owner is a locale.
\<close>

section \<open>What leaves a connection alone\<close>

definition concerns :: "conn_id \<Rightarrow> task \<Rightarrow> bool" where
  "concerns d f \<longleftrightarrow>
     (case f of SendInLoop c _ \<Rightarrow> c = d | ShutdownInLoop c \<Rightarrow> c = d | HandleClose c \<Rightarrow> c = d | WriteComplete c \<Rightarrow> c = d
      | ConnectEstablished c \<Rightarrow> c = d | ConnectDestroyed c \<Rightarrow> c = d | RemoveConnectionInLoop c \<Rightarrow> c = d
      | SetCloseCallback c \<Rightarrow> c = d | _ \<Rightarrow> False)"

definition queues_by :: "(task \<Rightarrow> bool) \<Rightarrow> 'z net_world_scheme \<Rightarrow> 'z net_world_scheme \<Rightarrow> bool" where
  "queues_by ok w w' \<longleftrightarrow> (\<forall>l. \<exists>fs. taskQueue (loops w' l) = taskQueue (loops w l) @ fs \<and> list_all ok fs)"

definition beside :: "conn_id \<Rightarrow> 'z net_world_scheme \<Rightarrow> 'z net_world_scheme \<Rightarrow> bool" where
  "beside d w w' \<longleftrightarrow> conns w' d = conns w d \<and> ch_events (chan_of d w') = ch_events (chan_of d w) \<and>
     (\<exists>es. trace w' = trace w @ es \<and> list_all (\<lambda>e. \<not> about d e) es) \<and> queues_by (\<lambda>f. \<not> concerns d f) w w'"

lemma queues_by_refl [simp]: "queues_by ok w w"
  by (simp add: queues_by_def)

lemma queues_by_trans:
  assumes "queues_by ok u v" "queues_by ok v w"
  shows "queues_by ok u w"
  unfolding queues_by_def
proof
  fix l
  obtain fs gs where "taskQueue (loops v l) = taskQueue (loops u l) @ fs" "list_all ok fs"
    "taskQueue (loops w l) = taskQueue (loops v l) @ gs" "list_all ok gs"
    using assms unfolding queues_by_def by blast
  then show "\<exists>fs. taskQueue (loops w l) = taskQueue (loops u l) @ fs \<and> list_all ok fs"
    by (intro exI [of _ "fs @ gs"]) simp
qed

lemma queues_by_mono: "queues_by ok w w' \<Longrightarrow> (\<And>f. ok f \<Longrightarrow> ok' f) \<Longrightarrow> queues_by ok' w w'"
  unfolding queues_by_def list_all_iff by blast

lemma queues_by_same: "(\<And>l. taskQueue (loops w' l) = taskQueue (loops w l)) \<Longrightarrow> queues_by ok w w'"
  by (simp add: queues_by_def)

lemma queues_by_push: "ok f \<Longrightarrow> queues_by ok w (pushTask l f w)"
  by (simp add: queues_by_def effect)

lemma beside_refl [simp]: "beside d w w"
  by (simp add: beside_def)

lemma beside_trans: "beside d u v \<Longrightarrow> beside d v w \<Longrightarrow> beside d u w"
  unfolding beside_def by (auto intro: queues_by_trans)

text \<open>One more step behind others that leave the connection alone.\<close>

lemma beside_more:
  assumes "beside d v w" "conns w' d = conns w d" "ch_events (chan_of d w') = ch_events (chan_of d w)"
    "trace w' = trace w" "\<And>l. taskQueue (loops w' l) = taskQueue (loops w l)"
  shows "beside d v w'"
  by (rule beside_trans [OF assms(1)]) (use assms in \<open>simp add: beside_def queues_by_same\<close>)

lemma beside_events [intro!]:
  "beside d v w \<Longrightarrow> ch \<noteq> ConnChan d \<Longrightarrow> beside d v (set_events g ch w)"
  "beside d v w \<Longrightarrow> beside d v (remove_chan ch w)"
  by (rule beside_more; (simp add: effect frame)?)+

lemma beside_intros [intro!]:
  assumes "beside d v w"
  shows "beside d v (check b x w)" "beside d v (assertInLoopThread l w)" "beside d v (pop_reply w)"
    "beside d v (wakeup l w)" "beside d v (quit_loop l w)" "beside d v (handleRead l w)"
    "beside d v (w\<lparr>replies := rs\<rparr>)" "beside d v (w\<lparr>self := t\<rparr>)"
    "(\<And>x. ch_events (h x) = ch_events x) \<Longrightarrow> beside d v (upd_chan ch h w)"
    "(\<And>L. taskQueue (g L) = taskQueue L) \<Longrightarrow> beside d v (upd_loop l g w)"
    "c \<noteq> d \<Longrightarrow> beside d v (upd_conn c k w)" "c \<noteq> d \<Longrightarrow> beside d v (conn_setState s c w)"
  by (rule beside_more [OF assms]; simp add: frame handleRead_def upd_loop_def)+

lemma beside_log: "beside d v w \<Longrightarrow> \<not> about d e \<Longrightarrow> beside d v (log e w)"
  by (rule beside_trans) (auto simp: beside_def queues_by_same)

lemma beside_push: "beside d v w \<Longrightarrow> \<not> concerns d f \<Longrightarrow> beside d v (pushTask l f w)"
  by (rule beside_trans) (auto simp: beside_def frame queues_by_push)

lemmas concerns_simps [simp] = concerns_def [of d "SendInLoop _ _" for d, simplified]
  concerns_def [of d "ShutdownInLoop _" for d, simplified] concerns_def [of d "HandleClose _" for d, simplified]
  concerns_def [of d "WriteComplete _" for d, simplified] concerns_def [of d "ConnectEstablished _" for d, simplified]
  concerns_def [of d "ConnectDestroyed _" for d, simplified] concerns_def [of d "RemoveConnectionInLoop _" for d, simplified]
  concerns_def [of d "SetCloseCallback _" for d, simplified] concerns_def [of d AcceptorListen for d, simplified]
  concerns_def [of d ConnectorStartInLoop for d, simplified] concerns_def [of d ConnectorStopInLoop for d, simplified]
  concerns_def [of d ConnectorResetChannel for d, simplified]

lemma beside_events_of [intro!]:
  assumes "beside d v w" "c \<noteq> d"
  shows "beside d v (log (Created c) w)" "beside d v (log (Sent c bs) w)" "beside d v (log (HalfClosed c) w)"
    "beside d v (log (Taken c bs) w)" "beside d v (log (GivenUp c bs) w)" "beside d v (log (ConnCalled c up) w)"
    "beside d v (log (MessageCalled c t) w)" "beside d v (log (WriteCompleteCalled c) w)" "beside d v (log (CloseCalled c) w)"
  by (rule beside_log [OF assms(1)]; use assms(2) in simp)+

lemma beside_tasks_of [intro!]:
  assumes "beside d v w" "c \<noteq> d"
  shows "beside d v (pushTask l (SendInLoop c bs) w)" "beside d v (pushTask l (ShutdownInLoop c) w)"
    "beside d v (pushTask l (HandleClose c) w)" "beside d v (pushTask l (WriteComplete c) w)"
    "beside d v (pushTask l (ConnectEstablished c) w)" "beside d v (pushTask l (ConnectDestroyed c) w)"
    "beside d v (pushTask l (RemoveConnectionInLoop c) w)" "beside d v (pushTask l (SetCloseCallback c) w)"
  by (rule beside_push [OF assms(1)]; use assms(2) in simp)+

lemma beside_tasks [intro!]:
  assumes "beside d v w"
  shows "beside d v (pushTask l AcceptorListen w)" "beside d v (pushTask l ConnectorStartInLoop w)"
    "beside d v (pushTask l ConnectorStopInLoop w)" "beside d v (pushTask l ConnectorResetChannel w)"
  by (rule beside_push [OF assms]; simp)+

section \<open>Other connections\<close>

text \<open>The operations of a connection leave every other connection alone.\<close>

lemma beside_complete [intro!]: "beside d v w \<Longrightarrow> c \<noteq> d \<Longrightarrow> beside d v (pushWriteComplete c w)"
  by (auto simp: pushWriteComplete_def)

lemma beside_send [intro!]: "beside d v w \<Longrightarrow> c \<noteq> d \<Longrightarrow> beside d v (sendInLoop c data w)"
  by (auto simp: sendInLoop_def sendDirect_def Let_def chan_op_defs split: sys_result.split)

lemma beside_shut [intro!]: "beside d v w \<Longrightarrow> c \<noteq> d \<Longrightarrow> beside d v (shutdownInLoop c w)"
  by (auto simp: shutdownInLoop_def Let_def)

lemma beside_ctor [intro!]: "beside d v w \<Longrightarrow> c \<noteq> d \<Longrightarrow> beside d v (TCPConnection_ctor c l h name wc w)"
  by (rule beside_more [of d v "log (Created c) w"]) (auto simp: TCPConnection_ctor_def)

fun action_on :: "user_action \<Rightarrow> conn_id option" where
  "action_on (ASend c data) = Some c"
| "action_on (AShutdown c) = Some c"
| "action_on (AForceClose c) = Some c"
| "action_on (ASetBuffer c bs) = Some c"
| "action_on (AQuit l) = None"

lemma beside_action [intro!]: "beside d v w \<Longrightarrow> action_on a \<noteq> Some d \<Longrightarrow> beside d v (run_action a w)"
  by (cases a) (auto simp: run_action_def conn_send_def runTask_def shutdown_def forceClose_def)

lemma beside_actions [intro!]:
  "beside d v w \<Longrightarrow> list_all (\<lambda>a. action_on a \<noteq> Some d) as \<Longrightarrow> beside d v (fold run_action as w)"
  by (induction as arbitrary: w) auto

lemma says_other: "list_all (says_on P c) as \<Longrightarrow> c \<noteq> d \<Longrightarrow> list_all (\<lambda>a. action_on a \<noteq> Some d) as"
  by (auto simp: list_all_iff says_on_def)

definition apart :: "conn_id \<Rightarrow> 'z net_world_scheme \<Rightarrow> 'z net_world_scheme \<Rightarrow> bool" where
  "apart d w w' \<longleftrightarrow> beside d w w' \<and> (conn_inv w \<longrightarrow> conn_inv w')"

lemma apart_aside: "apart d w w' \<Longrightarrow> aside d w w'"
  by (auto simp: apart_def beside_def aside_def)

lemma apart_trans: "apart d u v \<Longrightarrow> apart d v w \<Longrightarrow> apart d u w"
  by (auto simp: apart_def intro: beside_trans)

section \<open>The queues\<close>

text \<open>
  A task that waits for connection \<open>d\<close>: data to send are a message, a task other than the one
  that establishes the connection comes after it was established, and one that removes or
  destroys it waits only when the connection is closed for good.
\<close>

definition closed :: "conn_id \<Rightarrow> 'z net_world_scheme \<Rightarrow> bool" where
  "closed d w \<longleftrightarrow> conn_state (conns w d) = DISCONNECTED \<and> \<not> unused d w"

definition fine :: "'m proto \<Rightarrow> conn_id \<Rightarrow> 'z net_world_scheme \<Rightarrow> task \<Rightarrow> bool" where
  "fine P d w f \<longleftrightarrow> \<not> concerns d f \<or> f = ConnectEstablished d \<or>
     \<not> unused d w \<and>
     (case f of SendInLoop c data \<Rightarrow> \<exists>m. codec_ok P m \<and> data = fillEmptyBuffer P m
      | HandleClose c \<Rightarrow> False | ConnectDestroyed c \<Rightarrow> closed d w | RemoveConnectionInLoop c \<Rightarrow> closed d w
      | _ \<Rightarrow> True)"

definition host_inv :: "'m proto \<Rightarrow> conn_id \<Rightarrow> 'z net_world_scheme \<Rightarrow> bool" where
  "host_inv P d w \<longleftrightarrow> (unused d w \<longrightarrow> ch_events (chan_of d w) = NoneEvent) \<and>
     (\<forall>l. list_all (fine P d w) (taskQueue (loops w l)) \<and>
       count_list (taskQueue (loops w l)) (ConnectEstablished d) \<le>
         (if unused d w \<and> l = conn_loop (conns w d) then 1 else 0))"

definition steady :: "'m proto \<Rightarrow> conn_id \<Rightarrow> 'z net_world_scheme \<Rightarrow> 'z net_world_scheme \<Rightarrow> bool" where
  "steady P d w w' \<longleftrightarrow> unused d w' = unused d w \<and> (closed d w \<longrightarrow> closed d w') \<and>
     conn_loop (conns w' d) = conn_loop (conns w d) \<and> (unused d w \<longrightarrow> ch_events (chan_of d w') = ch_events (chan_of d w)) \<and>
     queues_by (\<lambda>f. fine P d w' f \<and> f \<noteq> ConnectEstablished d) w w'"

lemma fine_steady: "fine P d w f \<Longrightarrow> unused d w' = unused d w \<Longrightarrow> (closed d w \<Longrightarrow> closed d w') \<Longrightarrow> fine P d w' f"
  by (auto simp: fine_def split: task.splits)

lemma steady_keeps:
  assumes "host_inv P d w" "steady P d w w'"
  shows "host_inv P d w'"
  unfolding host_inv_def
proof (intro conjI allI)
  have S: "unused d w' = unused d w" "closed d w \<Longrightarrow> closed d w'" "conn_loop (conns w' d) = conn_loop (conns w d)"
    using assms(2) by (auto simp: steady_def)
  show "unused d w' \<longrightarrow> ch_events (chan_of d w') = NoneEvent" using assms by (simp add: host_inv_def steady_def)
  fix l
  obtain fs where fs: "taskQueue (loops w' l) = taskQueue (loops w l) @ fs"
    "list_all (\<lambda>f. fine P d w' f \<and> f \<noteq> ConnectEstablished d) fs"
    using assms(2) by (auto simp: steady_def queues_by_def)
  have old: "list_all (fine P d w) (taskQueue (loops w l))"
    "count_list (taskQueue (loops w l)) (ConnectEstablished d) \<le> (if unused d w \<and> l = conn_loop (conns w d) then 1 else 0)"
    using assms(1) unfolding host_inv_def by blast+
  have "count_list fs (ConnectEstablished d) = 0" using fs(2) by (auto simp: count_list_0_iff list_all_iff)
  then show "count_list (taskQueue (loops w' l)) (ConnectEstablished d) \<le>
      (if unused d w' \<and> l = conn_loop (conns w' d) then 1 else 0)"
    using old(2) by (simp add: fs(1) S)
  show "list_all (fine P d w') (taskQueue (loops w' l))"
    using old(1) fs fine_steady [OF _ S(1,2)] by (auto simp: list_all_iff)
qed

lemma trace_unused:
  assumes "\<exists>es. trace w' = trace w @ es \<and> list_all (\<lambda>e. \<not> about d e) es"
  shows "unused d w' = unused d w"
proof -
  obtain es where es: "trace w' = trace w @ es" "list_all (\<lambda>e. \<not> about d e) es" using assms by blast
  then have "Created d \<notin> set es" by (auto simp: list_all_iff)
  then show ?thesis using es by (simp add: unused_def)
qed

lemma aside_unused: "aside d w w' \<Longrightarrow> unused d w' = unused d w"
  unfolding aside_def by (elim conjE, rule trace_unused)

lemma beside_unused: "beside d w w' \<Longrightarrow> unused d w' = unused d w"
  unfolding beside_def by (elim conjE, rule trace_unused)

lemma beside_steady:
  assumes "beside d w w'"
  shows "steady P d w w'"
proof -
  have "unused d w' = unused d w" by (rule beside_unused [OF assms])
  moreover have "queues_by (\<lambda>f. fine P d w' f \<and> f \<noteq> ConnectEstablished d) w w'"
    using assms unfolding beside_def by (auto simp: fine_def elim!: queues_by_mono)
  ultimately show ?thesis using assms by (auto simp: steady_def beside_def closed_def)
qed

section \<open>Operations of the connection itself\<close>

text \<open>What is said on the connection, and the tasks this leaves.\<close>

definition own :: "'m proto \<Rightarrow> conn_id \<Rightarrow> task \<Rightarrow> bool" where
  "own P d f \<longleftrightarrow> \<not> concerns d f \<or> (\<exists>m. codec_ok P m \<and> f = SendInLoop d (fillEmptyBuffer P m)) \<or>
     f = ShutdownInLoop d \<or> f = WriteComplete d"

definition utters :: "'m proto \<Rightarrow> conn_id \<Rightarrow> 'z net_world_scheme \<Rightarrow> 'z net_world_scheme \<Rightarrow> bool" where
  "utters P d w w' \<longleftrightarrow> adds P d w w' \<and> queues_by (own P d) w w' \<and> conn_loop (conns w' d) = conn_loop (conns w d) \<and>
     (conn_state (conns w d) = DISCONNECTED \<longrightarrow> conn_state (conns w' d) = DISCONNECTED)"

lemma utters_trans: "utters P d u v \<Longrightarrow> utters P d v w \<Longrightarrow> utters P d u w"
  by (auto simp: utters_def intro: adds_trans queues_by_trans)

lemma adds_used: "adds P d w w' \<Longrightarrow> \<not> unused d w \<Longrightarrow> \<not> unused d w'"
  by (auto simp: adds_def unused_def dest!: speech_fresh)

lemma own_push: "own P d f \<Longrightarrow> queues_by (own P d) w (pushTask l f w)"
  by (rule queues_by_push)

lemma own_simps [simp]: "own P d (WriteComplete c)" "own P d (ShutdownInLoop c)"
  "codec_ok P m \<Longrightarrow> own P d (SendInLoop d (fillEmptyBuffer P m))"
  by (auto simp: own_def)

lemma own_complete: "queues_by (own P d) w (pushWriteComplete c w)"
  by (simp add: pushWriteComplete_def own_push)

lemma same_queues:
  "queues_by ok v (log e w) = queues_by ok v w" "queues_by ok v (upd_conn c g w) = queues_by ok v w"
  "queues_by ok v (pop_reply w) = queues_by ok v w" "queues_by ok v (set_events h ch w) = queues_by ok v w"
  "queues_by ok v (assertInLoopThread l w) = queues_by ok v w" "queues_by ok v (check b x w) = queues_by ok v w"
  "queues_by ok v (quit_loop l w) = queues_by ok v w" "queues_by ok v (conn_setState s c w) = queues_by ok v w"
  "queues_by ok v (upd_chan ch k w) = queues_by ok v w"
  by (simp_all add: queues_by_def frame)

lemma own_sendInLoop: "queues_by (own P d) w (sendInLoop c data w)"
  by (auto simp: sendInLoop_def sendDirect_def pushWriteComplete_def Let_def chan_op_defs same_queues
      intro: queues_by_trans [OF _ own_push] split: sys_result.splits)

lemma own_shutdownInLoop: "queues_by (own P d) w (shutdownInLoop c w)"
  by (simp add: shutdownInLoop_def Let_def same_queues)

lemma own_action:
  assumes "says_on P d a"
  shows "queues_by (own P d) w (run_action a w)"
proof -
  have "queues_by (own P d) w (conn_setState DISCONNECTING d w)" by (simp add: same_queues)
  then have "queues_by (own P d) w (shutdown d w)"
    by (auto simp: shutdown_def runTask_def intro: queues_by_trans [OF _ own_push] queues_by_trans [OF _ own_shutdownInLoop])
  then show ?thesis
    using assms by (auto simp: says_on_def run_action_def conn_send_def runTask_def own_sendInLoop own_push same_queues)
qed

lemma loop_kept: "same_owner w w' \<Longrightarrow> conn_loop (conns w' d) = conn_loop (conns w d)"
  by (simp add: same_owner_def)

lemma action_utters:
  assumes "says_on P d a"
  shows "utters P d w (run_action a w)"
proof -
  have "adds P d w (run_action a w)" using actions_talk [of P d "[a]" w] assms by (simp add: talks_def)
  then show ?thesis
    using own_action [OF assms, of w] loop_kept [of w "run_action a w" d] run_action_disconnected(1) [of w d a]
    by (auto simp: utters_def)
qed

lemma action_acts:
  assumes "says_on P d a"
  shows "acts P A d w (run_action a w)"
proof (cases a)
  case (ASend c bs)
  then obtain m where "codec_ok P m" "a = ASend d (fillEmptyBuffer P m)" using assms by (auto simp: says_on_def)
  then show ?thesis using acts.sends [of P m A d w] by (simp add: codec_send_def)
next
  case (AShutdown c)
  then show ?thesis using assms acts.shuts [of P A d w] by (simp add: says_on_def run_action_def)
next
  case (AQuit l)
  have "apart d w (quit_loop l w)" using run_action_keeps [of w "AQuit l"] by (auto simp: apart_def run_action_def)
  then show ?thesis using AQuit by (auto simp: run_action_def intro: acts.other apart_aside)
qed (use assms in \<open>simp_all add: says_on_def\<close>)

lemma utters_refl [simp]: "utters P d w w"
  using talks_refl [where P = P and c = d and w = w] by (simp add: utters_def talks_def del: talks_refl)

lemma actions_utter: "list_all (says_on P d) as \<Longrightarrow> utters P d w (fold run_action as w)"
  by (induction as arbitrary: w) (auto intro: utters_trans action_utters)

lemma log_utters: "speech P d e \<Longrightarrow> quiet e \<Longrightarrow> e \<noteq> HalfClosed d \<Longrightarrow> utters P d w (log e w)"
  using adds_quiet [where c = d and w' = "log e w" and w = w and es = "[e]" and P = P] by (simp add: utters_def conn_inv_log same_queues)

lemma buffer_utters: "utters P d w (upd_conn d (\<lambda>n. n\<lparr>recvBuffer := g n\<rparr>) w)"
  using adds_quiet [where c = d and w' = "upd_conn d (\<lambda>n. n\<lparr>recvBuffer := g n\<rparr>) w" and w = w and es = "[]" and P = P] by (simp add: utters_def same_queues)

lemma sendInLoop_utters: "codec_ok P m \<Longrightarrow> utters P d w (sendInLoop d (fillEmptyBuffer P m) w)"
proof -
  assume ok: "codec_ok P m"
  have "conn_state (conns (sendInLoop d data w) d) = DISCONNECTED" if "conn_state (conns w d) = DISCONNECTED" for data
    using that by (simp add: sendInLoop_def)
  then show ?thesis
    using sendInLoop_talks [OF ok, of d w] loop_kept [of w "sendInLoop d (fillEmptyBuffer P m) w"]
    by (simp add: utters_def talks_def own_sendInLoop)
qed

lemma shutdownInLoop_utters: "utters P d w (shutdownInLoop d w)"
  using shutdownInLoop_talks [of P d w] by (simp add: utters_def talks_def own_shutdownInLoop) (simp add: shutdownInLoop_def Let_def)

lemma shutdown_utters: "utters P d w (shutdown d w)"
  using action_utters [of P d "AShutdown d" w] by (simp add: says_on_def run_action_def)

lemma handleSend_utters: "utters P d w (handleSend d w)"
proof -
  have "queues_by (own P d) w (handleSend d w)"
    by (auto simp: handleSend_def Let_def shutdownInLoop_def same_queues chan_op_defs pushWriteComplete_def
        intro: queues_by_trans [OF _ own_push] split: sys_result.split)
  moreover have "conn_state (conns w d) = DISCONNECTED \<Longrightarrow> conn_state (conns (handleSend d w) d) = DISCONNECTED"
    by (auto simp: handleSend_def Let_def shutdownInLoop_def split: sys_result.split)
  ultimately show ?thesis
    using handleSend_talks [where P = P and c = d and w = w] loop_kept [of w "handleSend d w" d]
    by (simp add: utters_def talks_def)
qed

lemma writeCompleteCallback_utters: "utters P d w (writeCompleteCallback (codec_env P A) d w)"
  using log_utters [where P = P and d = d and e = "WriteCompleteCalled d" and w = w]
  by (simp add: writeCompleteCallback_def codec_env_def default_env_def speech_def quiet_def)

lemma own_fine: "own P d f \<Longrightarrow> \<not> unused d w \<Longrightarrow> fine P d w f \<and> f \<noteq> ConnectEstablished d"
  unfolding own_def fine_def by (elim disjE exE) auto

lemma utters_steady:
  assumes "utters P d w w'" "\<not> unused d w"
  shows "steady P d w w'"
proof -
  have used: "\<not> unused d w'" using adds_used assms by (auto simp: utters_def)
  have "queues_by (\<lambda>f. fine P d w' f \<and> f \<noteq> ConnectEstablished d) w w'"
    using assms(1) own_fine used unfolding utters_def by (blast intro: queues_by_mono)
  then show ?thesis using assms used by (auto simp: steady_def utters_def closed_def)
qed

lemmas utters_keeps = steady_keeps [OF _ utters_steady]

section \<open>Making, establishing and closing the connection\<close>

definition no_est :: "conn_id \<Rightarrow> 'z net_world_scheme \<Rightarrow> bool" where
  "no_est d w \<longleftrightarrow> (\<forall>l. ConnectEstablished d \<notin> set (taskQueue (loops w l)))"

lemma beside_no_est: "beside d w w' \<Longrightarrow> no_est d w \<Longrightarrow> no_est d w'"
  unfolding no_est_def
proof
  fix l
  assume b: "beside d w w'" and none: "\<forall>l. ConnectEstablished d \<notin> set (taskQueue (loops w l))"
  obtain fs where "taskQueue (loops w' l) = taskQueue (loops w l) @ fs" "list_all (\<lambda>f. \<not> concerns d f) fs"
    using b by (auto simp: beside_def queues_by_def)
  with none show "ConnectEstablished d \<notin> set (taskQueue (loops w' l))" by (auto simp: list_all_iff)
qed

lemma unused_fine: "unused d w \<Longrightarrow> fine P d w f \<Longrightarrow> \<not> concerns d f \<or> f = ConnectEstablished d"
  by (auto simp: fine_def)

lemma set_up_host:
  assumes "host_inv P d w" "unused d w" "no_est d w"
  shows "host_inv P d (set_up d w)" "\<not> unused d (set_up d w)"
proof -
  have q: "taskQueue (loops (set_up d w) l) = taskQueue (loops w l)" for l
    by (simp add: set_up_def chan_op_defs frame)
  show used: "\<not> unused d (set_up d w)" by (simp add: unused_def set_up_simps)
  have "fine P d (set_up d w) f" if "f \<in> set (taskQueue (loops w l))" for f l
    using that assms unused_fine [of d w P f] by (auto simp: host_inv_def list_all_iff no_est_def fine_def)
  then show "host_inv P d (set_up d w)"
    using used assms(3) by (simp add: host_inv_def q list_all_iff no_est_def count_list_0_iff)
qed

lemma host_invD: "host_inv P d w \<Longrightarrow> f \<in> set (taskQueue (loops w l)) \<Longrightarrow> fine P d w f"
  by (auto simp: host_inv_def list_all_iff)

lemma ctor_host:
  assumes "host_inv P d w" "unused d w" "no_est d w"
  shows "host_inv P d (TCPConnection_ctor d l h name wc w)" "unused d (TCPConnection_ctor d l h name wc w)"
    "no_est d (TCPConnection_ctor d l h name wc w)"
proof -
  have q: "loops (TCPConnection_ctor d l h name wc w) = loops w" by (simp add: TCPConnection_ctor_def)
  show unused: "unused d (TCPConnection_ctor d l h name wc w)" by (simp add: TCPConnection_ctor_def unused_def)
  show none: "no_est d (TCPConnection_ctor d l h name wc w)" using assms(3) by (simp add: no_est_def q)
  have "fine P d (TCPConnection_ctor d l h name wc w) f" if "f \<in> set (taskQueue (loops w k))" for f k
    using that assms(2) host_invD [OF assms(1) that] unused_fine [of d w P f] by (auto simp: fine_def)
  moreover have "ch_events (chan_of d (TCPConnection_ctor d l h name wc w)) = NoneEvent"
    by (simp add: TCPConnection_ctor_def Channel_ctor_def)
  ultimately show "host_inv P d (TCPConnection_ctor d l h name wc w)"
    using none by (simp add: host_inv_def q list_all_iff no_est_def count_list_0_iff)
qed

lemma push_est_host:
  assumes "host_inv P d w" "unused d w" "no_est d w" "l = conn_loop (conns w d)"
  shows "host_inv P d (pushTask l (ConnectEstablished d) w)"
proof -
  have "unused d (pushTask l (ConnectEstablished d) w)" using assms(2) by (simp add: unused_def)
  moreover have "fine P d (pushTask l (ConnectEstablished d) w) f" if "fine P d w f" for f
    by (rule fine_steady [OF that]) (use assms(2) in \<open>simp_all add: unused_def closed_def\<close>)
  moreover have "fine P d (pushTask l (ConnectEstablished d) w) (ConnectEstablished d)" by (simp add: fine_def)
  moreover have "count_list (taskQueue (loops w k)) (ConnectEstablished d) = 0" for k
    using assms(3) by (simp add: no_est_def count_list_0_iff)
  moreover have "ch_events (chan_of d w) = NoneEvent" using assms(1,2) by (simp add: host_inv_def)
  ultimately show ?thesis
    using assms by (auto simp: host_inv_def effect frame list_all_iff)
qed

text \<open>A task is taken from a queue.\<close>

definition taken_up :: "loop_id \<Rightarrow> task list \<Rightarrow> 'z net_world_scheme \<Rightarrow> 'z net_world_scheme" where
  "taken_up l fs w = upd_loop l (\<lambda>L. L\<lparr>taskQueue := fs, doingTask := True\<rparr>) (w\<lparr>self := threadId (loops w l)\<rparr>)"

lemma taken_up_host:
  assumes "host_inv P d w" "taskQueue (loops w l) = f # fs"
  shows "host_inv P d (taken_up l fs w)" "fine P d (taken_up l fs w) f"
    "f = ConnectEstablished d \<Longrightarrow> unused d (taken_up l fs w) \<and> no_est d (taken_up l fs w)"
proof -
  have u: "unused d (taken_up l fs w) = unused d w" "closed d (taken_up l fs w) = closed d w"
    "conns (taken_up l fs w) = conns w" "chans (taken_up l fs w) = chans w"
    by (simp_all add: taken_up_def unused_def closed_def upd_loop_def)
  have q: "taskQueue (loops (taken_up l fs w) k) = (if k = l then fs else taskQueue (loops w k))" for k
    by (simp add: taken_up_def upd_loop_def)
  have keep: "fine P d (taken_up l fs w) g" if "fine P d w g" for g
    by (rule fine_steady [OF that]) (simp_all add: u)
  have all: "list_all (fine P d w) (taskQueue (loops w k))"
    "count_list (taskQueue (loops w k)) (ConnectEstablished d) \<le> (if unused d w \<and> k = conn_loop (conns w d) then 1 else 0)" for k
    using assms(1) unfolding host_inv_def by blast+
  show "fine P d (taken_up l fs w) f" using all(1) [of l] keep by (simp add: assms(2))
  have less: "count_list fs (ConnectEstablished d) \<le> count_list (taskQueue (loops w l)) (ConnectEstablished d)"
    by (simp add: assms(2))
  have some: "list_all (fine P d w) fs" using all(1) [of l] by (simp add: assms(2))
  show "host_inv P d (taken_up l fs w)"
    unfolding host_inv_def q u
  proof (intro conjI allI)
    show "unused d w \<longrightarrow> ch_events (chan_of d w) = NoneEvent" using assms(1) by (simp add: host_inv_def)
    fix k
    show "list_all (fine P d (taken_up l fs w)) (if k = l then fs else taskQueue (loops w k))"
      using all(1) [of k] some keep by (auto simp: list_all_iff)
    show "count_list (if k = l then fs else taskQueue (loops w k)) (ConnectEstablished d) \<le>
        (if unused d w \<and> k = conn_loop (conns w d) then 1 else 0)"
      using all(2) [of k] less by auto
  qed
  show "unused d (taken_up l fs w) \<and> no_est d (taken_up l fs w)" if f: "f = ConnectEstablished d"
  proof
    have one: "0 < count_list (taskQueue (loops w l)) (ConnectEstablished d)" by (simp add: assms(2) f)
    then show "unused d (taken_up l fs w)" using all(2) [of l] by (auto simp: u split: if_splits)
    have "count_list (taskQueue (loops w k)) (ConnectEstablished d) = 0" if "k \<noteq> l" for k
      using all(2) [of k] all(2) [of l] one that by (auto split: if_splits)
    moreover have "count_list fs (ConnectEstablished d) = 0"
      using all(2) [of l] by (auto simp: assms(2) f split: if_splits)
    ultimately show "no_est d (taken_up l fs w)" by (auto simp: no_est_def q count_list_0_iff)
  qed
qed

section \<open>The owner\<close>

definition moves :: "'m proto \<Rightarrow> ('m, 'z) program \<Rightarrow> conn_id \<Rightarrow> 'z net_world_scheme \<Rightarrow> 'z net_world_scheme \<Rightarrow> bool" where
  "moves P A d w w' \<longleftrightarrow> (acts P A d)\<^sup>*\<^sup>* w w' \<and> host_inv P d w'"

lemma moves_trans: "moves P A d u v \<Longrightarrow> moves P A d v w \<Longrightarrow> moves P A d u w"
  by (auto simp: moves_def)

lemma moves_act: "acts P A d w w' \<Longrightarrow> host_inv P d w' \<Longrightarrow> moves P A d w w'"
  by (simp add: moves_def r_into_rtranclp)

lemma moves_apart: "apart d w w' \<Longrightarrow> host_inv P d w \<Longrightarrow> moves P A d w w'"
  by (rule moves_act [OF acts.other [OF apart_aside]])
    (auto simp: apart_def intro: steady_keeps beside_steady)

lemma moves_utters: "acts P A d w w' \<Longrightarrow> utters P d w w' \<Longrightarrow> host_inv P d w \<Longrightarrow> \<not> unused d w \<Longrightarrow> moves P A d w w'"
  by (auto intro: moves_act utters_keeps)

definition removal :: "conn_id \<Rightarrow> task \<Rightarrow> bool" where
  "removal d f \<longleftrightarrow> \<not> concerns d f \<or> f = ConnectDestroyed d \<or> f = RemoveConnectionInLoop d"

text \<open>
  What the owner of a connection promises of its close callback: for another connection it
  leaves \<open>d\<close> alone, and for \<open>d\<close> itself it queues at most its removal and destruction.
\<close>

locale host =
  fixes P :: "'m proto" and A :: "('m, 'z) program" and d :: conn_id
  assumes speaks: "speaks P A"
    and close_other: "c \<noteq> d \<Longrightarrow> beside d w (app_close A c w)"
    and close_keeps: "conn_inv w \<Longrightarrow> conn_inv (app_close A c w)"
    and close_own: "queues_by (removal d) w (app_close A d w)"

sublocale host < keeps_contract "codec_env P A"
  by unfold_locales (simp add: codec_env_def default_env_def close_keeps)

context host
begin

abbreviation E :: "'z net_world_scheme conn_env" where
  "E \<equiv> codec_env P A"

lemma says_message: "list_all (says_on P c) (codec_deliver (app_message A) c t out)"
  using speaks_deliver [OF speaks] by (cases out) auto

lemma says_connection: "list_all (says_on P c) (app_connection A up c)"
  using speaks by (simp add: speaks_def civil_def)

text \<open>The handlers of the other connections.\<close>

lemma other_callbacks:
  assumes "c \<noteq> d" "beside d v w"
  shows "beside d v (connectionCallback E c w)" "beside d v (messageCallback E c t w)"
    "beside d v (writeCompleteCallback E c w)"
proof -
  show "beside d v (connectionCallback E c w)"
    using assms says_other [OF says_connection assms(1)]
    by (auto simp: connectionCallback_def codec_env_def default_env_def Let_def)
  define as where "as = codec_deliver (app_message A) c t (codec_onMessage P (recvBuffer (conns w c)))"
  have "list_all (\<lambda>a. action_on a \<noteq> Some d) as" unfolding as_def by (rule says_other [OF says_message assms(1)])
  then show "beside d v (messageCallback E c t w)"
    using assms by (auto simp: messageCallback_def codec_env_def default_env_def Let_def as_def [symmetric])
  show "beside d v (writeCompleteCallback E c w)"
    using assms by (auto simp: writeCompleteCallback_def codec_env_def default_env_def Let_def)
qed

lemma other_close: "c \<noteq> d \<Longrightarrow> beside d v w \<Longrightarrow> beside d v (onClose E c w)"
  using close_other by (auto simp: codec_env_def default_env_def intro: beside_trans)

lemma other_handleClose: "c \<noteq> d \<Longrightarrow> beside d v w \<Longrightarrow> beside d v (handleClose E c w)"
  unfolding handleClose_def Let_def chan_op_defs by (intro other_close other_callbacks beside_events_of beside_events) auto

lemma other_handleRecv: "c \<noteq> d \<Longrightarrow> beside d v w \<Longrightarrow> beside d v (handleRecv E c t w)"
  by (auto simp: handleRecv_def Let_def handleError_def split: prod.split sys_result.split
      intro!: other_callbacks other_handleClose)

lemma other_handleSend: "c \<noteq> d \<Longrightarrow> beside d v w \<Longrightarrow> beside d v (handleSend c w)"
  by (auto simp: handleSend_def Let_def chan_op_defs split: sys_result.split)

lemma other_established: "c \<noteq> d \<Longrightarrow> beside d v w \<Longrightarrow> beside d v (connectEstablished E c w)"
  unfolding connectEstablished_def Let_def chan_op_defs by (intro other_callbacks) (auto simp: tie_def)

lemma other_destroyed: "c \<noteq> d \<Longrightarrow> beside d v w \<Longrightarrow> beside d v (connectDestroyed E c w)"
  by (auto simp: connectDestroyed_def Let_def chan_op_defs intro!: other_callbacks)

lemma other_exec: "\<not> concerns d f \<Longrightarrow> beside d v w \<Longrightarrow> beside d v (exec_conn E f w)"
  by (cases f) (auto simp: exec_conn_def intro!: other_callbacks other_handleClose other_established other_destroyed)

lemma other_apart:
  assumes "c \<noteq> d"
  shows "apart d w (handleRecv E c t w)" "apart d w (handleSend c w)" "apart d w (handleClose E c w)"
    "apart d w (handleError c w)" "apart d w (connectEstablished E c w)"
  using assms
  by (auto simp: apart_def handleRecv_keeps handleSend_keeps handleClose_keeps connectEstablished_keeps handleError_def
      intro!: other_handleRecv other_handleSend other_handleClose other_established)

lemma exec_apart: "\<not> concerns d f \<Longrightarrow> apart d w (exec_conn E f w)"
  by (auto simp: apart_def exec_conn_keeps intro!: other_exec)

text \<open>The handlers of the connection itself.\<close>

lemma established_host:
  assumes "host_inv P d w" "unused d w" "no_est d w"
  shows "moves P A d w (connectEstablished E d w)"
proof -
  have run: "connectEstablished E d w = fold run_action (app_connection A True d) (set_up d w)"
    by (simp add: connectEstablished_def connectionCallback_def codec_env_def Let_def set_up_def connected_def)
  have "host_inv P d (connectEstablished E d w)"
    unfolding run by (rule utters_keeps [OF set_up_host(1) [OF assms] actions_utter [OF says_connection] set_up_host(2) [OF assms]])
  then show ?thesis by (rule moves_act [OF acts.established [OF assms(2)]])
qed

lemma message_utters: "utters P d w (messageCallback E d t w)"
proof -
  define as where "as = codec_deliver (app_message A) d t (codec_onMessage P (recvBuffer (conns w d)))"
  define r where "r = snd (snd (codec_onMessage P (recvBuffer (conns w d))))"
  have run: "messageCallback E d t w =
      upd_conn d (\<lambda>n. n\<lparr>recvBuffer := r\<rparr>) (fold run_action as (log (MessageCalled d t) w))"
    by (simp add: messageCallback_def Let_def codec_env_def as_def r_def run_action_def)
  have "utters P d w (log (MessageCalled d t) w)" by (rule log_utters) (simp_all add: speech_def quiet_def)
  from utters_trans [OF this utters_trans [OF actions_utter buffer_utters]] show ?thesis
    unfolding run by (simp add: as_def says_message)
qed

definition polled :: "'z net_world_scheme \<Rightarrow> 'z net_world_scheme" where
  "polled w = pop_reply (check (isRecving (chan_of d w)) NotRecving (assertInLoopThread (conn_loop (conns w d)) w))"

lemma polled_steady: "steady P d w (polled w)"
  by (rule beside_steady) (auto simp: polled_def)

lemma recv_host:
  assumes "host_inv P d w" "\<not> unused d w"
    and "(\<exists>n. next_reply w = Done n bs \<and> bs \<noteq> [] \<and> length bs \<le> recv_size) \<or> (\<exists>x. next_reply w = Failed x)"
  shows "host_inv P d (handleRecv E d t w) \<and> \<not> unused d (handleRecv E d t w)"
proof -
  have used: "\<not> unused d (polled w)" using polled_steady assms(2) by (simp add: steady_def)
  have inv: "host_inv P d (polled w)" by (rule steady_keeps [OF assms(1) polled_steady])
  have "\<exists>bs. handleRecv E d t w = messageCallback E d t (upd_conn d (\<lambda>n. n\<lparr>recvBuffer := recvBuffer n @ bs\<rparr>) (polled w)) \<or>
      handleRecv E d t w = polled w"
    using assms(3)
  proof (elim disjE exE conjE)
    fix n assume "next_reply w = Done n bs" "bs \<noteq> []" "length bs \<le> recv_size"
    then have "handleRecv E d t w = messageCallback E d t (upd_conn d (\<lambda>n. n\<lparr>recvBuffer := recvBuffer n @ bs\<rparr>) (polled w))"
      by (simp add: handleRecv_def Let_def reply_frame handle_recv_def polled_def min_def)
    then show ?thesis by blast
  next
    fix x assume "next_reply w = Failed x"
    then have "handleRecv E d t w = messageCallback E d t (upd_conn d (\<lambda>n. n\<lparr>recvBuffer := recvBuffer n @ []\<rparr>) (polled w)) \<or>
        handleRecv E d t w = polled w"
      by (simp add: handleRecv_def Let_def reply_frame handle_recv_def handleError_def polled_def)
    then show ?thesis by blast
  qed
  then show ?thesis
  proof (elim exE disjE)
    fix bs
    assume run: "handleRecv E d t w = messageCallback E d t (upd_conn d (\<lambda>n. n\<lparr>recvBuffer := recvBuffer n @ bs\<rparr>) (polled w))"
    have u: "utters P d (polled w) (handleRecv E d t w)"
      unfolding run by (rule utters_trans [OF buffer_utters message_utters])
    then have "\<not> unused d (handleRecv E d t w)" using used by (auto simp: utters_def dest: adds_used)
    then show ?thesis using utters_keeps [OF inv u used] by simp
  qed (simp add: inv used)
qed

lemma ended_host:
  assumes "host_inv P d w" "\<not> unused d w" "next_reply w = Done n []"
  shows "host_inv P d (handleRecv E d t w)"
proof -
  have "taskQueue (loops (set_down d w) l) = taskQueue (loops w l)" for l
    by (simp add: set_down_def chan_op_defs frame)
  moreover have "\<not> unused d (set_down d w)" "conn_state (conns (set_down d w) d) = DISCONNECTED"
    "conn_loop (conns (set_down d w) d) = conn_loop (conns w d)"
    using assms(2) by (simp_all add: unused_def set_down_simps) (simp_all add: set_down_def)
  ultimately have down: "steady P d w (set_down d w)" "closed d (set_down d w)"
    using assms(2) by (simp_all add: steady_def closed_def queues_by_same)
  define u where "u = log (CloseCalled d) (fold run_action (app_connection A False d) (set_down d w))"
  have "utters P d (set_down d w) u"
    unfolding u_def by (rule utters_trans [OF actions_utter [OF says_connection] log_utters]) (simp_all add: speech_def quiet_def)
  with down have u: "steady P d (set_down d w) u" by (auto intro: utters_steady simp: closed_def)
  with down have closed: "closed d u" by (simp add: steady_def)
  have ends: "handleRecv E d t w = app_close A d u"
    using assms(3) by (simp add: handleRecv_def Let_def reply_frame handle_recv_def handleClose_def codec_env_def
        default_env_def connectionCallback_def connected_def u_def set_down_def)
  have a: "aside d u (app_close A d u)" using speaks by (simp add: speaks_def)
  then have "unused d (app_close A d u) = unused d u" by (rule aside_unused)
  with closed a have closed': "closed d (app_close A d u)" by (simp add: closed_def aside_def)
  have "queues_by (\<lambda>f. fine P d (app_close A d u) f \<and> f \<noteq> ConnectEstablished d) u (app_close A d u)"
    by (rule queues_by_mono [OF close_own]) (use closed' in \<open>auto simp: removal_def fine_def closed_def\<close>)
  with a closed closed' have "steady P d u (app_close A d u)" by (auto simp: steady_def aside_def closed_def)
  then show ?thesis unfolding ends by (intro steady_keeps [OF steady_keeps [OF steady_keeps [OF assms(1) down(1)] u]])
qed

lemma exec_moves:
  assumes "host_inv P d w" "fine P d w f" "f = ConnectEstablished d \<Longrightarrow> unused d w \<and> no_est d w"
    and "f \<noteq> RemoveConnectionInLoop d"
  shows "moves P A d w (exec_conn E f w)"
proof (cases "concerns d f \<and> f \<noteq> ConnectEstablished d")
  case False
  then show ?thesis
    using assms(3) established_host [OF assms(1)] moves_apart [OF exec_apart assms(1)]
    by (cases "f = ConnectEstablished d") (auto simp: exec_conn_def)
next
  case True
  then have used: "\<not> unused d w" using assms(2) by (auto simp: fine_def)
  note M = moves_utters [OF _ _ assms(1) used]
  have "conn_state (conns w d) \<noteq> CONNECTED \<Longrightarrow> beside d w (connectDestroyed E d w)"
    by (auto simp: connectDestroyed_def)
  then have destroyed: "closed d w \<Longrightarrow> moves P A d w (connectDestroyed E d w)"
    using steady_keeps [OF assms(1) beside_steady] by (auto intro!: moves_act acts.destroyed simp: closed_def)
  show ?thesis
    using True assms(2,4) M [OF acts.sends_task sendInLoop_utters] M [OF acts.shuts_task shutdownInLoop_utters]
      M [OF acts.written writeCompleteCallback_utters] destroyed moves_apart [OF _ assms(1), of w]
    by (cases f) (auto simp: fine_def exec_conn_def apart_def)
qed

end

end
