(* ===== verification/Program.thy ===== *)
theory Program
  imports Host
begin

text \<open>
  The steps of a whole program with connections, a server's or a client's: events, tasks, calls
  and the kernel, interleaved in any order. Each is a sequence of steps of the party that
  connection \<open>d\<close> belongs to. What the program adds is a locale that servers and clients interpret.
\<close>

section \<open>Events on the connection's channel\<close>

text \<open>
  What the kernel has for a read: data that are under way, the end of the stream when the peer
  has hung up, or an error. What the party has heard then.
\<close>

definition arrived :: "'z net_world_scheme \<Rightarrow> bytes" where
  "arrived w = (case next_reply w of Done n bs \<Rightarrow> bs | Failed e \<Rightarrow> [])"

definition may_arrive :: "conn_id \<Rightarrow> event list \<Rightarrow> ('m, 'z) party \<Rightarrow> bool" where
  "may_arrive c tr p \<longleftrightarrow>
     (case next_reply (party_world p) of
        Done n bs \<Rightarrow> (if bs = [] then hung_up c tr (party_heard p)
                      else length bs \<le> recv_size \<and> prefix (party_heard p @ bs) (sent_bytes c tr))
      | Failed e \<Rightarrow> True)"

definition reads :: "32 word \<Rightarrow> bool" where
  "reads got \<longleftrightarrow> has got (EPOLLIN OR EPOLLPRI OR EPOLLRDHUP)"

text \<open>The connection a channel is tied to is still there.\<close>

definition attended :: "(nat \<Rightarrow> 'z net_world_scheme \<Rightarrow> bool) \<Rightarrow> conn_id \<Rightarrow> 32 word \<Rightarrow> 'z net_world_scheme \<Rightarrow> bool" where
  "attended alive d got w \<longleftrightarrow> \<not> ch_tied (chan_of d w) \<or>
     alive (ch_tie (chan_of d w)) (upd_chan (ConnChan d) (\<lambda>c. c\<lparr>ch_revents := got\<rparr>) w)"

definition hears :: "'m proto \<Rightarrow> conn_id \<Rightarrow> ('m, 'z) party \<Rightarrow> 'z net_world_scheme \<Rightarrow> ('m, 'z) party" where
  "hears P d p w' =
     (let bs = arrived (party_world p) in
      if bs = [] then p\<lparr>party_world := w'\<rparr>
      else \<lparr>party_world = w', party_heard = party_heard p @ bs,
            party_got = party_got p @ fst (codec_onMessage P (recvBuffer (conns (party_world p) d) @ bs))\<rparr>)"

lemma hears_world [simp]: "party_world (hears P d p w') = w'" "(hears P d p w')\<lparr>party_world := w''\<rparr> = hears P d p w''"
  by (simp_all add: hears_def Let_def)

lemma hears_step:
  assumes "isRecving (chan_of d (party_world p))" "may_arrive c tr p"
  shows "party_step P A d c tr p (hears P d p (handleRecv (codec_env P A) d t (party_world p)))"
proof (cases "next_reply (party_world p)")
  case (Done n bs)
  then show ?thesis
    using assms party_step.ends [where c = d and d = c and p = p and n = n and tr = tr and P = P and A = A and t = t]
      party_step.readable [where c = d and d = c and p = p and n = n and bs = bs and tr = tr and P = P and A = A and t = t]
    by (simp add: may_arrive_def hears_def arrived_def split: if_splits)
next
  case (Failed e)
  then show ?thesis
    using party_step.unreadable [where c = d and d = c and p = p and e = e and tr = tr and P = P and A = A and t = t] by (simp add: hears_def arrived_def)
qed

lemma acts_steps: "(acts P A d)\<^sup>*\<^sup>* w w' \<Longrightarrow> party_world p = w \<Longrightarrow> (party_step P A d c tr)\<^sup>*\<^sup>* p (p\<lparr>party_world := w'\<rparr>)"
proof (induction rule: rtranclp_induct)
  case base
  then show ?case by (cases p) simp
next
  case (step v w')
  have "party_step P A d c tr (p\<lparr>party_world := v\<rparr>) ((p\<lparr>party_world := v\<rparr>)\<lparr>party_world := w'\<rparr>)"
    by (rule party_step.does) (use step in simp)
  with step show ?case by simp
qed

lemma moves_steps: "moves P A d (party_world p) w' \<Longrightarrow> (party_step P A d c tr)\<^sup>*\<^sup>* p (p\<lparr>party_world := w'\<rparr>)"
  unfolding moves_def by (elim conjE) (rule acts_steps [OF _ refl])

lemma beside_moves: "beside d w w' \<Longrightarrow> (conn_inv w \<Longrightarrow> conn_inv w') \<Longrightarrow> host_inv P d w \<Longrightarrow> moves P A d w w'"
  by (rule moves_apart) (simp_all add: apart_def)

context host
begin

text \<open>The part of the guarded dispatch behind the read.\<close>

definition sends_out :: "'z net_world_scheme \<Rightarrow> 'z net_world_scheme" where
  "sends_out w = upd_chan (ConnChan d) (\<lambda>c. c\<lparr>ch_handling := False\<rparr>)
     (if has (ch_revents (chan_of d w)) EPOLLOUT then handleSend d w else w)"

lemma sends_out_moves: "host_inv P d w \<Longrightarrow> \<not> unused d w \<Longrightarrow> moves P A d w (sends_out w)"
proof -
  assume inv: "host_inv P d w" and used: "\<not> unused d w"
  have "moves P A d w (if has (ch_revents (chan_of d w)) EPOLLOUT then handleSend d w else w)"
    using moves_utters [OF acts.writable handleSend_utters inv used] beside_moves [OF beside_refl _ inv] by auto
  moreover have "moves P A d v (upd_chan (ConnChan d) (\<lambda>c. c\<lparr>ch_handling := False\<rparr>) v)" if "host_inv P d v" for v
    by (rule beside_moves [OF _ _ that]) auto
  ultimately show ?thesis unfolding sends_out_def by (blast intro: moves_trans dest: moves_def [THEN iffD1])
qed

definition dispatching :: "32 word \<Rightarrow> 'z net_world_scheme \<Rightarrow> 'z net_world_scheme" where
  "dispatching got w = upd_chan (ConnChan d) (\<lambda>c. c\<lparr>ch_handling := True\<rparr>) (upd_chan (ConnChan d) (\<lambda>c. c\<lparr>ch_revents := got\<rparr>) w)"

lemma dispatching_moves: "host_inv P d w \<Longrightarrow> moves P A d w (dispatching got w)"
  unfolding dispatching_def by (rule beside_moves) auto

lemma dispatching_simps:
  "unused d (dispatching got w) = unused d w" "next_reply (dispatching got w) = next_reply w"
  "conns (dispatching got w) = conns w" "isRecving (chan_of d (dispatching got w)) = isRecving (chan_of d w)"
  by (simp_all add: dispatching_def unused_def next_reply_def isRecving_def)

lemma dispatch_run:
  assumes "cbs (ConnChan d) = conn_cbs E d" "\<not> (has got EPOLLHUP \<and> \<not> has got EPOLLIN)"
    and "attended alive d got w"
  shows "handle_one alive cbs (ConnChan d, got, t) w =
    sends_out (if reads got then handleRecv E d t (dispatching got w) else dispatching got w)"
  using assms
  by (auto simp: handle_one_def handleEvents_def handleEventsWithGuard_def Let_def conn_cbs_def call_def handleError_def
      sends_out_def dispatching_def reads_def attended_def)

lemma dispatch_quiet:
  assumes "cbs (ConnChan d) = conn_cbs E d" "\<not> (has got EPOLLHUP \<and> \<not> has got EPOLLIN)" "\<not> reads got"
    and "host_inv P d w" "\<not> unused d w"
  shows "moves P A d w (handle_one alive cbs (ConnChan d, got, t) w)"
proof (cases "attended alive d got w")
  case True
  have m: "moves P A d w (dispatching got w)" by (rule dispatching_moves [OF assms(4)])
  then have "moves P A d (dispatching got w) (sends_out (dispatching got w))"
    using assms(5) by (intro sends_out_moves) (simp_all add: moves_def dispatching_simps)
  with m show ?thesis using assms(3) by (simp add: dispatch_run [where cbs = cbs and alive = alive, OF assms(1,2) True] moves_trans)
next
  case False
  then have "handle_one alive cbs (ConnChan d, got, t) w = upd_chan (ConnChan d) (\<lambda>c. c\<lparr>ch_revents := got\<rparr>) w"
    by (simp add: handle_one_def handleEvents_def attended_def)
  moreover have "moves P A d w (upd_chan (ConnChan d) (\<lambda>c. c\<lparr>ch_revents := got\<rparr>) w)"
    by (rule beside_moves [OF _ _ assms(4)]) auto
  ultimately show ?thesis by simp
qed

lemma dispatch_reads:
  assumes "cbs (ConnChan d) = conn_cbs E d" "\<not> (has got EPOLLHUP \<and> \<not> has got EPOLLIN)" "reads got"
    and "attended alive d got w"
    and "host_inv P d w" "isRecving (chan_of d w)" "party_world p = w" "may_arrive c tr p"
  shows "(party_step P A d c tr)\<^sup>*\<^sup>* p (hears P d p (handle_one alive cbs (ConnChan d, got, t) w)) \<and>
    host_inv P d (handle_one alive cbs (ConnChan d, got, t) w)"
proof -
  have used: "\<not> unused d w" using assms(5,6) by (auto simp: host_inv_def isRecving_def NoneEvent_def)
  define v where "v = dispatching got w"
  have v: "moves P A d w v" "\<not> unused d v" "next_reply v = next_reply w" "isRecving (chan_of d v)" "conns v = conns w"
    using dispatching_moves [OF assms(5)] used assms(6) by (simp_all add: v_def dispatching_simps)
  define p1 where "p1 = p\<lparr>party_world := v\<rparr>"
  have p1: "(party_step P A d c tr)\<^sup>*\<^sup>* p p1" unfolding p1_def by (rule moves_steps) (simp add: assms(7) v(1))
  have same: "hears P d p1 u = hears P d p u" "may_arrive c tr p1" for u
    using assms(7,8) v(3,5) by (simp_all add: p1_def hears_def arrived_def may_arrive_def Let_def split: reply.splits)
  define u where "u = handleRecv E d t v"
  have "party_step P A d c tr p1 (hears P d p u)"
    using hears_step [where d = d and p = p1 and c = c and tr = tr and P = P and A = A and t = t] same v(4) by (simp add: p1_def u_def)
  with p1 have heard: "(party_step P A d c tr)\<^sup>*\<^sup>* p (hears P d p u)" by simp
  have inv: "host_inv P d v" using v(1) by (simp add: moves_def)
  have u: "host_inv P d u \<and> \<not> unused d u"
  proof (cases "\<exists>n. next_reply v = Done n []")
    case True
    then obtain n where n: "next_reply v = Done n []" by blast
    have "talks P d (set_down d v) u" unfolding u_def by (rule handleRecv_ends [OF speaks n])
    moreover have "\<not> unused d (set_down d v)" using v(2) by (simp add: unused_def set_down_simps)
    ultimately show ?thesis
      using ended_host [OF inv v(2) n, of t] adds_used by (auto simp: u_def talks_def)
  next
    case False
    have "length bs \<le> recv_size" if "next_reply v = Done n bs" "bs \<noteq> []" for n bs
      using that assms(7,8) v(3) by (simp add: may_arrive_def split: if_splits)
    with False have "\<exists>bs. (\<exists>n. next_reply v = Done n bs \<and> bs \<noteq> [] \<and> length bs \<le> recv_size) \<or> (\<exists>x. next_reply v = Failed x)"
      by (cases "next_reply v") auto
    then show ?thesis using recv_host [OF inv v(2)] by (auto simp: u_def)
  qed
  have "moves P A d u (sends_out u)" using u by (intro sends_out_moves) simp_all
  then have "(party_step P A d c tr)\<^sup>*\<^sup>* (hears P d p u) (hears P d p (sends_out u))" "host_inv P d (sends_out u)"
    using moves_steps [where p = "hears P d p u"] by (simp_all add: moves_def)
  moreover have "handle_one alive cbs (ConnChan d, got, t) w = sends_out u"
    using assms(3) by (simp add: dispatch_run [where cbs = cbs and alive = alive, OF assms(1,2,4)] u_def v_def)
  ultimately show ?thesis using heard by simp
qed

text \<open>What a read leaves of the channel, and what the end of the stream does.\<close>

lemma dispatch_recving:
  assumes "cbs (ConnChan d) = conn_cbs E d" "reads got" "\<not> has got EPOLLHUP" "attended alive d got w"
    and "isRecving (chan_of d w)" "next_reply w = Done n bs" "bs \<noteq> []" "length bs \<le> recv_size"
  shows "isRecving (chan_of d (handle_one alive cbs (ConnChan d, got, t) w))"
proof -
  define v where "v = dispatching got w"
  define u where "u = handleRecv E d t v"
  obtain ms e r where "codec_onMessage P (recvBuffer (conns v d) @ bs) = (ms, e, r)" by (cases "codec_onMessage P (recvBuffer (conns v d) @ bs)")
  from handleRecv_codec [OF speaks this, of t] have "adds P d v u"
    using assms(6-8) by (simp add: u_def v_def dispatching_simps)
  then have "isRecving (chan_of d u)" using assms(5) by (simp add: adds_def v_def dispatching_simps)
  moreover have "handle_one alive cbs (ConnChan d, got, t) w = sends_out u"
    using assms by (simp add: dispatch_run [where cbs = cbs and alive = alive] u_def v_def)
  moreover have "isRecving (chan_of d (handleSend d u)) = isRecving (chan_of d u)"
    using handleSend_talks [of P d u] by (simp add: talks_def adds_def)
  ultimately show ?thesis by (simp add: sends_out_def isRecving_def)
qed

lemma dispatch_ends:
  assumes "cbs (ConnChan d) = conn_cbs E d" "reads got" "\<not> has got EPOLLHUP" "attended alive d got w"
    and "next_reply w = Done n []"
  shows "down d (handle_one alive cbs (ConnChan d, got, t) w)"
proof -
  define v where "v = dispatching got w"
  define u where "u = handleRecv E d t v"
  have "talks P d (set_down d v) u"
    unfolding u_def by (rule handleRecv_ends [OF speaks]) (simp add: v_def dispatching_simps assms(5))
  then have "down d u" by (auto simp: down_def talks_def adds_def set_down_simps dest!: speech_fresh)
  moreover have "down d u \<Longrightarrow> down d (handleSend d u)"
    using handleSend_talks [of P d u] by (auto simp: down_def talks_def adds_def dest!: speech_fresh)
  ultimately have "down d (sends_out u)" by (simp add: sends_out_def down_def)
  then show ?thesis using assms by (simp add: dispatch_run [where cbs = cbs and alive = alive] u_def v_def)
qed

end

text \<open>The callbacks of all other channels.\<close>

definition side_cbs :: "conn_id \<Rightarrow> (chan_id \<Rightarrow> 'w chan_callbacks) \<Rightarrow> chan_id \<Rightarrow> 'w chan_callbacks" where
  "side_cbs d cbs ch = (if ch = ConnChan d then \<lparr>recvCallback = None, sendCallback = None, closeCallback = None, errorCallback = None\<rparr> else cbs ch)"

lemma side_channel: "ch \<noteq> ConnChan d \<Longrightarrow> handle_one alive (side_cbs d cbs) (ch, got, t) w = handle_one alive cbs (ch, got, t) w"
  by (simp add: handle_one_def side_cbs_def)

section \<open>A program runs\<close>

text \<open>
  \<open>nxt\<close> names the next connection the owner makes: until then nothing has happened on it.
\<close>

definition ready :: "('z net_world_scheme \<Rightarrow> conn_id) \<Rightarrow> conn_id \<Rightarrow> 'z net_world_scheme \<Rightarrow> bool" where
  "ready nxt d w \<longleftrightarrow> (nxt w \<le> d \<longrightarrow> unused d w \<and> no_est d w)"

lemma beside_ready: "beside d w w' \<Longrightarrow> nxt w \<le> nxt w' \<Longrightarrow> ready nxt d w \<Longrightarrow> ready nxt d w'"
  using beside_unused [of d w w'] beside_no_est [of d w w'] by (auto simp: ready_def)

lemma used_ready: "ready nxt d w \<Longrightarrow> \<not> unused d w \<Longrightarrow> nxt w \<le> nxt w' \<Longrightarrow> ready nxt d w'"
  by (auto simp: ready_def)

text \<open>
  The steps of a program: an event on a channel, in the thread of the channel's loop; a task
  from the front of a loop's queue; the end of a round of tasks; a call of the owner's; a call
  of the application's on a connection, from any thread; and new answers of the kernel. On
  connection \<open>d\<close> the application says well-formed things, once it has been told of the
  connection; events come when the channel has some interest; what is read is what the link to
  connection \<open>c\<close> of the peer, with trace \<open>tr\<close>, has under way; and the kernel reports a
  hang-up together with readable input, as \<^verbatim>\<open>epoll\<close> does when a connection is not reset.
\<close>

definition in_thread :: "chan_id \<Rightarrow> 'z net_world_scheme \<Rightarrow> 'z net_world_scheme" where
  "in_thread ch w = w\<lparr>self := threadId (loops w (ch_loop (chans w ch)))\<rparr>"

lemma conn_inv_in [simp]: "conn_inv (w\<lparr>self := t\<rparr>) = conn_inv w" "conn_inv (w\<lparr>replies := rs\<rparr>) = conn_inv w"
  by (rule conn_inv_cong; simp)+

lemma in_thread_keeps: "beside d w (in_thread ch w)" "conn_inv w \<Longrightarrow> conn_inv (in_thread ch w)"
  by (auto simp: in_thread_def)

record 'z owner =
  own_cbs :: "chan_id \<Rightarrow> 'z net_world_scheme chan_callbacks"
  own_exec :: "task \<Rightarrow> 'z net_world_scheme \<Rightarrow> 'z net_world_scheme"
  own_calls :: "'z net_world_scheme \<Rightarrow> 'z net_world_scheme \<Rightarrow> bool"
  own_next :: "'z net_world_scheme \<Rightarrow> conn_id"

inductive program_turn ::
  "'m proto \<Rightarrow> 'z owner \<Rightarrow> (nat \<Rightarrow> 'z net_world_scheme \<Rightarrow> bool) \<Rightarrow> conn_id \<Rightarrow> conn_id \<Rightarrow> event list \<Rightarrow>
   ('m, 'z) party \<Rightarrow> ('m, 'z) party \<Rightarrow> bool"
  for P W alive d c tr where
  elsewhere: "ch \<noteq> ConnChan d \<Longrightarrow> program_turn P W alive d c tr p
    (p\<lparr>party_world := handle_one alive (own_cbs W) (ch, got, t) (in_thread ch (party_world p))\<rparr>)"
| event: "\<not> reads got \<Longrightarrow> \<not> (has got EPOLLHUP \<and> \<not> has got EPOLLIN) \<Longrightarrow>
    ch_events (chan_of d (party_world p)) \<noteq> NoneEvent \<Longrightarrow> program_turn P W alive d c tr p
    (p\<lparr>party_world := handle_one alive (own_cbs W) (ConnChan d, got, t) (in_thread (ConnChan d) (party_world p))\<rparr>)"
| input: "reads got \<Longrightarrow> \<not> (has got EPOLLHUP \<and> \<not> has got EPOLLIN) \<Longrightarrow>
    isRecving (chan_of d (party_world p)) \<Longrightarrow> may_arrive c tr p \<Longrightarrow>
    attended alive d got (in_thread (ConnChan d) (party_world p)) \<Longrightarrow> program_turn P W alive d c tr p
    (hears P d p (handle_one alive (own_cbs W) (ConnChan d, got, t) (in_thread (ConnChan d) (party_world p))))"
| task: "taskQueue (loops (party_world p) l) = f # fs \<Longrightarrow> program_turn P W alive d c tr p
    (p\<lparr>party_world := own_exec W f (taken_up l fs (party_world p))\<rparr>)"
| round_end: "program_turn P W alive d c tr p (p\<lparr>party_world := upd_loop l (\<lambda>L. L\<lparr>doingTask := False\<rparr>) (party_world p)\<rparr>)"
| owner: "own_calls W ((party_world p)\<lparr>self := t\<rparr>) w \<Longrightarrow> program_turn P W alive d c tr p (p\<lparr>party_world := w\<rparr>)"
| application: "action_on a \<noteq> Some d \<or> says_on P d a \<and> \<not> unused d (party_world p) \<Longrightarrow> program_turn P W alive d c tr p
    (p\<lparr>party_world := run_action a ((party_world p)\<lparr>self := t\<rparr>)\<rparr>)"
| kernel: "program_turn P W alive d c tr p (p\<lparr>party_world := (party_world p)\<lparr>replies := rs\<rparr>\<rparr>)"

text \<open>
  What makes a server or client the owner of its connections: callbacks of its other channels,
  its tasks and its calls leave connection \<open>d\<close> alone or make it, and the names of the
  connections grow.
\<close>

locale owner_program =
  fixes P :: "'m proto" and A :: "('m, 'z) program" and W :: "'z owner" and alive :: "nat \<Rightarrow> 'z net_world_scheme \<Rightarrow> bool"
  assumes own_host: "host P A d"
    and own_channel: "own_cbs W (ConnChan d) = conn_cbs (codec_env P A) d"
    and own_dispatch: "ch \<noteq> ConnChan d \<Longrightarrow> host_inv P d w \<Longrightarrow> ready (own_next W) d w \<Longrightarrow>
      moves P A d w (handle_one alive (own_cbs W) (ch, got, t) w) \<and>
      ready (own_next W) d (handle_one alive (own_cbs W) (ch, got, t) w)"
    and own_tasks: "host_inv P d w \<Longrightarrow> ready (own_next W) d w \<Longrightarrow> fine P d w f \<Longrightarrow>
      (f = ConnectEstablished d \<Longrightarrow> unused d w \<and> no_est d w \<and> d < own_next W w) \<Longrightarrow>
      moves P A d w (own_exec W f w) \<and> ready (own_next W) d (own_exec W f w)"
    and calls_aside: "own_calls W w w' \<Longrightarrow> beside d w w' \<and> (conn_inv w \<longrightarrow> conn_inv w') \<and> own_next W w \<le> own_next W w'"
    and next_grows: "own_next W w \<le> own_next W (handle_one alive (own_cbs W) (ch, got, t) w)"
    and next_same: "same_owner w w' \<Longrightarrow> own_next W w' = own_next W w"
begin

lemma self_next: "own_next W (w\<lparr>self := t\<rparr>) = own_next W w"
  by (rule next_same) simp

lemma in_thread_next: "own_next W (in_thread ch w) = own_next W w"
  by (rule next_same) (simp add: in_thread_def)

abbreviation steps :: "conn_id \<Rightarrow> conn_id \<Rightarrow> event list \<Rightarrow> ('m, 'z) party \<Rightarrow> ('m, 'z) party \<Rightarrow> bool" where
  "steps d c tr \<equiv> (party_step P A d c tr)\<^sup>*\<^sup>*"

lemma side_steps:
  assumes "host_inv P d (party_world p)" "ready (own_next W) d (party_world p)"
    and "beside d (party_world p) w" "conn_inv (party_world p) \<Longrightarrow> conn_inv w" "own_next W (party_world p) \<le> own_next W w"
  shows "steps d c tr p (p\<lparr>party_world := w\<rparr>) \<and> host_inv P d w \<and> ready (own_next W) d w"
proof -
  have m: "moves P A d (party_world p) w" by (rule beside_moves [OF assms(3,4,1)])
  then show ?thesis using moves_steps [OF m] beside_ready [OF assms(3,5,2)] by (simp add: moves_def)
qed

lemma side_turn:
  assumes "p' = p\<lparr>party_world := w\<rparr>" "host_inv P d (party_world p)" "ready (own_next W) d (party_world p)"
    and "beside d (party_world p) w" "conn_inv (party_world p) \<Longrightarrow> conn_inv w" "own_next W (party_world p) \<le> own_next W w"
  shows "steps d c tr p p' \<and> host_inv P d (party_world p') \<and> ready (own_next W) d (party_world p')"
  using side_steps [OF assms(2-6)] by (simp add: assms(1))

lemma more_steps:
  assumes "steps d c tr p (p\<lparr>party_world := v\<rparr>)" "moves P A d v w \<and> ready (own_next W) d w"
  shows "steps d c tr p (p\<lparr>party_world := w\<rparr>) \<and> host_inv P d w \<and> ready (own_next W) d w"
proof -
  have "steps d c tr (p\<lparr>party_world := v\<rparr>) ((p\<lparr>party_world := v\<rparr>)\<lparr>party_world := w\<rparr>)"
    by (rule moves_steps) (use assms(2) in simp)
  then show ?thesis using assms by (simp add: moves_def)
qed

lemma turn_party:
  assumes "program_turn P W alive d c tr p p'" and inv: "host_inv P d (party_world p)" "ready (own_next W) d (party_world p)"
  shows "steps d c tr p p' \<and> host_inv P d (party_world p') \<and> ready (own_next W) d (party_world p')"
  using assms(1)
proof cases
  case (elsewhere ch got t)
  let ?w0 = "in_thread ch (party_world p)"
  have w0: "steps d c tr p (p\<lparr>party_world := ?w0\<rparr>)" "host_inv P d ?w0" "ready (own_next W) d ?w0"
    using side_steps [OF inv in_thread_keeps(1,2), of ch] in_thread_next [of ch "party_world p"] by auto
  then show ?thesis
    using more_steps [OF w0(1)] own_dispatch [OF elsewhere(2) w0(2,3), of got t] by (simp add: elsewhere(1))
next
  case (event got t)
  let ?w0 = "in_thread (ConnChan d) (party_world p)"
  let ?w1 = "handle_one alive (own_cbs W) (ConnChan d, got, t) ?w0"
  have w0: "steps d c tr p (p\<lparr>party_world := ?w0\<rparr>)" "host_inv P d ?w0" "ready (own_next W) d ?w0"
    using side_steps [OF inv in_thread_keeps(1,2), of "ConnChan d"] in_thread_next [of "ConnChan d" "party_world p"] by auto
  have used: "\<not> unused d ?w0" using w0(2) event(4) by (auto simp: host_inv_def in_thread_def)
  from host.dispatch_quiet [where cbs = "own_cbs W" and alive = alive and t = t, OF own_host own_channel event(3,2) w0(2) used]
  have "moves P A d ?w0 ?w1" .
  moreover have "own_next W ?w0 \<le> own_next W ?w1" by (rule next_grows)
  ultimately show ?thesis using more_steps [OF w0(1), of ?w1] used_ready [OF w0(3) used, of ?w1] by (simp add: event(1))
next
  case (input got t)
  let ?w0 = "in_thread (ConnChan d) (party_world p)"
  let ?w1 = "handle_one alive (own_cbs W) (ConnChan d, got, t) ?w0"
  have w0: "steps d c tr p (p\<lparr>party_world := ?w0\<rparr>)" "host_inv P d ?w0" "ready (own_next W) d ?w0"
    using side_steps [OF inv in_thread_keeps(1,2), of "ConnChan d"] in_thread_next [of "ConnChan d" "party_world p"] by auto
  have recving: "isRecving (chan_of d ?w0)" using input(4) by (simp add: in_thread_def)
  then have used: "\<not> unused d ?w0" using w0(2) by (auto simp: host_inv_def isRecving_def NoneEvent_def)
  define p0 where "p0 = p\<lparr>party_world := ?w0\<rparr>"
  have p0: "party_world p0 = ?w0" "may_arrive c tr p0" "hears P d p0 ?w1 = hears P d p ?w1"
    using input(5) by (simp_all add: p0_def may_arrive_def hears_def arrived_def in_thread_def next_reply_def Let_def split: reply.splits list.splits)
  from host.dispatch_reads [where cbs = "own_cbs W" and t = t, OF own_host own_channel input(3,2,6) w0(2) recving p0(1,2)]
  have "steps d c tr p0 (hears P d p ?w1)" "host_inv P d ?w1" by (simp_all add: p0(3))
  moreover have "own_next W ?w0 \<le> own_next W ?w1" by (rule next_grows)
  ultimately show ?thesis using w0(1) used_ready [OF w0(3) used, of ?w1] by (simp add: input(1) p0_def)
next
  case (task l f fs)
  let ?w = "party_world p" and ?v = "taken_up l fs (party_world p)"
  have q: "taskQueue (loops ?v k) = (if k = l then fs else taskQueue (loops ?w k))" for k
    by (simp add: taken_up_def upd_loop_def)
  have same: "unused d ?v = unused d ?w" "own_next W ?v = own_next W ?w"
    by (simp add: taken_up_def unused_def, rule next_same) (simp add: taken_up_def)
  note T = taken_up_host [OF inv(1) task(2)]
  have "set fs \<subseteq> set (taskQueue (loops ?w l))" using task(2) by auto
  then have v: "ready (own_next W) d ?v" using inv(2) by (auto simp: ready_def same no_est_def q)
  have est: "d < own_next W ?v" if "f = ConnectEstablished d"
  proof (rule ccontr)
    assume "\<not> d < own_next W ?v"
    then have "no_est d ?w" using inv(2) by (simp add: ready_def same)
    then have "ConnectEstablished d \<notin> set (taskQueue (loops ?w l))" by (simp add: no_est_def)
    then show False using that task(2) by simp
  qed
  have "aside d ?w ?v" by (simp add: aside_def taken_up_def)
  then have "steps d c tr p (p\<lparr>party_world := ?v\<rparr>)" by (intro r_into_rtranclp party_step.does acts.other)
  moreover have "moves P A d ?v (own_exec W f ?v) \<and> ready (own_next W) d (own_exec W f ?v)"
    by (rule own_tasks [OF T(1) v T(2)]) (use T(3) est in auto)
  ultimately show ?thesis using more_steps by (simp add: task(1))
next
  case (round_end l)
  have "own_next W (upd_loop l (\<lambda>L. L\<lparr>doingTask := False\<rparr>) (party_world p)) = own_next W (party_world p)"
    by (rule next_same) simp
  then show ?thesis by (intro side_turn [OF round_end inv]) auto
next
  case (owner t w)
  let ?v = "(party_world p)\<lparr>self := t\<rparr>"
  have v: "beside d (party_world p) ?v" "own_next W ?v = own_next W (party_world p)"
    by (auto simp: self_next)
  then show ?thesis
    using calls_aside [OF owner(2), of d] by (intro side_turn [OF owner(1) inv]) (auto intro: beside_trans)
next
  case (application a t)
  let ?v = "(party_world p)\<lparr>self := t\<rparr>"
  have v: "steps d c tr p (p\<lparr>party_world := ?v\<rparr>) \<and> host_inv P d ?v \<and> ready (own_next W) d ?v"
    by (rule side_steps [OF inv]) (auto simp: self_next)
  have made: "own_next W (run_action a ?v) = own_next W ?v"
    by (rule next_same) simp
  from application(2) have "moves P A d ?v (run_action a ?v) \<and> ready (own_next W) d (run_action a ?v)"
  proof
    assume "action_on a \<noteq> Some d"
    then have "beside d ?v (run_action a ?v)" by (rule beside_action [OF beside_refl])
    then show ?thesis
      using v made beside_ready [of d ?v "run_action a ?v"] by (auto intro!: beside_moves run_action_keeps)
  next
    assume says: "says_on P d a \<and> \<not> unused d (party_world p)"
    then have used: "\<not> unused d ?v" by (simp add: unused_def)
    have "moves P A d ?v (run_action a ?v)"
      using says used v by (intro moves_utters action_acts action_utters) auto
    then show ?thesis using used_ready [of _ d ?v "run_action a ?v"] used v made by simp
  qed
  then show ?thesis using more_steps [of d c tr p ?v "run_action a ?v"] v by (simp add: application(1))
next
  case (kernel rs)
  have "own_next W ((party_world p)\<lparr>replies := rs\<rparr>) = own_next W (party_world p)"
    by (rule next_same) (simp add: same_owner_def)
  then show ?thesis by (intro side_turn [OF kernel inv]) auto
qed

end

end
