(* ===== verification/ServerHost.thy ===== *)
theory ServerHost
  imports Program ServerFacts
begin

text \<open>
  A server program as one end of a link: its loops and threads, the acceptor, all its other
  connections and the application, interleaved in any order. Each step of the program is a
  sequence of steps of the party that connection \<open>d\<close> belongs to.
\<close>

section \<open>The server as owner\<close>

definition server_program :: "('m, 'z srv_world_ext) program \<Rightarrow> ('m, 'z srv_world_ext) program" where
  "server_program A = A\<lparr>app_close := removeConnection\<rparr>"

lemma server_env_codec: "server_env (codec_env P A) = codec_env P (server_program A)"
  by (simp add: server_env_def codec_env_def server_program_def default_env_def)

lemma beside_srv [intro!]:
  fixes w :: "'z srv_world_scheme"
  assumes "beside d v w"
  shows "beside d v (w\<lparr>connections := cs\<rparr>)" "beside d v (w\<lparr>accepts := as\<rparr>)" "beside d v (w\<lparr>acceptHandle := h\<rparr>)"
    "beside d v (w\<lparr>nextConnId := n\<rparr>)" "beside d v (w\<lparr>threadPool := p\<rparr>)" "beside d v (w\<lparr>made := m\<rparr>)"
    "beside d v (w\<lparr>listening := b\<rparr>)"
  by (rule beside_more [OF assms]; simp)+

lemma queues_by_srv [simp]:
  fixes w :: "'z srv_world_scheme"
  shows "queues_by ok w (w\<lparr>connections := cs\<rparr>)"
  by (simp add: queues_by_same)

lemma beside_removeInLoop [intro!]: "c \<noteq> d \<Longrightarrow> beside d v w \<Longrightarrow> beside d v (removeConnectionInLoop c w)"
  by (auto simp: removeConnectionInLoop_def Let_def)

lemma own_removal:
  "queues_by (removal d) w (removeConnectionInLoop d w)"
  unfolding removeConnectionInLoop_def Let_def
  by (rule queues_by_trans [OF _ queues_by_push]) (auto simp: removal_def split: if_splits)

lemma removal_aside: "aside c w (removeConnectionInLoop d w)"
  by (simp add: aside_def removeConnectionInLoop_def Let_def frame)

lemma server_host:
  assumes "civil P A"
  shows "host P (server_program A) d"
proof
  have close: "app_close (server_program A) = removeConnection" by (simp add: server_program_def)
  show "speaks P (server_program A)"
    using assms by (auto simp: speaks_def civil_def server_program_def removeConnection_def runTask_def removal_aside)
      (simp add: aside_def frame)
  show "beside d w (app_close (server_program A) c w)" if "c \<noteq> d" for c w
    using that by (auto simp: close removeConnection_def runTask_def)
  show "conn_inv w \<Longrightarrow> conn_inv (app_close (server_program A) c w)" for c w
    by (simp add: close removeConnection_keeps)
  show "queues_by (removal d) w (app_close (server_program A) d w)" for w
    by (simp add: close removeConnection_def runTask_def own_removal queues_by_push removal_def)
qed

section \<open>New connections\<close>

interpretation srv_made: owner_inv "server_env U" "\<lambda>w. k \<le> made w" for U :: "'z srv_world_scheme conn_env" and k
proof
  show "k \<le> made w'" if "same_owner w w'" "k \<le> made w" for w w' :: "'z srv_world_scheme"
    using that by (auto simp: same_owner_def dest: more_srv)
  have rem: "made (removeConnectionInLoop c w) = made w" for c and w :: "'z srv_world_scheme"
    using more_srv(8) [OF more_net(4), of "removeConnectionInLoop c w" "if c \<in> set (connections w) then w\<lparr>connections := remove1 c (connections w)\<rparr> else w"]
    by (auto simp: removeConnectionInLoop_def Let_def frame)
  have push: "made (pushTask l f w) = made w" for l f and w :: "'z srv_world_scheme"
    by (rule more_srv, rule more_net) (simp add: frame)
  show "k \<le> made (onClose (server_env U) c w)" if "k \<le> made w" for c and w :: "'z srv_world_scheme"
    using that by (simp add: server_env_def removeConnection_def runTask_def rem push)
qed

lemma beside_added: "made w \<noteq> d \<Longrightarrow> beside d w (added l h p w)"
  unfolding added_def Let_def by (rule beside_srv) (rule beside_ctor; auto)

lemma added_moves:
  assumes "civil P A" "host_inv P d w" "unused d w" "no_est d w" "made w = d"
  shows "moves P (server_program A) d w (added l h p w)" "unused d (added l h p w)" "no_est d (added l h p w)"
proof -
  define w1 where "w1 = w\<lparr>nextConnId := nextConnId w + 1, threadPool := p, made := Suc d\<rparr>"
  define w2 where "w2 = TCPConnection_ctor d l h (connName w) (srv_hasWriteComplete w) w1"
  have added: "added l h p w = w2\<lparr>connections := connections w2 @ [d]\<rparr>"
    by (simp add: added_def Let_def w2_def w1_def assms(5))
  have b1: "beside d w w1" "apart d w w1" by (auto simp: w1_def apart_def)
  have w1: "host_inv P d w1" "unused d w1" "no_est d w1"
    using steady_keeps [OF assms(2) beside_steady [OF b1(1)]] beside_unused [OF b1(1)] assms(3,4)
    by (simp_all add: w1_def no_est_def)
  note w2 = ctor_host [OF w1, of l h "connName w" "srv_hasWriteComplete w", folded w2_def]
  have b3: "beside d w2 (added l h p w)" "apart d w2 (added l h p w)" unfolding added by (auto simp: apart_def)
  have "acts P (server_program A) d w1 w2" unfolding w2_def by (rule acts.makes [OF w1(2)])
  with moves_apart [OF b1(2) assms(2)] moves_act [OF _ w2(1)] moves_apart [OF b3(2) w2(1)]
  show "moves P (server_program A) d w (added l h p w)" by (blast intro: moves_trans)
  show "unused d (added l h p w)" using beside_unused [OF b3(1)] w2(2) by simp
  show "no_est d (added l h p w)" using w2(3) unfolding added by (simp add: no_est_def)
qed

lemma newConnection_made:
  "k \<le> made w \<Longrightarrow> k \<le> made (newConnection U h w)"
  "fst (getNextLoop (threadPool w)) = Some l \<Longrightarrow> Suc (made w) \<le> made (newConnection U h w)"
proof -
  have more: "Suc (made w) \<le> made (newConnection U h w)" if "fst (getNextLoop (threadPool w)) = Some l" for l
    unfolding newConnection_added [OF that] runTask_def
    using srv_made.connectEstablished_owner [of "Suc (made w)" "added l h (snd (getNextLoop (threadPool w))) w" U "made w"]
      more_srv(8) [OF more_net(4), of "pushTask l (ConnectEstablished (made w)) (added l h (snd (getNextLoop (threadPool w))) w)"]
    by (simp add: frame)
  then show "fst (getNextLoop (threadPool w)) = Some l \<Longrightarrow> Suc (made w) \<le> made (newConnection U h w)" .
  show "k \<le> made w \<Longrightarrow> k \<le> made (newConnection U h w)"
  proof (cases "fst (getNextLoop (threadPool w))")
    case None
    have "made (check False LoopIndexRange v) = made v" for v :: "'a srv_world_scheme"
      by (rule more_srv, rule more_net) simp
    then show "k \<le> made w \<Longrightarrow> ?thesis" by (simp add: newConnection_def None)
  next
    case (Some l)
    show "k \<le> made w \<Longrightarrow> ?thesis" using more [OF Some] by simp
  qed
qed

lemma newConnection_moves:
  assumes "civil P A" "host_inv P d w" "ready made d w"
  shows "moves P (server_program A) d w (newConnection (codec_env P A) h w) \<and> ready made d (newConnection (codec_env P A) h w)"
proof -
  note H = server_host [OF assms(1)]
  have by_side: ?thesis if b: "beside d w (newConnection (codec_env P A) h w)"
    using moves_apart [of d w "newConnection (codec_env P A) h w"] assms(2,3) beside_ready [OF b] b
    by (simp add: apart_def newConnection_keeps newConnection_made)
  show ?thesis
  proof (cases "fst (getNextLoop (threadPool w))")
    case None
    show ?thesis by (rule by_side) (auto simp: newConnection_def None)
  next
    case (Some l)
    define v where "v = added l h (snd (getNextLoop (threadPool w))) w"
    have run: "newConnection (codec_env P A) h w = runTask l (connectEstablished (codec_env P (server_program A)) (made w))
        (ConnectEstablished (made w)) v"
      by (simp add: newConnection_added [OF Some] v_def server_env_codec)
    show ?thesis
    proof (cases "made w = d")
      case False
      show ?thesis
        by (rule by_side) (use False beside_added [of w d l h] host.other_established [OF H False] in
            \<open>auto simp: run runTask_def v_def\<close>)
    next
      case True
      note V = added_moves [OF assms(1,2) _ _ True, of l h "snd (getNextLoop (threadPool w))", folded v_def]
      have new: "unused d w" "no_est d w" using assms(3) True by (simp_all add: ready_def)
      have inv: "host_inv P d v" using V(1) [OF new] by (simp add: moves_def)
      have "conn_loop (conns v d) = l" by (simp add: v_def True)
      then have "host_inv P d (pushTask l (ConnectEstablished d) v)"
        using push_est_host [OF inv V(2,3) [OF new]] by simp
      moreover have "aside d v (pushTask l (ConnectEstablished d) v)" by (simp add: aside_def frame)
      ultimately have "moves P (server_program A) d v (pushTask l (ConnectEstablished d) v)"
        by (intro moves_act [OF acts.other])
      then have "moves P (server_program A) d v (newConnection (codec_env P A) h w)"
        using host.established_host [OF H inv V(2,3) [OF new]] by (simp add: run runTask_def True)
      moreover have "ready made d (newConnection (codec_env P A) h w)"
        using newConnection_made(2) [OF Some, of "codec_env P A" h] True by (simp add: ready_def)
      ultimately show ?thesis using moves_trans [OF V(1) [OF new]] by blast
    qed
  qed
qed

section \<open>The callbacks and tasks of a server\<close>

definition served :: "'m proto \<Rightarrow> ('m, 'z srv_world_ext) program \<Rightarrow> conn_id \<Rightarrow> 'z srv_world_scheme \<Rightarrow> 'z srv_world_scheme \<Rightarrow> bool" where
  "served P A d w0 w \<longleftrightarrow> moves P (server_program A) d w0 w \<and> ready made d w"

lemma served_beside:
  "served P A d w0 w \<Longrightarrow> beside d w w' \<Longrightarrow> (conn_inv w \<Longrightarrow> conn_inv w') \<Longrightarrow> made w \<le> made w' \<Longrightarrow> served P A d w0 w'"
  using moves_apart [of d w w' P "server_program A"] moves_trans [of P "server_program A" d w0 w w']
  by (auto simp: served_def apart_def moves_def intro: beside_ready)

lemma served_moves: "served P A d w0 w \<Longrightarrow> moves P (server_program A) d w w' \<and> ready made d w' \<Longrightarrow> served P A d w0 w'"
  by (auto simp: served_def intro: moves_trans)

lemma made_frame [simp]:
  fixes w :: "'z srv_world_scheme"
  shows "made (upd_chan ch g w) = made w" "made (upd_loop l h w) = made w" "made (pushTask l f w) = made w"
    "made (handleRead l w) = made w" "made (w\<lparr>self := t\<rparr>) = made w" "made (removeConnectionInLoop c w) = made w"
    "made (enableRecv ch w) = made w" "made (assertInLoopThread l w) = made w"
proof -
  have base: "made (pushTask l f w) = made w" for l f and w :: "'z srv_world_scheme"
    by (rule more_srv, rule more_net) (simp add: frame)
  show "made (upd_chan ch g w) = made w" "made (upd_loop l h w) = made w" "made (pushTask l f w) = made w"
    "made (handleRead l w) = made w" "made (w\<lparr>self := t\<rparr>) = made w" "made (enableRecv ch w) = made w"
    "made (assertInLoopThread l w) = made w"
    by (rule more_srv, rule more_net, simp add: frame chan_op_defs)+
  show "made (removeConnectionInLoop c w) = made w" by (simp add: removeConnectionInLoop_def Let_def base)
qed

lemma accept_served:
  assumes "civil P A" "served P A d w0 w"
  shows "served P A d w0 (Acceptor_handleRecv (codec_env P A) w)"
proof -
  have side: "served P A d w0 (w\<lparr>accepts := as, acceptHandle := h\<rparr>)" for as h
    by (rule served_beside [OF assms(2)]) auto
  have "served P A d w0 (newConnection (codec_env P A) client (w\<lparr>accepts := as, acceptHandle := h\<rparr>))" for client as h
  proof -
    have "host_inv P d (w\<lparr>accepts := as, acceptHandle := h\<rparr>)" "ready made d (w\<lparr>accepts := as, acceptHandle := h\<rparr>)"
      using side [of h as] by (simp_all add: served_def moves_def)
    from served_moves [OF side newConnection_moves [OF assms(1) this]] show ?thesis .
  qed
  moreover have "served P A d w0 (w\<lparr>accepts := []\<rparr>)" by (rule served_beside [OF assms(2)]) auto
  ultimately show ?thesis
    using assms(2) side by (auto simp: Acceptor_handleRecv_def split: list.split accept_result.split)
qed

locale server_host =
  fixes P :: "'m proto" and A :: "('m, 'z srv_world_ext) program"
  assumes civil: "civil P A"

sublocale server_host < srv: host P "server_program A" d for d
  by (rule server_host [OF civil])

sublocale server_host < side: dispatch_client alive "side_cbs d (srv_cbs (codec_env P A))" "served P A d w0" for alive d w0
proof
  fix w ch and r :: "32 word"
  assume s: "served P A d w0 w"
  show "served P A d w0 (upd_chan ch (\<lambda>c. c\<lparr>ch_revents := r\<rparr>) w)"
    by (rule served_beside [OF s]) auto
next
  fix w ch b
  assume s: "served P A d w0 w"
  show "served P A d w0 (upd_chan ch (\<lambda>c. c\<lparr>ch_handling := b\<rparr>) w)"
    by (rule served_beside [OF s]) auto
next
  fix ch f t w
  assume s: "served P A d w0 w" and f: "recvCallback (side_cbs d (srv_cbs (codec_env P A)) ch) = Some f"
  then have inv: "host_inv P d w" "ready made d w" by (simp_all add: served_def moves_def)
  show "served P A d w0 (f t w)"
  proof (cases ch)
    case (ConnChan c)
    with f have "c \<noteq> d" "f = handleRecv (server_env (codec_env P A)) c"
      by (auto simp: side_cbs_def srv_cbs_def conn_cbs_def no_cbs_def split: if_splits)
    then show ?thesis
      using srv.other_apart(1) [of c d w t] srv_made.handleRecv_owner [of "made w" w "codec_env P A" c t]
      by (auto simp: server_env_codec apart_def intro!: served_beside [OF s])
  next
    case (AcceptChan n)
    with f have "f t w = Acceptor_handleRecv (codec_env P A) w" by (auto simp: side_cbs_def srv_cbs_def no_cbs_def)
    then show ?thesis using accept_served [OF civil s] by simp
  next
    case (WakeupChan l)
    with f have "f t w = handleRead l w" by (auto simp: side_cbs_def srv_cbs_def no_cbs_def)
    then show ?thesis by (auto intro!: served_beside [OF s])
  qed (use f in \<open>auto simp: side_cbs_def srv_cbs_def no_cbs_def\<close>)
next
  fix ch g w
  assume s: "served P A d w0 w" and g: "sendCallback (side_cbs d (srv_cbs (codec_env P A)) ch) = Some g"
  then obtain c where "c \<noteq> d" "g = handleSend c"
    by (cases ch) (auto simp: side_cbs_def srv_cbs_def conn_cbs_def no_cbs_def split: if_splits)
  then show "served P A d w0 (g w)"
    using srv.other_apart(2) [of c d w] srv_made.handleSend_owner [of "made w" w c]
    by (auto simp: apart_def intro!: served_beside [OF s])
next
  fix ch g w
  assume s: "served P A d w0 w" and g: "closeCallback (side_cbs d (srv_cbs (codec_env P A)) ch) = Some g"
  then obtain c where "c \<noteq> d" "g = handleClose (server_env (codec_env P A)) c"
    by (cases ch) (auto simp: side_cbs_def srv_cbs_def conn_cbs_def no_cbs_def split: if_splits)
  then show "served P A d w0 (g w)"
    using srv.other_apart(3) [of c d w] srv_made.handleClose_owner [of "made w" w "codec_env P A" c]
    by (auto simp: server_env_codec apart_def intro!: served_beside [OF s])
next
  fix ch g w
  assume s: "served P A d w0 w" and g: "errorCallback (side_cbs d (srv_cbs (codec_env P A)) ch) = Some g"
  then obtain c where "g = handleError c"
    by (cases ch) (auto simp: side_cbs_def srv_cbs_def conn_cbs_def no_cbs_def split: if_splits)
  then show "served P A d w0 (g w)" using s by (simp add: handleError_def)
qed

interpretation srv_made_dispatch: dispatch_client alive "srv_cbs U" "\<lambda>w. k \<le> made w"
  for alive :: "nat \<Rightarrow> 'z srv_world_scheme \<Rightarrow> bool" and U and k
proof
  have "k \<le> made (Acceptor_handleRecv U w)" if "k \<le> made w" for w :: "'z srv_world_scheme"
    using that by (auto simp: Acceptor_handleRecv_def intro!: newConnection_made(1) split: list.split accept_result.split)
  then show "k \<le> made (f t w)" if "recvCallback (srv_cbs U ch) = Some f" "k \<le> made w" for ch f t w
    using that by (auto simp: srv_cbs_def conn_cbs_def no_cbs_def srv_made.handleRecv_owner split: chan_id.splits)
qed (auto simp: srv_cbs_def conn_cbs_def no_cbs_def handleError_def srv_made.handleSend_owner srv_made.handleClose_owner
      split: chan_id.splits)

lemma srv_exec_made: "k \<le> made w \<Longrightarrow> k \<le> made (srv_exec U f w)"
proof (cases f)
  case AcceptorListen
  then show "k \<le> made w \<Longrightarrow> ?thesis" by (simp add: srv_exec_def Acceptor_listen_def Let_def split: option.split)
qed (simp_all add: srv_exec_def srv_made.exec_conn_owner)

context server_host
begin

lemma removal_steady:
  assumes "closed d w"
  shows "steady P d w (removeConnectionInLoop d w)"
proof -
  have same: "conns (removeConnectionInLoop d w) = conns w" "unused d (removeConnectionInLoop d w) = unused d w"
    "chans (removeConnectionInLoop d w) = chans w"
    by (simp_all add: removeConnectionInLoop_def Let_def unused_def frame)
  have "queues_by (\<lambda>f. fine P d (removeConnectionInLoop d w) f \<and> f \<noteq> ConnectEstablished d) w (removeConnectionInLoop d w)"
    unfolding removeConnectionInLoop_def Let_def
    by (rule queues_by_trans [OF _ queues_by_push])
      (use assms same in \<open>auto simp: fine_def closed_def removeConnectionInLoop_def Let_def\<close>)
  then show ?thesis using assms by (simp add: steady_def same closed_def)
qed

lemma exec_served:
  assumes "host_inv P d w" "ready made d w" "fine P d w f"
    and "f = ConnectEstablished d \<Longrightarrow> unused d w \<and> no_est d w \<and> d < made w"
  shows "moves P (server_program A) d w (srv_exec (codec_env P A) f w) \<and> ready made d (srv_exec (codec_env P A) f w)"
proof -
  have made: "made w \<le> made (srv_exec (codec_env P A) f w)" by (rule srv_exec_made) simp
  consider "\<not> concerns d f" | "f = ConnectEstablished d" | "f = RemoveConnectionInLoop d"
    | "\<not> unused d w" "\<forall>c. f \<noteq> RemoveConnectionInLoop c" "f \<noteq> AcceptorListen"
    using assms(3) by (cases f) (auto simp: fine_def)
  then show ?thesis
  proof cases
    case 1
    then have b: "beside d w (srv_exec (codec_env P A) f w)"
      using srv.other_exec [of d f w w]
      by (cases f) (auto simp: srv_exec_def server_env_codec Acceptor_listen_def Let_def chan_op_defs split: option.split)
    show ?thesis using beside_moves [OF b srv_exec_keeps assms(1)] beside_ready [OF b made assms(2)] by simp
  next
    case 2
    then show ?thesis
      using srv.exec_moves [OF assms(1,3)] assms(4) made
      by (auto simp: srv_exec_def server_env_codec ready_def)
  next
    case 3
    then have "closed d w" using assms(3) by (simp add: fine_def)
    then have "moves P (server_program A) d w (removeConnectionInLoop d w)" "\<not> unused d w"
      using steady_keeps [OF assms(1) removal_steady]
      by (auto intro!: moves_act acts.other removal_aside simp: closed_def)
    then show ?thesis using used_ready [OF assms(2) _ made] 3 by (simp add: srv_exec_def)
  next
    case 4
    then have run: "srv_exec (codec_env P A) f w = exec_conn (codec_env P (server_program A)) f w"
      by (cases f) (simp_all add: srv_exec_def server_env_codec)
    show ?thesis
      using srv.exec_moves [OF assms(1,3)] assms(4) 4 used_ready [OF assms(2) 4(1) made] by (auto simp: run)
  qed
qed

end

section \<open>A server program runs\<close>

text \<open>
  The calls of a server of its own: its start, a change of the number of threads, and the
  kernel's next answers to \<^verbatim>\<open>accept\<close>.
\<close>

inductive server_calls :: "'z srv_world_scheme \<Rightarrow> 'z srv_world_scheme \<Rightarrow> bool" where
  start: "TCPServer_start new w = Some w' \<Longrightarrow> server_calls w w'"
| threads: "server_calls w (setThreadNum n w)"
| arrivals: "server_calls w (w\<lparr>accepts := as\<rparr>)"

definition server_owner :: "'z srv_world_scheme conn_env \<Rightarrow> 'z srv_world_ext owner" where
  "server_owner U = \<lparr>own_cbs = srv_cbs U, own_exec = srv_exec U, own_calls = server_calls, own_next = made\<rparr>"

lemma server_owner_simps [simp]:
  "own_cbs (server_owner U) = srv_cbs U" "own_exec (server_owner U) = srv_exec U"
  "own_calls (server_owner U) = server_calls" "own_next (server_owner U) = made"
  by (simp_all add: server_owner_def)

lemma start_beside:
  assumes "TCPServer_start new w = Some w'"
  shows "beside d w w'" "made w' = made w"
  using assms
  by (auto simp: TCPServer_start_def runTask_def Acceptor_listen_def Let_def chan_op_defs split: option.splits)
    (simp_all add: enableRecv_def [symmetric])

lemma server_calls_beside:
  assumes "server_calls w w'"
  shows "beside d w w' \<and> (conn_inv w \<longrightarrow> conn_inv w') \<and> made w \<le> made w'"
  using assms
proof cases
  case (start new)
  then have "conn_inv w \<Longrightarrow> conn_inv w'"
    by (auto simp: TCPServer_start_def runTask_def Acceptor_listen_keeps split: option.splits)
  with start_beside [OF start] show ?thesis by simp
qed (auto simp: setThreadNum_def)

sublocale server_host < prog: owner_program P "server_program A" "server_owner (codec_env P A)" alive for alive
proof
  show "own_cbs (server_owner (codec_env P A)) (ConnChan d) = conn_cbs (codec_env P (server_program A)) d" for d
    by (simp add: srv_cbs_def server_env_codec)
next
  fix ch d w got t
  assume ch: "ch \<noteq> ConnChan d" and "host_inv P d w" "ready (own_next (server_owner (codec_env P A))) d w"
  then have "served P A d w w" by (simp add: served_def moves_def)
  from side.handle_one_keeps [OF this, of alive "(ch, got, t)"]
  have "served P A d w (handle_one alive (srv_cbs (codec_env P A)) (ch, got, t) w)" by (simp add: side_channel [OF ch])
  then show "moves P (server_program A) d w (handle_one alive (own_cbs (server_owner (codec_env P A))) (ch, got, t) w) \<and>
      ready (own_next (server_owner (codec_env P A))) d (handle_one alive (own_cbs (server_owner (codec_env P A))) (ch, got, t) w)"
    by (simp add: served_def)
next
  fix d w f
  assume "host_inv P d w" "ready (own_next (server_owner (codec_env P A))) d w" "fine P d w f"
    "f = ConnectEstablished d \<Longrightarrow> unused d w \<and> no_est d w \<and> d < own_next (server_owner (codec_env P A)) w"
  then show "moves P (server_program A) d w (own_exec (server_owner (codec_env P A)) f w) \<and>
      ready (own_next (server_owner (codec_env P A))) d (own_exec (server_owner (codec_env P A)) f w)"
    using exec_served [of d w f] by simp
next
  fix ch got t w
  show "own_next (server_owner (codec_env P A)) w
      \<le> own_next (server_owner (codec_env P A)) (handle_one alive (own_cbs (server_owner (codec_env P A))) (ch, got, t) w)"
    by (simp add: srv_made_dispatch.handle_one_keeps)
next
  fix d and w w' :: "'z srv_world_scheme"
  show "own_calls (server_owner (codec_env P A)) w w' \<Longrightarrow> beside d w w' \<and> (conn_inv w \<longrightarrow> conn_inv w') \<and>
      own_next (server_owner (codec_env P A)) w \<le> own_next (server_owner (codec_env P A)) w'"
    using server_calls_beside by simp
next
  fix w w' :: "'z srv_world_scheme"
  assume "same_owner w w'"
  then have "net_world.more w' = net_world.more w" by (simp add: same_owner_def)
  then show "own_next (server_owner (codec_env P A)) w' = own_next (server_owner (codec_env P A)) w"
    using more_srv(8) [of w' w] by simp
qed

end
