(* ===== verification/ClientHost.thy ===== *)
theory ClientHost
  imports Program TCPClient
begin

text \<open>
  A client program as one end of a link: its loop, the connector with its retries, the
  connections it makes one after the other, and the application, interleaved in any order.
  Each step of the program is a sequence of steps of the party that connection \<open>d\<close> belongs to.
\<close>

section \<open>The client as owner\<close>

definition client_program :: "('m, 'z cli_world_ext cr_world_ext) program \<Rightarrow> ('m, 'z cli_world_ext cr_world_ext) program" where
  "client_program A = A\<lparr>app_close := client_onClose\<rparr>"

lemma client_env_codec: "client_env (codec_env P A) = codec_env P (client_program A)"
  by (simp add: client_env_def codec_env_def client_program_def default_env_def)

lemma beside_cr [intro!]:
  fixes w :: "'z cr_world_scheme"
  assumes "beside d v w"
  shows "beside d v (w\<lparr>cr_connect := b\<rparr>)" "beside d v (w\<lparr>cr_state := s\<rparr>)" "beside d v (w\<lparr>retryMs := r\<rparr>)"
    "beside d v (w\<lparr>cr_handle := h\<rparr>)" "beside d v (w\<lparr>connectChannel := ch\<rparr>)" "beside d v (w\<lparr>channels_made := n\<rparr>)"
    "beside d v (w\<lparr>retries := rs\<rparr>)" "beside d v (w\<lparr>dials := ds\<rparr>)" "beside d v (w\<lparr>sockerrs := es\<rparr>)"
  by (rule beside_more [OF assms]; simp)+

lemma beside_channel [intro!]:
  "beside d v w \<Longrightarrow> ch \<noteq> ConnChan d \<Longrightarrow> m = chans w \<Longrightarrow> beside d v (w\<lparr>chans := m(ch := x)\<rparr>)"
  by (rule beside_more) auto

lemma beside_cli [intro!]:
  fixes w :: "'z cli_world_scheme"
  assumes "beside d v w"
  shows "beside d v (w\<lparr>cli_connection := cs\<rparr>)" "beside d v (w\<lparr>cli_nextConnId := n\<rparr>)" "beside d v (w\<lparr>cli_made := m\<rparr>)"
    "beside d v (w\<lparr>detached := D\<rparr>)"
  by (rule beside_more [OF assms]; simp)+

lemma beside_connecting [intro!]: "beside d v w \<Longrightarrow> beside d v (connector_connecting w)"
  by (auto simp: connector_connecting_def Let_def chan_op_defs)

lemma beside_retry [intro!]: "beside d v w \<Longrightarrow> beside d v (connector_retry w)"
  by (auto simp: connector_retry_def)

lemma beside_start [intro!]: "beside d v w \<Longrightarrow> beside d v (connector_startInLoop w)"
  by (auto simp: connector_startInLoop_def connector_connect_def Let_def split: list.split option.split connect_result.split)

lemma beside_restart [intro!]: "beside d v w \<Longrightarrow> beside d v (connector_restart w)"
  by (auto simp: connector_restart_def)

lemma beside_removeChannel [intro!]: "beside d v w \<Longrightarrow> beside d v (connector_removeChannel w)"
  by (auto simp: connector_removeChannel_def chan_op_defs split: option.split)

lemma beside_stop [intro!]: "beside d v w \<Longrightarrow> beside d v (connector_stopInLoop w)"
  by (auto simp: connector_stopInLoop_def Let_def)

lemma beside_error [intro!]: "beside d v w \<Longrightarrow> beside d v (connector_handleError w)"
  by (auto simp: connector_handleError_def Let_def)

lemma beside_onClose: "c \<noteq> d \<Longrightarrow> beside d v w \<Longrightarrow> beside d v (client_onClose c w)"
  by (auto simp: client_onClose_def client_removeConnection_def Let_def)

text \<open>The removal of the connection itself: as any other one, but for its task.\<close>

lemma queues_by_beside: "beside d w w' \<Longrightarrow> queues_by (removal d) w w'"
  unfolding beside_def by (auto simp: removal_def elim: queues_by_mono)

definition before_push :: "conn_id \<Rightarrow> 'z cli_world_scheme \<Rightarrow> 'z cli_world_scheme" where
  "before_push c w = (if c \<in> detached w then w
     else (check (cr_loop (assertInLoopThread (cr_loop w) w) = conn_loop (conns (assertInLoopThread (cr_loop w) w) c)) WrongLoop
            (assertInLoopThread (cr_loop w) w))\<lparr>cli_connection := None\<rparr>)"

lemma client_onClose_split:
  "client_onClose c w = (if c \<in> detached w then pushTask (cr_loop w) (ConnectDestroyed c) (before_push c w)
     else connector_restart (pushTask (cr_loop (before_push c w)) (ConnectDestroyed c) (before_push c w)))"
  by (simp add: client_onClose_def client_removeConnection_def Let_def before_push_def)

lemma onClose_own: "queues_by (removal d) w (client_onClose d w)"
proof -
  have b: "beside d w (before_push d w)" by (auto simp: before_push_def)
  have q: "queues_by (removal d) w (pushTask l (ConnectDestroyed d) (before_push d w))" for l
    by (rule queues_by_trans [OF queues_by_beside [OF b] queues_by_push]) (simp add: removal_def)
  have b2: "beside d v (connector_restart v)" for v :: "'a cli_world_scheme" by auto
  show ?thesis
    unfolding client_onClose_split using q queues_by_trans [OF q queues_by_beside [OF b2]] by simp
qed

lemma onClose_aside: "aside c w (client_onClose d w)"
proof -
  have push: "aside c v (pushTask l f v)" for l f and v :: "'a cli_world_scheme" by (simp add: aside_def frame)
  have b: "apart c w (before_push d w)" by (auto simp: apart_def before_push_def)
  have r: "apart c v (connector_restart v)" for v :: "'a cli_world_scheme" by (auto simp: apart_def restart_keeps)
  have trans: "aside c x y \<Longrightarrow> aside c y z \<Longrightarrow> aside c x z" for x y z :: "'a cli_world_scheme" by (auto simp: aside_def)
  show ?thesis
    unfolding client_onClose_split using trans [OF trans [OF apart_aside [OF b] push] apart_aside [OF r]] trans [OF apart_aside [OF b] push]
    by simp
qed

lemma client_host:
  assumes "civil P A"
  shows "host P (client_program A) d"
proof
  have close: "app_close (client_program A) = client_onClose" by (simp add: client_program_def)
  show "speaks P (client_program A)"
    using assms by (auto simp: speaks_def civil_def client_program_def onClose_aside)
qed (simp_all add: client_program_def client_onClose_keeps onClose_own beside_onClose)

section \<open>New connections\<close>

lemma cr_more [simp]:
  fixes w :: "'z cr_world_scheme"
  shows "cr_world.more (assertInLoopThread l w) = cr_world.more w" "cr_world.more (check b a w) = cr_world.more w"
    "cr_world.more (pushTask l f w) = cr_world.more w" "cr_world.more (remove_chan ch w) = cr_world.more w"
    "cr_world.more (disableAll ch w) = cr_world.more w" "cr_world.more (enableSend ch w) = cr_world.more w"
    "cr_world.more (upd_chan ch g w) = cr_world.more w" "cr_world.more (upd_loop l h w) = cr_world.more w"
    "cr_world.more (handleRead l w) = cr_world.more w"
  by (rule more_cr, rule more_net, simp add: frame chan_op_defs)+

lemma connector_more [simp]:
  fixes w :: "'z cr_world_scheme"
  shows "cr_world.more (connector_connecting w) = cr_world.more w" "cr_world.more (connector_retry w) = cr_world.more w"
    "cr_world.more (connector_removeChannel w) = cr_world.more w" "cr_world.more (connector_startInLoop w) = cr_world.more w"
    "cr_world.more (connector_restart w) = cr_world.more w" "cr_world.more (connector_stopInLoop w) = cr_world.more w"
    "cr_world.more (connector_handleError w) = cr_world.more w"
proof -
  show conn: "cr_world.more (connector_connecting w) = cr_world.more w" for w :: "'z cr_world_scheme"
    by (simp add: connector_connecting_def Let_def)
  show retry: "cr_world.more (connector_retry w) = cr_world.more w" for w :: "'z cr_world_scheme"
    by (simp add: connector_retry_def)
  show rem: "cr_world.more (connector_removeChannel w) = cr_world.more w" for w :: "'z cr_world_scheme"
    by (simp add: connector_removeChannel_def split: option.split)
  show start: "cr_world.more (connector_startInLoop w) = cr_world.more w" for w :: "'z cr_world_scheme"
    by (auto simp: connector_startInLoop_def connector_connect_def Let_def conn retry
        split: list.split option.split connect_result.split)
  show "cr_world.more (connector_restart w) = cr_world.more w" by (simp add: connector_restart_def start)
  show "cr_world.more (connector_stopInLoop w) = cr_world.more w"
    by (simp add: connector_stopInLoop_def Let_def retry rem)
  show "cr_world.more (connector_handleError w) = cr_world.more w"
    by (simp add: connector_handleError_def Let_def retry rem)
qed

lemma more_cli:
  assumes "cr_world.more w' = cr_world.more (w :: 'z cli_world_scheme)"
  shows "cli_made w' = cli_made w" "cli_connection w' = cli_connection w"
  using assms by (cases w; cases w'; simp)+

lemma cli_made_frame [simp]:
  fixes w :: "'z cli_world_scheme"
  shows "cli_made (assertInLoopThread l w) = cli_made w" "cli_made (check b a w) = cli_made w"
    "cli_made (pushTask l f w) = cli_made w" "cli_made (upd_chan ch g w) = cli_made w" "cli_made (upd_loop l h w) = cli_made w"
    "cli_made (handleRead l w) = cli_made w" "cli_made (connector_removeChannel w) = cli_made w"
    "cli_made (connector_retry w) = cli_made w" "cli_made (connector_startInLoop w) = cli_made w"
    "cli_made (connector_restart w) = cli_made w" "cli_made (connector_stopInLoop w) = cli_made w"
    "cli_made (connector_handleError w) = cli_made w"
  by (rule more_cli; simp)+

interpretation cli_made: owner_inv "client_env U" "\<lambda>w. k \<le> cli_made w" for U :: "'z cli_world_scheme conn_env" and k
proof
  show "k \<le> cli_made w'" if "same_owner w w'" "k \<le> cli_made w" for w w' :: "'z cli_world_scheme"
  proof -
    have "net_world.more w' = net_world.more w" using that(1) by (simp add: same_owner_def)
    then have "cli_made w' = cli_made w" by (intro more_cli) (rule more_cr)
    with that(2) show ?thesis by simp
  qed
  show "k \<le> cli_made (onClose (client_env U) c w)" if "k \<le> cli_made w" for c and w :: "'z cli_world_scheme"
    using that by (simp add: client_env_def client_onClose_def client_removeConnection_def Let_def)
qed

lemma client_newConnection_moves:
  assumes "civil P A" "host_inv P d w" "ready cli_made d w"
  shows "moves P (client_program A) d w (client_newConnection (codec_env P A) h w) \<and>
    ready cli_made d (client_newConnection (codec_env P A) h w)"
proof -
  note H = client_host [OF assms(1)]
  define w1 where "w1 = assertInLoopThread (cr_loop w) w"
  define c where "c = cli_made w1"
  define w2 where "w2 = w1\<lparr>cli_nextConnId := cli_nextConnId w1 + 1, cli_made := Suc c\<rparr>"
  define w3 where "w3 = TCPConnection_ctor c (cr_loop w2) h (client_connName w1) (cli_hasWriteComplete w2) w2"
  define w4 where "w4 = w3\<lparr>cli_connection := Some c\<rparr>"
  have run: "client_newConnection (codec_env P A) h w = connectEstablished (codec_env P (client_program A)) c w4"
    by (simp add: client_newConnection_def Let_def client_env_codec w1_def w2_def w3_def w4_def c_def)
  have c: "c = cli_made w" by (simp add: c_def w1_def)
  have made: "Suc c \<le> cli_made (client_newConnection (codec_env P A) h w)"
    unfolding client_env_codec [symmetric] run
    by (rule cli_made.connectEstablished_owner [unfolded client_env_codec])
      (simp add: w4_def w3_def w2_def TCPConnection_ctor_def log_def)
  have b2: "beside d w w2" by (auto simp: w1_def w2_def)
  have inv2: "host_inv P d w2" by (rule steady_keeps [OF assms(2) beside_steady [OF b2]])
  show ?thesis
  proof (cases "c = d")
    case False
    have "beside d w (client_newConnection (codec_env P A) h w)"
      unfolding run by (rule host.other_established [OF H False]) (use False b2 in \<open>auto simp: w4_def w3_def\<close>)
    then show ?thesis
      using beside_moves [OF _ client_newConnection_keeps assms(2)] beside_ready [OF _ _ assms(3)] made c by auto
  next
    case True
    have new: "unused d w2" "no_est d w2"
      using assms(3) beside_unused [OF b2] beside_no_est [OF b2] True c by (auto simp: ready_def)
    note ctor = ctor_host [OF inv2 new, of "cr_loop w2" h "client_connName w1" "cli_hasWriteComplete w2"]
    have w3: "moves P (client_program A) d w2 w3"
      unfolding w3_def True by (rule moves_act [OF acts.makes [OF new(1)] ctor(1)])
    have b4: "beside d w3 w4" by (auto simp: w4_def)
    have inv3: "host_inv P d w3" using w3 by (simp add: moves_def)
    have w4: "moves P (client_program A) d w3 w4" by (rule beside_moves [OF b4 _ inv3]) (simp add: w4_def)
    have "unused d w4" "no_est d w4" "host_inv P d w4"
      using beside_unused [OF b4] beside_no_est [OF b4] ctor(2,3) w4 True by (auto simp: w3_def moves_def)
    from host.established_host [OF H this(3,1,2)]
    have "moves P (client_program A) d w4 (client_newConnection (codec_env P A) h w)" by (simp add: run True)
    moreover have "moves P (client_program A) d w w2" by (rule beside_moves [OF b2 _ assms(2)]) (simp add: w2_def w1_def)
    ultimately show ?thesis using w3 w4 made True by (auto simp: ready_def intro: moves_trans)
  qed
qed

lemma client_newConnection_made: "Suc (cli_made w) \<le> cli_made (client_newConnection U h w)"
  unfolding client_newConnection_def Let_def
  by (rule cli_made.connectEstablished_owner) (simp add: TCPConnection_ctor_def log_def)

section \<open>The callbacks and tasks of a client\<close>

definition dialled :: "'m proto \<Rightarrow> ('m, 'z cli_world_ext cr_world_ext) program \<Rightarrow> conn_id \<Rightarrow>
    'z cli_world_scheme \<Rightarrow> 'z cli_world_scheme \<Rightarrow> bool" where
  "dialled P A d w0 w \<longleftrightarrow> moves P (client_program A) d w0 w \<and> ready cli_made d w"

lemma dialled_beside:
  "dialled P A d w0 w \<Longrightarrow> beside d w w' \<Longrightarrow> (conn_inv w \<Longrightarrow> conn_inv w') \<Longrightarrow> cli_made w \<le> cli_made w' \<Longrightarrow> dialled P A d w0 w'"
  using moves_apart [of d w w' P "client_program A"] moves_trans [of P "client_program A" d w0 w w']
  by (auto simp: dialled_def apart_def moves_def intro: beside_ready)

lemma connector_handleWrite_dialled:
  assumes "civil P A" "dialled P A d w0 w"
  shows "dialled P A d w0 (connector_handleWrite (client_newConnection (codec_env P A)) w)"
proof (cases "cr_state w = CR_CONNECTING")
  case False
  then show ?thesis using assms(2) by (simp add: connector_handleWrite_def)
next
  case True
  define w1 where "w1 = connector_removeChannel w"
  define w2 where "w2 = w1\<lparr>sockerrs := tl (sockerrs w1)\<rparr>"
  have b2: "beside d w w2" by (auto simp: w1_def w2_def)
  have k2: "conn_inv w \<Longrightarrow> conn_inv w2" by (simp add: w1_def w2_def removeChannel_keeps)
  have m2: "cli_made w2 = cli_made w" by (simp add: w1_def w2_def)
  show ?thesis
  proof (cases "next_sockerr w1 \<and> cr_handle w2 \<noteq> None")
    case False
    have "beside d w (if next_sockerr w1 then w2\<lparr>cr_state := CR_CONNECTED\<rparr> else connector_retry w2)" using b2 by auto
    with False show ?thesis
      using k2 m2 b2
      by (intro dialled_beside [OF assms(2)])
        (auto simp: connector_handleWrite_def True w1_def [symmetric] w2_def [symmetric] Let_def retry_keeps)
  next
    case True
    then obtain h where h: "next_sockerr w1" "cr_handle w2 = Some h" by blast
    define w3 where "w3 = w2\<lparr>cr_state := CR_CONNECTED\<rparr>"
    have w3: "dialled P A d w0 w3"
      by (rule dialled_beside [OF assms(2)]) (use b2 k2 m2 in \<open>auto simp: w3_def\<close>)
    then have "host_inv P d w3" "ready cli_made d w3" by (simp_all add: dialled_def moves_def)
    note new = client_newConnection_moves [OF assms(1) this, of h]
    have "connector_handleWrite (client_newConnection (codec_env P A)) w = client_newConnection (codec_env P A) h w3"
      using h \<open>cr_state w = CR_CONNECTING\<close>
      by (simp add: connector_handleWrite_def w1_def [symmetric] w2_def [symmetric] w3_def Let_def)
    then show ?thesis using new w3 by (auto simp: dialled_def intro: moves_trans)
  qed
qed

locale client_host =
  fixes P :: "'m proto" and A :: "('m, 'z cli_world_ext cr_world_ext) program"
  assumes civil: "civil P A"

sublocale client_host < cli: host P "client_program A" d for d
  by (rule client_host [OF civil])

lemma no_callbacks [simp]: "recvCallback (side_cbs d cbs (ConnChan d)) = None" "sendCallback (side_cbs d cbs (ConnChan d)) = None"
  "closeCallback (side_cbs d cbs (ConnChan d)) = None" "errorCallback (side_cbs d cbs (ConnChan d)) = None"
  "ch \<noteq> ConnChan d \<Longrightarrow> side_cbs d cbs ch = cbs ch"
  by (simp_all add: side_cbs_def)

sublocale client_host < side: dispatch_client alive "side_cbs d (cli_cbs (codec_env P A))" "dialled P A d w0" for alive d w0
proof
  fix w ch and r :: "32 word"
  assume s: "dialled P A d w0 w"
  show "dialled P A d w0 (upd_chan ch (\<lambda>c. c\<lparr>ch_revents := r\<rparr>) w)"
    by (rule dialled_beside [OF s]) auto
next
  fix w ch b
  assume s: "dialled P A d w0 w"
  show "dialled P A d w0 (upd_chan ch (\<lambda>c. c\<lparr>ch_handling := b\<rparr>) w)"
    by (rule dialled_beside [OF s]) auto
next
  fix ch f t w
  assume s: "dialled P A d w0 w" and f: "recvCallback (side_cbs d (cli_cbs (codec_env P A)) ch) = Some f"
  have ch: "ch \<noteq> ConnChan d" using f by auto
  with f have f: "recvCallback (cli_cbs (codec_env P A) ch) = Some f" by simp
  show "dialled P A d w0 (f t w)"
  proof (cases ch)
    case (ConnChan c)
    with f ch have "c \<noteq> d" "f = handleRecv (client_env (codec_env P A)) c" by (auto simp: cli_cbs_def conn_cbs_def)
    then show ?thesis
      using cli.other_apart(1) [of c d w t] cli_made.handleRecv_owner [of "cli_made w" w "codec_env P A" c t]
      by (auto simp: client_env_codec apart_def intro!: dialled_beside [OF s])
  next
    case (WakeupChan l)
    with f have "f t w = handleRead l w" by (auto simp: cli_cbs_def)
    then show ?thesis by (auto intro!: dialled_beside [OF s])
  qed (use f in \<open>auto simp: cli_cbs_def Let_def\<close>)
next
  fix ch g w
  assume s: "dialled P A d w0 w" and g: "sendCallback (side_cbs d (cli_cbs (codec_env P A)) ch) = Some g"
  have ch: "ch \<noteq> ConnChan d" using g by auto
  with g have g: "sendCallback (cli_cbs (codec_env P A) ch) = Some g" by simp
  show "dialled P A d w0 (g w)"
  proof (cases ch)
    case (ConnChan c)
    with g ch have "c \<noteq> d" "g = handleSend c" by (auto simp: cli_cbs_def conn_cbs_def)
    then show ?thesis
      using cli.other_apart(2) [of c d w] cli_made.handleSend_owner [of "cli_made w" w c]
      by (auto simp: apart_def intro!: dialled_beside [OF s])
  next
    case (ConnectChan n)
    with g have "g w = connector_handleWrite (client_newConnection (codec_env P A)) w" by (auto simp: cli_cbs_def)
    then show ?thesis using connector_handleWrite_dialled [OF civil s] by simp
  qed (use g in \<open>auto simp: cli_cbs_def Let_def\<close>)
next
  fix ch g w
  assume s: "dialled P A d w0 w" and g: "closeCallback (side_cbs d (cli_cbs (codec_env P A)) ch) = Some g"
  have ch: "ch \<noteq> ConnChan d" using g by auto
  with g obtain c where "c \<noteq> d" "g = handleClose (client_env (codec_env P A)) c"
    by (cases ch) (auto simp: cli_cbs_def conn_cbs_def Let_def)
  then show "dialled P A d w0 (g w)"
    using cli.other_apart(3) [of c d w] cli_made.handleClose_owner [of "cli_made w" w "codec_env P A" c]
    by (auto simp: client_env_codec apart_def intro!: dialled_beside [OF s])
next
  fix ch g w
  assume s: "dialled P A d w0 w" and g: "errorCallback (side_cbs d (cli_cbs (codec_env P A)) ch) = Some g"
  have ch: "ch \<noteq> ConnChan d" using g by auto
  with g consider (conn) c where "g = handleError c" | (connect) "g = connector_handleError"
    by (cases ch) (auto simp: cli_cbs_def conn_cbs_def Let_def)
  then show "dialled P A d w0 (g w)"
  proof cases
    case conn
    then show ?thesis using s by (simp add: handleError_def)
  next
    case connect
    then show ?thesis by (auto intro!: dialled_beside [OF s] simp: handleError_keeps)
  qed
qed

interpretation cli_made_dispatch: dispatch_client alive "cli_cbs U" "\<lambda>w. k \<le> cli_made w"
  for alive :: "nat \<Rightarrow> 'z cli_world_scheme \<Rightarrow> bool" and U and k
proof
  have new: "k \<le> cli_made w \<Longrightarrow> k \<le> cli_made (client_newConnection U h w)" for h and w :: "'z cli_world_scheme"
    using client_newConnection_made [of w U h] by simp
  then show "k \<le> cli_made (g w)" if "sendCallback (cli_cbs U ch) = Some g" "k \<le> cli_made w" for ch g w
    using that by (auto simp: cli_cbs_def conn_cbs_def Let_def cli_made.handleSend_owner connector_handleWrite_def
        intro!: new split: chan_id.splits option.split)
qed (auto simp: cli_cbs_def conn_cbs_def Let_def handleError_def cli_made.handleRecv_owner cli_made.handleClose_owner
      split: chan_id.splits)

lemma cli_exec_made: "k \<le> cli_made w \<Longrightarrow> k \<le> cli_made (cli_exec U f w)"
  by (cases f) (simp_all add: cli_exec_def cli_made.exec_conn_owner setCloseCallback_def connector_resetChannel_def)

context client_host
begin

lemma exec_dialled:
  assumes "host_inv P d w" "ready cli_made d w" "fine P d w f"
    and "f = ConnectEstablished d \<Longrightarrow> unused d w \<and> no_est d w \<and> d < cli_made w"
  shows "moves P (client_program A) d w (cli_exec (codec_env P A) f w) \<and> ready cli_made d (cli_exec (codec_env P A) f w)"
proof -
  have made: "cli_made w \<le> cli_made (cli_exec (codec_env P A) f w)" by (rule cli_exec_made) simp
  consider "\<not> concerns d f \<or> f = SetCloseCallback d \<or> f = RemoveConnectionInLoop d" | "f = ConnectEstablished d"
    | "\<not> unused d w" "\<forall>c. f \<noteq> SetCloseCallback c" "f \<noteq> RemoveConnectionInLoop d" "concerns d f"
    using assms(3) by (cases f) (auto simp: fine_def)
  then show ?thesis
  proof cases
    case 1
    then have b: "beside d w (cli_exec (codec_env P A) f w)"
      using cli.other_exec [of d f w w]
      by (cases f) (auto simp: cli_exec_def client_env_codec connector_resetChannel_def setCloseCallback_def exec_conn_def)
    show ?thesis using beside_moves [OF b cli_exec_keeps assms(1)] beside_ready [OF b made assms(2)] by simp
  next
    case 2
    then show ?thesis
      using cli.exec_moves [OF assms(1,3)] assms(4) made by (auto simp: cli_exec_def client_env_codec ready_def)
  next
    case 3
    then have run: "cli_exec (codec_env P A) f w = exec_conn (codec_env P (client_program A)) f w"
      by (cases f) (simp_all add: cli_exec_def client_env_codec)
    show ?thesis
      using cli.exec_moves [OF assms(1,3)] assms(4) 3 used_ready [OF assms(2) 3(1) made] by (auto simp: run)
  qed
qed

end

section \<open>A client program runs\<close>

text \<open>
  The calls of a client of its own: \<^verbatim>\<open>connect\<close> and \<^verbatim>\<open>stop\<close>, the timer of a retry that fires, and the
  kernel's next answers to \<^verbatim>\<open>connect\<close> and \<^verbatim>\<open>getsockopt\<close>. \<^verbatim>\<open>disconnect\<close> shuts the connection down: it is
  a call of the application's on the connection.
\<close>

inductive client_calls :: "'z cli_world_scheme \<Rightarrow> 'z cli_world_scheme \<Rightarrow> bool" where
  connect: "client_calls w (client_connect w)"
| stop: "client_calls w (client_stop w)"
| retry: "retries w = rs @ r # rs' \<Longrightarrow> client_calls w (connector_startInLoop (w\<lparr>retries := rs @ rs'\<rparr>))"
| answers: "client_calls w (w\<lparr>dials := ds, sockerrs := es\<rparr>)"

definition client_owner :: "'z cli_world_scheme conn_env \<Rightarrow> 'z cli_world_ext cr_world_ext owner" where
  "client_owner U = \<lparr>own_cbs = cli_cbs U, own_exec = cli_exec U, own_calls = client_calls, own_next = cli_made\<rparr>"

lemma client_owner_simps [simp]:
  "own_cbs (client_owner U) = cli_cbs U" "own_exec (client_owner U) = cli_exec U"
  "own_calls (client_owner U) = client_calls" "own_next (client_owner U) = cli_made"
  by (simp_all add: client_owner_def)

lemma client_calls_beside:
  assumes "client_calls w w'"
  shows "beside d w w' \<and> (conn_inv w \<longrightarrow> conn_inv w') \<and> cli_made w \<le> cli_made w'"
  using assms
proof cases
  case connect
  then show ?thesis by (auto simp: client_connect_def connector_start_def runTask_def startInLoop_keeps)
next
  case stop
  then show ?thesis by (auto simp: client_stop_def connector_stop_def)
qed (auto simp: startInLoop_keeps)

lemma disconnect_action:
  "client_disconnect w = (case cli_connection w of Some c \<Rightarrow> run_action (AShutdown c) w | None \<Rightarrow> w)"
  by (simp add: client_disconnect_def run_action_def split: option.split)

sublocale client_host < prog: owner_program P "client_program A" "client_owner (codec_env P A)" alive for alive
proof
  show "own_cbs (client_owner (codec_env P A)) (ConnChan d) = conn_cbs (codec_env P (client_program A)) d" for d
    by (simp add: cli_cbs_def client_env_codec)
next
  fix ch d w got t
  assume ch: "ch \<noteq> ConnChan d" and "host_inv P d w" "ready (own_next (client_owner (codec_env P A))) d w"
  then have "dialled P A d w w" by (simp add: dialled_def moves_def)
  from side.handle_one_keeps [OF this, of alive "(ch, got, t)"]
  have "dialled P A d w (handle_one alive (cli_cbs (codec_env P A)) (ch, got, t) w)" by (simp add: side_channel [OF ch])
  then show "moves P (client_program A) d w (handle_one alive (own_cbs (client_owner (codec_env P A))) (ch, got, t) w) \<and>
      ready (own_next (client_owner (codec_env P A))) d (handle_one alive (own_cbs (client_owner (codec_env P A))) (ch, got, t) w)"
    by (simp add: dialled_def)
next
  fix d w f
  assume "host_inv P d w" "ready (own_next (client_owner (codec_env P A))) d w" "fine P d w f"
    "f = ConnectEstablished d \<Longrightarrow> unused d w \<and> no_est d w \<and> d < own_next (client_owner (codec_env P A)) w"
  then show "moves P (client_program A) d w (own_exec (client_owner (codec_env P A)) f w) \<and>
      ready (own_next (client_owner (codec_env P A))) d (own_exec (client_owner (codec_env P A)) f w)"
    using exec_dialled [of d w f] by simp
next
  fix ch got t w
  show "own_next (client_owner (codec_env P A)) w
      \<le> own_next (client_owner (codec_env P A)) (handle_one alive (own_cbs (client_owner (codec_env P A))) (ch, got, t) w)"
    by (simp add: cli_made_dispatch.handle_one_keeps)
next
  fix d and w w' :: "'z cli_world_scheme"
  show "own_calls (client_owner (codec_env P A)) w w' \<Longrightarrow> beside d w w' \<and> (conn_inv w \<longrightarrow> conn_inv w') \<and>
      own_next (client_owner (codec_env P A)) w \<le> own_next (client_owner (codec_env P A)) w'"
    using client_calls_beside by simp
next
  fix w w' :: "'z cli_world_scheme"
  assume "same_owner w w'"
  then have "net_world.more w' = net_world.more w" by (simp add: same_owner_def)
  then show "own_next (client_owner (codec_env P A)) w' = own_next (client_owner (codec_env P A)) w"
    by (simp, intro more_cli) (rule more_cr)
qed

section \<open>Leaving while the connector connects\<close>

text \<open>
  A program that quits its loop when the connection goes down, as the query client does, leaves
  while the connector is already connecting again: the assertion of \<^verbatim>\<open>~Connector\<close> fails,
  because the task that would stop the connector never runs.
\<close>

lemma restart_channel:
  assumes "dials w = (Some f, r) # ds" "handle_connect r = Connecting_ok"
  shows "connectChannel (connector_restart w) \<noteq> None"
  using assms by (simp add: connector_restart_def connector_startInLoop_def connector_connect_def TCPHandle_ctor_def Let_def
      connector_connecting_def)

lemma onClose_channel:
  assumes "c \<notin> detached w" "dials w = (Some f, r) # ds" "handle_connect r = Connecting_ok"
  shows "connectChannel (client_onClose c w) \<noteq> None" "cli_connection (client_onClose c w) = None"
proof -
  show "connectChannel (client_onClose c w) \<noteq> None"
    unfolding client_onClose_split if_not_P [OF assms(1)]
    by (rule restart_channel [OF _ assms(3)]) (use assms in \<open>simp add: before_push_def\<close>)
  have "cli_connection (connector_restart v) = cli_connection v" "cli_connection (pushTask l t v) = cli_connection v"
    for l t and v :: "'a cli_world_scheme"
    by (rule more_cli; simp)+
  then show "cli_connection (client_onClose c w) = None"
    using assms(1) by (simp add: client_onClose_split before_push_def)
qed

theorem leaves_while_connecting:
  assumes "conn_state (conns w c) = DISCONNECTED" "c \<notin> detached w" "dials w = (Some f, r) # ds" "handle_connect r = Connecting_ok"
  shows "ChannelStillSet \<in> set (violations (Connector_dtor (TCPClient_dtor unique (connectDestroyed E c (client_onClose c w)))))"
proof -
  define w1 where "w1 = connectDestroyed E c (client_onClose c w)"
  have "conns (client_onClose c w) c = conns w c" using onClose_aside [of c w c] by (simp add: aside_def)
  with assms(1) have w1: "w1 = remove_chan (ConnChan c) (client_onClose c w)" by (simp add: w1_def connectDestroyed_def)
  have "cli_connection (remove_chan ch v) = cli_connection v" for ch and v :: "'a cli_world_scheme"
    by (rule more_cli) simp
  then have "connectChannel w1 \<noteq> None" "cli_connection w1 = None"
    using onClose_channel [OF assms(2-4)] by (simp_all add: w1)
  then show ?thesis
    by (auto simp: w1_def [symmetric] TCPClient_dtor_def connector_stop_def Connector_dtor_def check_def)
qed

end
