(* ===== verification/Session.thy ===== *)
theory Session
  imports EndToEnd ServerHost ClientHost
begin

text \<open>
  A client program and a server program together: the client on \<open>TCPClient\<close> and its connector, the
  server on \<open>TCPServer\<close> and its acceptor and threads, each with its application, joined by one
  connection of the client and one of the server among all those they make. Their runs refine
  the two linked ends of \<open>Link\<close>, so what holds of these holds of the programs.
\<close>

section \<open>The two programs run\<close>

text \<open>A program before it starts: nothing has happened, nothing waits, no connection's channel has interests.\<close>

definition blank :: "'z net_world_scheme \<Rightarrow> bool" where
  "blank w \<longleftrightarrow> trace w = [] \<and> (\<forall>l. taskQueue (loops w l) = []) \<and> (\<forall>c. ch_events (chan_of c w) = NoneEvent) \<and>
     (\<forall>c. recvBuffer (conns w c) = [] \<and> sendBuffer (conns w c) = [])"

definition newborn :: "'z net_world_scheme \<Rightarrow> ('m, 'z) party" where
  "newborn w = \<lparr>party_world = w, party_heard = [], party_got = []\<rparr>"

inductive session_step ::
  "'m proto \<Rightarrow> ('m, 'y cli_world_ext cr_world_ext) program \<Rightarrow> ('m, 'z srv_world_ext) program \<Rightarrow>
   (nat \<Rightarrow> 'y cli_world_scheme \<Rightarrow> bool) \<Rightarrow> (nat \<Rightarrow> 'z srv_world_scheme \<Rightarrow> bool) \<Rightarrow> conn_id \<Rightarrow> conn_id \<Rightarrow>
   ('m, 'y cli_world_ext cr_world_ext) party \<times> ('m, 'z srv_world_ext) party \<Rightarrow>
   ('m, 'y cli_world_ext cr_world_ext) party \<times> ('m, 'z srv_world_ext) party \<Rightarrow> bool"
  for P A B alive alive' c d where
  client: "program_turn P (client_owner (codec_env P A)) alive c d (trace (party_world q)) p p' \<Longrightarrow>
    session_step P A B alive alive' c d (p, q) (p', q)"
| server: "program_turn P (server_owner (codec_env P B)) alive' d c (trace (party_world p)) q q' \<Longrightarrow>
    session_step P A B alive alive' c d (p, q) (p, q')"

definition session ::
  "'m proto \<Rightarrow> ('m, 'y cli_world_ext cr_world_ext) program \<Rightarrow> ('m, 'z srv_world_ext) program \<Rightarrow>
   (nat \<Rightarrow> 'y cli_world_scheme \<Rightarrow> bool) \<Rightarrow> (nat \<Rightarrow> 'z srv_world_scheme \<Rightarrow> bool) \<Rightarrow> conn_id \<Rightarrow> conn_id \<Rightarrow>
   ('m, 'y cli_world_ext cr_world_ext) party \<times> ('m, 'z srv_world_ext) party \<Rightarrow> bool" where
  "session P A B alive alive' c d pq \<longleftrightarrow>
     (\<exists>v w. blank v \<and> blank w \<and> (session_step P A B alive alive' c d)\<^sup>*\<^sup>* (newborn v, newborn w) pq)"

section \<open>They refine two linked ends\<close>

definition settled :: "'m proto \<Rightarrow> ('z net_world_scheme \<Rightarrow> conn_id) \<Rightarrow> conn_id \<Rightarrow> ('m, 'z) party \<Rightarrow> bool" where
  "settled P nxt c p \<longleftrightarrow> host_inv P c (party_world p) \<and> ready nxt c (party_world p)"

lemma blank_settled:
  fixes w :: "'z net_world_scheme" and P :: "'m proto"
  assumes "blank w"
  shows "fresh c (newborn w :: ('m, 'z) party) \<and> settled P nxt c (newborn w)"
  using assms by (simp add: blank_def newborn_def fresh_def unused_def conn_inv_def send_ok_def settled_def host_inv_def ready_def
      no_est_def isSending_def NoneEvent_def)

context client_host
begin

lemma client_turn:
  assumes "program_turn P (client_owner (codec_env P A)) alive c d tr p p'" "settled P cli_made c p"
  shows "(party_step P (client_program A) c d tr)\<^sup>*\<^sup>* p p' \<and> settled P cli_made c p'"
  using prog.turn_party [OF assms(1)] assms(2) by (simp add: settled_def)

end

context server_host
begin

lemma server_turn:
  assumes "program_turn P (server_owner (codec_env P A)) alive c d tr p p'" "settled P made c p"
  shows "(party_step P (server_program A) c d tr)\<^sup>*\<^sup>* p p' \<and> settled P made c p'"
  using prog.turn_party [OF assms(1)] assms(2) by (simp add: settled_def)

end

lemma steps_left: "(party_step P A c d (trace (party_world q)))\<^sup>*\<^sup>* p p' \<Longrightarrow> (link_step P A B c d)\<^sup>*\<^sup>* (p, q) (p', q)"
  by (induction rule: rtranclp_induct) (auto intro: rtranclp.rtrancl_into_rtrancl link_step.left)

lemma steps_right: "(party_step P B d c (trace (party_world p)))\<^sup>*\<^sup>* q q' \<Longrightarrow> (link_step P A B c d)\<^sup>*\<^sup>* (p, q) (p, q')"
  by (induction rule: rtranclp_induct) (auto intro: rtranclp.rtrancl_into_rtrancl link_step.right)

lemma session_links:
  assumes "civil P A" "civil P B"
    and "(session_step P A B alive alive' c d)\<^sup>*\<^sup>* (newborn v, newborn w) pq" "blank v" "blank w"
  shows "(link_step P (client_program A) (server_program B) c d)\<^sup>*\<^sup>* (newborn v, newborn w) pq \<and>
    settled P cli_made c (fst pq) \<and> settled P made d (snd pq)"
  using assms(3)
proof (induction rule: rtranclp_induct)
  case base
  have "settled P cli_made c (newborn v)" "settled P made d (newborn w)"
    using blank_settled [OF assms(4), of c P cli_made] blank_settled [OF assms(5), of d P made] by blast+
  then show ?case by simp
next
  case (step pq pq')
  from step.hyps(2) show ?case
  proof cases
    case (client q p p')
    then show ?thesis
      using client_host.client_turn [OF client_host.intro [OF assms(1)] client(3)] step.IH
        steps_left [of P "client_program A" c d q p p' "server_program B"]
      by auto
  next
    case (server p q q')
    then show ?thesis
      using server_host.server_turn [OF server_host.intro [OF assms(2)] server(3)] step.IH
        steps_right [of P "server_program B" d c p q q' "client_program A"]
      by auto
  qed
qed

lemma session_linked:
  assumes "session P A B alive alive' c d pq" "civil P A" "civil P B"
  shows "linked P (client_program A) (server_program B) c d pq"
    "speaks P (client_program A)" "speaks P (server_program B)"
proof -
  obtain v w where vw: "blank v" "blank w" "(session_step P A B alive alive' c d)\<^sup>*\<^sup>* (newborn v, newborn w) pq"
    using assms(1) by (auto simp: session_def)
  from session_links [OF assms(2,3) vw(3,1,2)] blank_settled [OF vw(1), of c P] blank_settled [OF vw(2), of d P]
  show "linked P (client_program A) (server_program B) c d pq" unfolding linked_def by blast
  show "speaks P (client_program A)" by (rule host.speaks [OF client_host [OF assms(2)]])
  show "speaks P (server_program B)" by (rule host.speaks [OF server_host [OF assms(3)]])
qed

section \<open>Properties\<close>


text \<open>
  C2. A client program and a server program, end to end: from their start, through dialling and
  retries, accepting and handing over to a thread, whatever else both programs do with their
  other connections, whatever the applications say and when, whatever the kernels answer, and
  however the bytes are cut on the way, the messages handed to the application at either end
  of a connection are, in order, the first of the messages that \<^verbatim>\<open>sendInLoop\<close> has taken at the
  other end, each once and unchanged; and they are all of them when the sender has nothing
  buffered and nothing is under way.
\<close>

theorem session_delivers:
  assumes "session P A B alive alive' c d (p, q)" "civil P A" "civil P B"
  shows "\<exists>later back.
    sends_in c (trace (party_world p)) = map (fillEmptyBuffer P) (party_got q @ later) \<and>
    sends_in d (trace (party_world q)) = map (fillEmptyBuffer P) (party_got p @ back) \<and>
    (sendBuffer (conns (party_world p) c) = [] \<and> party_heard q = said_by c p \<longrightarrow> later = []) \<and>
    (sendBuffer (conns (party_world q) d) = [] \<and> party_heard p = said_by d q \<longrightarrow> back = [])"
  by (rule codec_end_to_end [OF session_linked [OF assms]])


section \<open>A run of the query programs\<close>

text \<open>
  The client connects, its connector finishes, and it sends the query; the server starts,
  accepts, and reads the query in one piece; the client shuts down, and the server reads the
  end of the stream.
\<close>

abbreviation cli_app :: "(query_msg, unit cli_world_ext cr_world_ext) program" where
  "cli_app \<equiv> query_client_app query_proto (QueryMsg client_query) 0 (\<lambda>c w. w)"

abbreviation srv_app :: "(query_msg, unit srv_world_ext) program" where
  "srv_app \<equiv> query_server_app query_proto (\<lambda>c w. w)"

interpretation query_client: client_host query_proto cli_app
  by unfold_locales (simp add: client_civil query_proto_ok)

interpretation query_server: server_host query_proto srv_app
  by unfold_locales (simp add: query_civil query_proto_ok)

definition client0 :: cli_world where
  "client0 = TCPClient_ctor ''lo'' 80 ''C'' False (Connector_ctor 0 [(Some 5, SysOk ())] [SysOk None] (boot_net [Done 25 []]))"

definition server0 :: srv_world where
  "server0 = TCPServer_ctor ''lo'' 80 0 ''S'' (TCPHandle_of_fd 3 zero_addr zero_addr) False [SysOk (7, zero_addr, zero_addr)]
     (SysOk ()) 4 (boot_net [Done 0 query_bytes])"

abbreviation at_client :: "chan_id \<Rightarrow> 32 word \<Rightarrow> cli_world \<Rightarrow> cli_world" where
  "at_client ch got w \<equiv> handle_one (\<lambda>_ _. True) (cli_cbs (codec_env query_proto cli_app)) (ch, got, 0) (in_thread ch w)"

abbreviation at_server :: "chan_id \<Rightarrow> 32 word \<Rightarrow> srv_world \<Rightarrow> srv_world" where
  "at_server ch got w \<equiv> handle_one (\<lambda>_ _. True) (srv_cbs (codec_env query_proto srv_app)) (ch, got, 0) (in_thread ch w)"

definition client1 :: cli_world where
  "client1 = client_connect (client0\<lparr>self := 0\<rparr>)"

definition client2 :: cli_world where
  "client2 = at_client (ConnectChan 0) EPOLLOUT client1"

definition client3 :: cli_world where
  "client3 = run_action (AShutdown 0) (client2\<lparr>self := 0\<rparr>)"

definition server1 :: srv_world where
  "server1 = Acceptor_listen (server0\<lparr>threadPool := (EventLoopThreadPool_ctor 0)\<lparr>pool_started := True\<rparr>\<rparr>)"

definition server2 :: srv_world where
  "server2 = at_server (AcceptChan 0) EPOLLIN server1"

definition server3 :: srv_world where
  "server3 = at_server (ConnChan 0) EPOLLIN server2"


lemmas run_defs = assertInLoopThread_def check_def isInLoopThread_def boot_loop_def chan_op_defs set_events_def
  updateChannel_def upd_loop_def upd_chan_def epoll_ctl_def Channel_ctor_def isNoneEvent_def event_defs runTask_def
  pushTask_defs wakeup_def Let_def remove_chan_def removeChannel_def in_thread_def boot_net_def net_world.defs
  cr_world.defs log_def conn_setState_def upd_conn_def tie_def connected_def isSending_def isRecving_def next_reply_def
  pop_reply_def handle_send_def run_action_def has_def call_def handle_one_def handleEvents_def
  handleEventsWithGuard_def conn_cbs_def codec_env_def default_env_def TCPConnection_ctor_def connectEstablished_def
  connectionCallback_def TCPHandle_of_fd_def shutdown_def shutdownInLoop_def

lemmas client_defs = run_defs client_connect_def connector_start_def connector_startInLoop_def connector_connect_def
  TCPClient_ctor_def Connector_ctor_def handle_connect_def TCPHandle_ctor_def connector_connecting_def cli_cbs_def
  connector_handleWrite_def next_sockerr_def getSocketError_def connector_removeChannel_def client_newConnection_def
  client_env_def query_client_app_def QueryClient_onConnection_def codec_send_def conn_send_def sendInLoop_def
  sendDirect_def pushWriteComplete_def length_query client0_def client1_def client2_def client3_def

lemmas server_defs = run_defs srv_cbs_def no_cbs_def server_env_def TCPServer_ctor_def Acceptor_listen_def
  Acceptor_handleRecv_def newConnection_def EventLoopThreadPool_ctor_def pool_start_def getNextLoop_def
  handle_listen_def handle_accept_def query_server_app_def server0_def server1_def server2_def

lemma client_run:
  "trace client2 = [Created 0, ConnCalled 0 True, Sent 0 query_bytes, Taken 0 query_bytes]"
  "trace client3 = [Created 0, ConnCalled 0 True, Sent 0 query_bytes, Taken 0 query_bytes, HalfClosed 0]"
  "sendBuffer (conns client2 0) = []"
  by (simp_all add: client_defs)

lemma server_run:
  "isRecving (chan_of 0 server2)" "next_reply server2 = Done 0 query_bytes" "recvBuffer (conns server2 0) = []"
  by (simp_all add: server_defs)

lemma start_run: "TCPServer_start id (server0\<lparr>self := 0\<rparr>) = Some server1"
  by (simp add: TCPServer_start_def server_defs)

lemma blank_run: "blank client0" "blank server0"
  by (simp_all add: blank_def client_defs server_defs)

definition server_heard :: "(query_msg, unit srv_world_ext) party" where
  "server_heard = \<lparr>party_world = server3, party_heard = query_bytes, party_got = [QueryMsg client_query]\<rparr>"


abbreviation query_steps ::
  "(query_msg, unit cli_world_ext cr_world_ext) party \<times> (query_msg, unit srv_world_ext) party \<Rightarrow>
   (query_msg, unit cli_world_ext cr_world_ext) party \<times> (query_msg, unit srv_world_ext) party \<Rightarrow> bool" where
  "query_steps \<equiv> (session_step query_proto cli_app srv_app (\<lambda>_ _. True) (\<lambda>_ _. True) 0 0)\<^sup>*\<^sup>*"

abbreviation client_turn ::
  "event list \<Rightarrow> (query_msg, unit cli_world_ext cr_world_ext) party \<Rightarrow> (query_msg, unit cli_world_ext cr_world_ext) party \<Rightarrow> bool" where
  "client_turn tr \<equiv> program_turn query_proto (client_owner (codec_env query_proto cli_app)) (\<lambda>_ _. True) 0 0 tr"

abbreviation server_turn ::
  "event list \<Rightarrow> (query_msg, unit srv_world_ext) party \<Rightarrow> (query_msg, unit srv_world_ext) party \<Rightarrow> bool" where
  "server_turn tr \<equiv> program_turn query_proto (server_owner (codec_env query_proto srv_app)) (\<lambda>_ _. True) 0 0 tr"

lemma client_turns: "client_turn tr (newborn client0) (newborn client1)" "client_turn tr (newborn client1) (newborn client2)"
  "client_turn tr (newborn client2) (newborn client3)"
proof -
  have "own_calls (client_owner (codec_env query_proto cli_app)) ((party_world (newborn client0 :: (query_msg, unit cli_world_ext cr_world_ext) party))\<lparr>self := 0\<rparr>) client1"
    by (simp add: newborn_def client1_def client_calls.connect)
  from program_turn.owner [OF this] show "client_turn tr (newborn client0) (newborn client1)" by (simp add: newborn_def)
  show "client_turn tr (newborn client1) (newborn client2)"
    using program_turn.elsewhere [of "ConnectChan 0" 0 query_proto "client_owner (codec_env query_proto cli_app)" "\<lambda>_ _. True" 0 tr
        "newborn client1" EPOLLOUT 0] by (simp add: newborn_def client2_def)
  have "\<not> unused 0 client2" by (simp add: unused_def client_run since_def about_def)
  then show "client_turn tr (newborn client2) (newborn client3)"
    using program_turn.application [of "AShutdown 0" 0 query_proto "newborn client2" "client_owner (codec_env query_proto cli_app)"
        "\<lambda>_ _. True" 0 tr 0] by (simp add: newborn_def client3_def says_on_def)
qed

lemma server_turns: "server_turn tr (newborn server0) (newborn server1)" "server_turn tr (newborn server1) (newborn server2)"
proof -
  have "own_calls (server_owner (codec_env query_proto srv_app)) ((party_world (newborn server0 :: (query_msg, unit srv_world_ext) party))\<lparr>self := 0\<rparr>) server1"
    using server_calls.start [OF start_run] by (simp add: newborn_def)
  from program_turn.owner [OF this] show "server_turn tr (newborn server0) (newborn server1)" by (simp add: newborn_def)
  show "server_turn tr (newborn server1) (newborn server2)"
    using program_turn.elsewhere [of "AcceptChan 0" 0 query_proto "server_owner (codec_env query_proto srv_app)" "\<lambda>_ _. True" 0 tr
        "newborn server1" EPOLLIN 0] by (simp add: newborn_def server2_def)
qed

lemma server_reads_query: "server_turn (trace client2) (newborn server2) server_heard"
proof -
  have "may_arrive 0 (trace client2) (newborn server2)"
    using length_query by (simp add: may_arrive_def newborn_def server_run client_run sent_bytes_def since_def recv_size_def)
      (auto simp: prefix_def)
  from program_turn.input [where t = 0 and W = "server_owner (codec_env query_proto srv_app)" and alive = "\<lambda>_ _. True" and d = 0 and P = query_proto, OF _ _ _ this, of EPOLLIN]
  have "server_turn (trace client2) (newborn server2) (hears query_proto 0 (newborn server2) server3)"
    using server_run(1) by (simp add: newborn_def server3_def reads_def has_def event_defs attended_def)
  moreover have "hears query_proto 0 (newborn server2) server3 = server_heard"
    using length_query by (auto simp: hears_def newborn_def arrived_def server_run server_heard_def query_handed_over Let_def)
  ultimately show ?thesis by simp
qed




lemma client_does: "client_turn (trace (party_world q)) p p' \<Longrightarrow> query_steps (p, q) (p', q)"
  by (rule r_into_rtranclp, rule session_step.client)

lemma server_does: "(server_turn (trace (party_world p)))\<^sup>*\<^sup>* q q' \<Longrightarrow> query_steps (p, q) (p, q')"
  by (induction rule: rtranclp_induct) (auto intro: rtranclp.rtrancl_into_rtrancl session_step.server)

lemma run_to_heard: "query_steps (newborn client0, newborn server0) (newborn client2, server_heard)"
proof -
  have "query_steps (newborn client0, newborn server0) (newborn client1, newborn server0)"
    by (rule client_does [OF client_turns(1)])
  also have "query_steps (newborn client1, newborn server0) (newborn client2, newborn server0)"
    by (rule client_does [OF client_turns(2)])
  also have "query_steps (newborn client2, newborn server0) (newborn client2, newborn server2)"
    by (rule server_does, rule rtranclp.rtrancl_into_rtrancl [OF r_into_rtranclp])
      (rule server_turns(1), rule server_turns(2))
  also have "query_steps (newborn client2, newborn server2) (newborn client2, server_heard)"
    using server_reads_query by (intro server_does r_into_rtranclp) (simp add: newborn_def)
  finally show ?thesis .
qed


lemma query_session:
  assumes "query_steps (newborn client0, newborn server0) pq"
  shows "session query_proto cli_app srv_app (\<lambda>_ _. True) (\<lambda>_ _. True) 0 0 pq"
  using assms blank_run unfolding session_def by blast

theorem session_delivers_witness:
  "sends_in 0 (trace client2) = map (fillEmptyBuffer query_proto) (party_got server_heard)"
  using session_delivers [OF query_session [OF run_to_heard] query_client.civil query_server.civil]
  by (auto simp: newborn_def server_heard_def client_run sent_bytes_def since_def)


end
