(* ===== verification/MessageLib.thy ===== *)
theory MessageLib
  imports ProtobufCodecLite
begin

text \<open>
  The part of the codecs that deals with the protobuf library in detail: the checks of
  \<^verbatim>\<open>fillEmptyBuffer\<close> around the serialization, with the texts of \<^verbatim>\<open>google-inl.h\<close>, and
  \<^verbatim>\<open>createMessage\<close>, which looks a type up. The library is the record \<open>message_lib\<close>, an argument.
  The lemmas say when the record \<open>proto\<close> of the codecs is all there is to know about it: the
  checks pass exactly when a message is initialized and the library writes as many bytes as it
  announced; otherwise the process ends with one of the texts, and nothing is sent.
\<close>

section \<open>The library\<close>

text \<open>
  \<open>ByteSize\<close> is what the size is before the message is written, \<open>ByteSizeAfter\<close> when it is
  asked once more; they differ when another thread changes the message in between.
\<close>

record ('m, 'd, 'p) message_lib =
  TypeName :: "'m \<Rightarrow> string"
  IsInitialized :: "'m \<Rightarrow> bool"
  InitializationErrorString :: "'m \<Rightarrow> string"
  ByteSize :: "'m \<Rightarrow> nat"
  ByteSizeAfter :: "'m \<Rightarrow> nat"
  SerializeWithCachedSizesToArray :: "'m \<Rightarrow> bytes"
  FindMessageTypeByName :: "string \<Rightarrow> 'd option"
  GetPrototype :: "'d \<Rightarrow> 'p option"
  New :: "'p \<Rightarrow> 'm"
  ParseInto :: "'m \<Rightarrow> bytes \<Rightarrow> 'm option"

section \<open>The texts\<close>

definition InitializationErrorMessage :: "string \<Rightarrow> ('m, 'd, 'p) message_lib \<Rightarrow> 'm \<Rightarrow> string" where
  "InitializationErrorMessage action L m =
     (let result1 = ''Can'' @ [CHR 0x27] @ ''t '';
          result2 = result1 @ action @ '' message of type '' @ [CHR 0x22] @ TypeName L m;
          result3 = result2 @ [CHR 0x22] @ '' because it is missing required fields: ''
      in result3 @ InitializationErrorString L m)"

text \<open>The text of the first check that fails; the process ends with it.\<close>

definition ByteSizeConsistencyError :: "nat \<Rightarrow> nat \<Rightarrow> nat \<Rightarrow> string" where
  "ByteSizeConsistencyError before after produced =
     (if before \<noteq> after then ''Protocol message was modified concurrently during serialization.''
      else if produced \<noteq> before then
        ''Byte size calculation and serialization were inconsistent.  This '' @
        ''may indicate a bug in protocol buffers or it may be caused by '' @
        ''concurrent modification of the message.''
      else ''This shouldn'' @ [CHR 0x27] @ ''t be called if all the sizes are equal.'')"

section \<open>Filling a buffer\<close>

text \<open>
  Behind the bytes \<open>front\<close>, the message; then the check sum of both. \<open>debug\<close>: the build has
  \<^verbatim>\<open>GOOGLE_DCHECK\<close>. Bytes that the library writes past the size it announced are written past
  the buffer, before the check ends the process.
\<close>

definition serialized :: "bool \<Rightarrow> ('m, 'd, 'p) message_lib \<Rightarrow> 'm \<Rightarrow> bytes \<Rightarrow> string + bytes" where
  "serialized debug L m front =
     (if debug \<and> \<not> IsInitialized L m then Inl (InitializationErrorMessage ''serialize'' L m)
      else
        let byte_size = ByteSize L m;
            written = SerializeWithCachedSizesToArray L m
        in if length written \<noteq> byte_size
           then Inl (ByteSizeConsistencyError byte_size (ByteSizeAfter L m) (length written))
           else Inr (front @ written))"

definition framed :: "(bytes \<Rightarrow> 32 word) \<Rightarrow> string + bytes \<Rightarrow> string + bytes" where
  "framed adler r =
     (case r of
        Inl msg \<Rightarrow> Inl msg
      | Inr buf1 \<Rightarrow>
          let buf2 = buf1 @ be32 (adler buf1)
          in Inr (be32 (word_of_nat (length buf2)) @ buf2))"

definition checked_fillEmptyBuffer ::
  "bool \<Rightarrow> ('m, 'd, 'p) message_lib \<Rightarrow> (bytes \<Rightarrow> 32 word) \<Rightarrow> 'm \<Rightarrow> string + bytes" where
  "checked_fillEmptyBuffer debug L adler m =
     (let typeName = TypeName L m;
          nameLen = length typeName + 1
      in framed adler (serialized debug L m (be32 (word_of_nat nameLen) @ typeName @ [CHR 0x00])))"

definition checked_lite_fillEmptyBuffer ::
  "bool \<Rightarrow> ('m, 'd, 'p) message_lib \<Rightarrow> (bytes \<Rightarrow> 32 word) \<Rightarrow> string \<Rightarrow> 'm \<Rightarrow> string + bytes" where
  "checked_lite_fillEmptyBuffer debug L adler t m = framed adler (serialized debug L m t)"

section \<open>Making a message\<close>

definition codec_createMessage :: "('m, 'd, 'p) message_lib \<Rightarrow> string \<Rightarrow> 'm option" where
  "codec_createMessage L typeName =
     (case FindMessageTypeByName L typeName of
        None \<Rightarrow> None
      | Some descriptor \<Rightarrow>
          (case GetPrototype L descriptor of
             None \<Rightarrow> None
           | Some p \<Rightarrow> Some (New L p)))"

text \<open>What of the library the codecs depend on, as the record they take.\<close>

definition proto_of :: "('m, 'd, 'p) message_lib \<Rightarrow> (bytes \<Rightarrow> 32 word) \<Rightarrow> 'm proto" where
  "proto_of L adler = \<lparr>GetTypeName = TypeName L, serialize = SerializeWithCachedSizesToArray L,
     registered = (\<lambda>t. codec_createMessage L t \<noteq> None),
     ParseFromArray = (\<lambda>t bs. case codec_createMessage L t of None \<Rightarrow> None | Some m \<Rightarrow> ParseInto L m bs),
     adler32 = adler\<rparr>"

section \<open>When the checks pass\<close>

definition consistent :: "bool \<Rightarrow> ('m, 'd, 'p) message_lib \<Rightarrow> 'm \<Rightarrow> bool" where
  "consistent debug L m \<longleftrightarrow> (debug \<longrightarrow> IsInitialized L m) \<and> length (SerializeWithCachedSizesToArray L m) = ByteSize L m"

lemma framed_simps [simp]:
  "framed adler (Inl msg) = Inl msg"
  "framed adler (Inr buf) = Inr (be32 (word_of_nat (length buf + 4)) @ buf @ be32 (adler buf))"
  by (simp_all add: framed_def Let_def)

lemma serialized_consistent: "consistent debug L m \<Longrightarrow> serialized debug L m front = Inr (front @ SerializeWithCachedSizesToArray L m)"
  by (simp add: serialized_def consistent_def Let_def)

lemma serialized_inconsistent: "\<not> consistent debug L m \<Longrightarrow> \<exists>msg. serialized debug L m front = Inl msg"
  by (auto simp: serialized_def consistent_def Let_def)

theorem fill_checked:
  "(consistent debug L m \<and> checked_fillEmptyBuffer debug L adler m = Inr (fillEmptyBuffer (proto_of L adler) m)) \<or>
   (\<not> consistent debug L m \<and> (\<exists>msg. checked_fillEmptyBuffer debug L adler m = Inl msg))"
proof (cases "consistent debug L m")
  case True
  then show ?thesis
    by (simp add: checked_fillEmptyBuffer_def serialized_consistent fillEmptyBuffer_frame frame_body_def proto_of_def Let_def)
next
  case False
  then obtain msg where "serialized debug L m (be32 (word_of_nat (length (TypeName L m) + 1)) @ TypeName L m @ [CHR 0x00]) = Inl msg"
    using serialized_inconsistent [OF False] by blast
  with False show ?thesis by (auto simp: checked_fillEmptyBuffer_def Let_def)
qed

theorem lite_fill_checked:
  assumes "lib C = proto_of L adler"
  shows "checked_lite_fillEmptyBuffer debug L adler (tag C) m =
    (if consistent debug L m then Inr (lite_fillEmptyBuffer C m) else serialized debug L m (tag C))"
proof (cases "consistent debug L m")
  case True
  then show ?thesis
    using assms by (simp add: checked_lite_fillEmptyBuffer_def serialized_consistent lite_fillEmptyBuffer_def proto_of_def Let_def)
next
  case False
  then obtain msg where "serialized debug L m (tag C) = Inl msg" using serialized_inconsistent [OF False] by blast
  with False show ?thesis by (simp add: checked_lite_fillEmptyBuffer_def)
qed

text \<open>The last text of \<^verbatim>\<open>ByteSizeConsistencyError\<close> is never printed by a codec.\<close>

lemma sizes_differ:
  "serialized debug L m front \<noteq> Inl (ByteSizeConsistencyError n n n)"
  by (auto simp: serialized_def ByteSizeConsistencyError_def InitializationErrorMessage_def Let_def)

section \<open>A message that is too long\<close>

text \<open>
  Nothing checks a length on the way out: a message whose frame is longer than the limit is
  filled and sent like any other, and the receiver reports \<^verbatim>\<open>kInvalidLength\<close> for it, and for
  everything that follows.
\<close>

theorem too_long_rejected:
  assumes "kMaxMessageLen < length (frame_body P m) + 4" "length (frame_body P m) + 4 < 2 ^ 31"
  shows "codec_onMessage P (fillEmptyBuffer P m @ later) = ([], Some kInvalidLength, fillEmptyBuffer P m @ later)"
proof -
  define n where "n = length (frame_body P m) + 4"
  have "n < 2147483648" using assms(2) by (simp add: n_def)
  then have "sint (asInt32 (fillEmptyBuffer P m @ later)) = int n"
    unfolding fillEmptyBuffer_frame n_def [symmetric] append_assoc asInt32_be32 by (rule sint_word_of_nat)
  moreover have "kMinMessageLen + kHeaderLen \<le> length (fillEmptyBuffer P m @ later)"
    using assms(1) by (simp add: fillEmptyBuffer_frame kMinMessageLen_def kHeaderLen_def kMaxMessageLen_def)
  moreover have "int kMaxMessageLen < int n" using assms(1) by (simp add: n_def)
  ultimately show ?thesis by (subst codec_onMessage.simps) (simp add: Let_def)
qed

end
