(* ===== verification/BenchMain.thy ===== *)
theory BenchMain
  imports PingPong CxxString
begin

text \<open>
  \<^verbatim>\<open>main\<close> of \<^verbatim>\<open>src/examples/pingpong_bench.cc\<close>: its options, the ring of socket pairs, and the
  rounds one after the other. The channels it takes down at the end and the times it prints
  are left out.
\<close>

section \<open>Options\<close>

record bench_conf =
  conf_pipes :: int
  conf_active :: int
  conf_writes :: int

text \<open>
  \<^verbatim>\<open>main\<close> returns, the process fails (an exception that nothing catches, or undefined
  behaviour), it waits for ever, or it goes on.
\<close>

datatype 'a main_end = Exits int | Dies | Hangs | Goes 'a

definition bench_defaults :: bench_conf where
  "bench_defaults = \<lparr>conf_pipes = 100, conf_active = 1, conf_writes = 100\<rparr>"

text \<open>The answers of \<^verbatim>\<open>getopt\<close>, each with \<^verbatim>\<open>optarg\<close>.\<close>

fun bench_options :: "(char \<times> string) list \<Rightarrow> bench_conf \<Rightarrow> bench_conf main_end" where
  "bench_options [] c = Goes c"
| "bench_options ((x, optarg) # xs) c =
     (if x = CHR ''n'' then (case atoi optarg of None \<Rightarrow> Dies | Some n \<Rightarrow> bench_options xs (c\<lparr>conf_pipes := n\<rparr>))
      else if x = CHR ''a'' then (case atoi optarg of None \<Rightarrow> Dies | Some n \<Rightarrow> bench_options xs (c\<lparr>conf_active := n\<rparr>))
      else if x = CHR ''w'' then (case atoi optarg of None \<Rightarrow> Dies | Some n \<Rightarrow> bench_options xs (c\<lparr>conf_writes := n\<rparr>))
      else Exits 1)"

section \<open>The ring\<close>

text \<open>
  \<open>pairs\<close> are the answers of \<^verbatim>\<open>socketpair\<close>, and \<open>cap\<close> is what the buffer of a socket takes. The limit
  on descriptors is computed first, and overflows with too many pairs; a negative size is a
  huge one to \<^verbatim>\<open>resize\<close>, which throws.
  The first round divides by the number of active pairs, and sends to the first pair even
  when there is none; with a negative number of active pairs it sends nothing, and its loop
  waits for ever.
\<close>

definition bench_ring :: "nat \<Rightarrow> bool list \<Rightarrow> bench_conf \<Rightarrow> bench main_end" where
  "bench_ring cap pairs c =
     (if conf_pipes c < 0 \<or> 2 ^ 31 \<le> conf_pipes c * 2 + 50 then Dies
      else if False \<in> set (take (nat (conf_pipes c)) pairs) then Exits 1
      else if conf_active c = 0 \<or> 0 < conf_active c \<and> conf_pipes c = 0 then Dies
      else if conf_active c < 0 then Hangs
      else Goes \<lparr>numPipes = nat (conf_pipes c), numActive = nat (conf_active c), capacity = cap,
                 pending = replicate (nat (conf_pipes c)) 0, g_reads = 0, g_writes = 0, g_fired = 0, bench_quit = False\<rparr>)"

text \<open>\<open>main\<close> up to its rounds, and the rounds: the loop of each runs until it is told to quit.\<close>

definition bench_setup :: "nat \<Rightarrow> (char \<times> string) list \<Rightarrow> bool list \<Rightarrow> (int \<times> bench) main_end" where
  "bench_setup cap opts pairs =
     (case bench_options opts bench_defaults of
        Exits n \<Rightarrow> Exits n
      | Dies \<Rightarrow> Dies
      | Hangs \<Rightarrow> Hangs
      | Goes c \<Rightarrow>
          (case bench_ring cap pairs c of
             Exits n \<Rightarrow> Exits n
           | Dies \<Rightarrow> Dies
           | Hangs \<Rightarrow> Hangs
           | Goes b \<Rightarrow> Goes (conf_writes c, b)))"

inductive bench_rounds :: "nat \<Rightarrow> int \<Rightarrow> bench \<Rightarrow> bench \<Rightarrow> bool" where
  no_round: "bench_rounds 0 w b b"
| next_round: "bench_rounds k w b c \<Longrightarrow> runOnce w c = Ran c0 \<Longrightarrow> bench_run n c0 d \<Longrightarrow> bench_quit d \<Longrightarrow>
    bench_rounds (Suc k) w b d"

definition bench_iterations :: nat where
  "bench_iterations = 25"

section \<open>Every round ends\<close>

definition idle_ring :: "int \<Rightarrow> bench \<Rightarrow> bool" where
  "idle_ring w b \<longleftrightarrow>
     length (pending b) = numPipes b \<and> in_flight b = 0 \<and> 0 < numPipes b \<and> 0 < numActive b \<and> bench_fits w b"

lemma setup_idle:
  assumes "bench_setup cap opts pairs = Goes (w, b)" "0 \<le> w" "numActive b \<le> cap" "int (numActive b) + w < 2 ^ 31"
  shows "idle_ring w b"
  using assms
  by (auto simp: bench_setup_def bench_ring_def idle_ring_def in_flight_def bench_fits_def split: main_end.splits if_splits)

lemma idle_starts:
  assumes "idle_ring w b"
  obtains b0 where "runOnce w b = Ran b0" "bench_inv w 0 b0" "same_ring b b0" "bench_fits w b0"
proof -
  obtain b0 where "runOnce w b = Ran b0" "bench_inv w 0 b0" "same_ring b b0"
    using assms runOnce_inv [of b w] by (auto simp: idle_ring_def)
  moreover from this have "bench_fits w b0" using assms by (simp add: idle_ring_def bench_fits_def same_ring_def)
  ultimately show ?thesis by (rule that)
qed

lemma round_inv:
  assumes "idle_ring w b" "runOnce w b = Ran b0" "bench_run n b0 c"
  shows "bench_inv w n c" "same_ring b c"
proof -
  obtain c0 where c0: "runOnce w b = Ran c0" "bench_inv w 0 c0" "same_ring b c0" "bench_fits w c0"
    using idle_starts [OF assms(1)] .
  with assms(2) have "c0 = b0" by simp
  with bench_run_inv [OF assms(3)] c0 show "bench_inv w n c" "same_ring b c"
    using same_ring_trans by blast+
qed

lemma round_idle:
  assumes "idle_ring w b" "runOnce w b = Ran b0" "bench_run n b0 c" "bench_quit c"
  shows "idle_ring w c \<and> same_ring b c"
  using round_inv [OF assms(1-3)] assms(1,4) by (auto simp: idle_ring_def bench_inv_def bench_fits_def same_ring_def)

lemma rounds_idle: "bench_rounds k w b c \<Longrightarrow> idle_ring w b \<Longrightarrow> idle_ring w c \<and> same_ring b c"
proof (induction rule: bench_rounds.induct)
  case (no_round w b)
  then show ?case by (simp add: same_ring_def)
next
  case (next_round k w b c c0 n d)
  then have "idle_ring w c" "same_ring b c" by blast+
  with round_idle [OF _ next_round.hyps(2-4)] same_ring_trans show ?case by blast
qed

text \<open>A round that is under way can be finished.\<close>

lemma round_continues:
  assumes "idle_ring w b" "runOnce w b = Ran b0" "bench_run n b0 c"
  shows "\<exists>m d. bench_run m b0 d \<and> bench_quit d"
  using assms(3)
proof (induction "nat (int (numActive b) + w - int n)" arbitrary: n c rule: less_induct)
  case less
  have b: "length (pending b) = numPipes b" "in_flight b = 0" "0 < numPipes b" "0 < numActive b" "bench_fits w b"
    using assms(1) by (simp_all add: idle_ring_def)
  note E = bench_round_ends [OF assms(2) b less.prems]
  show ?case
  proof (cases "bench_quit c")
    case True
    with less.prems show ?thesis by blast
  next
    case False
    with E obtain i d where i: "int n < int (numActive b) + w" "i < numPipes b" "readCallback i c = Ran d"
      by (auto simp: Let_def split: if_splits)
    have "numPipes c = numPipes b" using round_inv(2) [OF assms(1,2) less.prems] by (simp add: same_ring_def)
    with i less.prems have "bench_run (Suc n) b0 d" by (auto intro: bench_read)
    then show ?thesis by (rule less.hyps [rotated]) (use i(1) in simp)
  qed
qed

lemma rounds_exist:
  assumes "idle_ring w b"
  shows "\<exists>c. bench_rounds k w b c"
proof (induction k)
  case 0
  show ?case by (blast intro: no_round)
next
  case (Suc k)
  then obtain c where c: "bench_rounds k w b c" by blast
  with assms rounds_idle have idle: "idle_ring w c" by blast
  then obtain c0 where c0: "runOnce w c = Ran c0" using idle_starts by blast
  from round_continues [OF idle c0 bench_start] c c0 show ?case by (blast intro: next_round)
qed

text \<open>
  C34. The benchmark runs through: with options that give a ring, no negative number of writes,
  no more active pairs than the buffer of one socket takes messages, and a sum of active pairs
  and writes that is an \<^verbatim>\<open>int\<close>, each of its rounds starts from an idle ring without blocking in
  its first sends, whatever order the callbacks came in before; within the round the callbacks
  are at most as many as the messages asked for, while they are fewer some pair has a byte, the
  callback of each such pair returns and the loop is not told to quit, and when they are equal
  the loop is told to quit and the ring is idle; and all rounds can be run to their end.
\<close>

theorem bench_runs_through:
  assumes "bench_setup cap opts pairs = Goes (w, b)" "0 \<le> w"
    and "numActive b \<le> cap" "int (numActive b) + w < 2 ^ 31"
  shows "(\<exists>c. bench_rounds bench_iterations w b c) \<and>
    (\<forall>k c. bench_rounds k w b c \<longrightarrow>
       (\<exists>c0. runOnce w c = Ran c0 \<and>
         (\<forall>n d. bench_run n c0 d \<longrightarrow>
            (let messages = int (numActive b) + w in
               int n \<le> messages \<and>
               (if int n < messages then
                  \<not> bench_quit d \<and> (\<exists>i<numPipes b. 0 < pending d ! i) \<and>
                  (\<forall>i<numPipes b. 0 < pending d ! i \<longrightarrow> (\<exists>e. readCallback i d = Ran e))
                else bench_quit d \<and> in_flight d = 0)))))"
proof (intro conjI allI impI)
  have idle: "idle_ring w b" by (rule setup_idle [OF assms])
  show "\<exists>c. bench_rounds bench_iterations w b c" by (rule rounds_exist [OF idle])
  fix k c
  assume "bench_rounds k w b c"
  then have c: "idle_ring w c" "numPipes c = numPipes b" "numActive c = numActive b"
    using rounds_idle [OF _ idle] by (auto simp: same_ring_def)
  then have ring: "length (pending c) = numPipes c" "in_flight c = 0" "0 < numPipes c" "0 < numActive c" "bench_fits w c"
    by (simp_all add: idle_ring_def)
  obtain c0 where c0: "runOnce w c = Ran c0" using idle_starts [OF c(1)] by blast
  from bench_round_ends [OF c0 ring] c0 show "\<exists>c0. runOnce w c = Ran c0 \<and>
         (\<forall>n d. bench_run n c0 d \<longrightarrow>
            (let messages = int (numActive b) + w in
               int n \<le> messages \<and>
               (if int n < messages then
                  \<not> bench_quit d \<and> (\<exists>i<numPipes b. 0 < pending d ! i) \<and>
                  (\<forall>i<numPipes b. 0 < pending d ! i \<longrightarrow> (\<exists>e. readCallback i d = Ran e))
                else bench_quit d \<and> in_flight d = 0)))"
    unfolding c(2,3) Let_def by blast
qed

text \<open>
  Numbers of pairs the program does not expect: with no active pair it divides by zero, and with
  400 active ones of its 100 pairs it never gets to its loop, when the buffer of a socket takes
  fewer than 400 messages.
\<close>

lemma no_active_dies: "bench_setup cap [(CHR ''a'', ''0'')] [] = Dies"
proof -
  have "atoi ''0'' = Some 0" by code_simp
  then show ?thesis by (simp add: bench_setup_def bench_ring_def bench_defaults_def)
qed

lemma many_active_block:
  assumes "cap < 400"
  shows "\<exists>b. bench_setup cap [(CHR ''a'', ''400'')] [] = Goes (100, b) \<and> runOnce 100 b = Blocks"
proof -
  have "atoi ''400'' = Some 400" by code_simp
  then obtain b where "bench_setup cap [(CHR ''a'', ''400'')] [] = Goes (100, b)" "numPipes b = 100" "numActive b = 400"
      "capacity b = cap" "pending b = replicate 100 0"
    by (simp add: bench_setup_def bench_ring_def bench_defaults_def)
  moreover from this assms have "runOnce 100 b = Blocks" by (intro too_many_active_block) simp_all
  ultimately show ?thesis by blast
qed

theorem bench_runs_through_witness:
  "\<exists>w b c. bench_setup 200 [(CHR ''a'', ''7'')] [] = Goes (w, b) \<and> w = 100 \<and> numPipes b = 100 \<and> numActive b = 7 \<and>
     bench_rounds 25 w b c"
proof -
  have "atoi ''7'' = Some 7" by code_simp
  then obtain b where b: "bench_setup 200 [(CHR ''a'', ''7'')] [] = Goes (100, b)" "numPipes b = 100" "numActive b = 7"
    by (simp add: bench_setup_def bench_ring_def bench_defaults_def)
  from bench_runs_through [OF b(1)] b show ?thesis by (auto simp: bench_iterations_def)
qed

end
