(* ===== verification/Mains.thy ===== *)
theory Mains
  imports Session MaxConnection BenchMain
begin

text \<open>
  \<^verbatim>\<open>main\<close> of \<^verbatim>\<open>echoserver.cc\<close>, \<^verbatim>\<open>max_connection.cc\<close>, \<^verbatim>\<open>protobuf_server.cc\<close> and
  \<^verbatim>\<open>protobuf_client.cc\<close>, up to the call of \<^verbatim>\<open>loop\<close>: how the arguments become ports, numbers of
  threads and messages, and how loop, server or client are made and started. The worlds they
  leave the loop with are those a session of two programs passes through, so what holds of
  sessions holds of the programs as they are called from a shell.
\<close>

section \<open>Servers\<close>

text \<open>The kernel's answers while a server starts, and the loops its threads will run.\<close>

record server_answers =
  sa_event :: fd
  sa_acceptor :: acceptor_answers
  sa_listen :: "unit sys_result"
  sa_null :: fd
  sa_accepts :: "(fd \<times> sockaddr \<times> sockaddr) sys_result list"
  sa_loops :: "nat \<Rightarrow> loop_id"

text \<open>
  \<^verbatim>\<open>EventLoop loop; TCPServer server(ip, port, &loop, name);\<close> then \<open>setup\<close>, and \<^verbatim>\<open>start\<close>. The
  loop is number 0; the answer of \<^verbatim>\<open>inet_addr\<close> for \<^verbatim>\<open>0.0.0.0\<close> is 0.
\<close>

definition server_start ::
  "server_answers \<Rightarrow> srv_world \<Rightarrow> srv_world main_end" where
  "server_start K w =
     (case TCPServer_start (sa_loops K) w of
        None \<Rightarrow> Dies
      | Some w1 \<Rightarrow> if listening w1 then Goes w1 else Dies)"

definition server_main ::
  "server_answers \<Rightarrow> string \<Rightarrow> 16 word \<Rightarrow> string \<Rightarrow> (srv_world \<Rightarrow> srv_world) \<Rightarrow> net_world \<Rightarrow> srv_world main_end" where
  "server_main K ip port name setup w =
     (case EventLoop_ctor 0 (sa_event K) w of
        None \<Rightarrow> Dies
      | Some w1 \<Rightarrow>
          (case Acceptor_ctor (sa_acceptor K) 0 port of
             None \<Rightarrow> Dies
           | Some (h, _) \<Rightarrow>
               server_start K (setup
                 (TCPServer_ctor ip port 0 name h False (sa_accepts K) (sa_listen K) (sa_null K) w1))))"

text \<open>The list of the arguments starts with the name of the program.\<close>

definition echoserver_main :: "string list \<Rightarrow> server_answers \<Rightarrow> net_world \<Rightarrow> srv_world main_end" where
  "echoserver_main args K w =
     (case (if 1 < length args then atoi (args ! 1) else Some 0) of
        None \<Rightarrow> Dies
      | Some threads \<Rightarrow> server_main K ''0.0.0.0'' 1234 ''EchoServer'' (setThreadNum threads) w)"

definition query_server_main :: "string list \<Rightarrow> server_answers \<Rightarrow> net_world \<Rightarrow> srv_world main_end" where
  "query_server_main args K w =
     (if 1 < length args then
        (case atoi (args ! 1) of
           None \<Rightarrow> Dies
         | Some p \<Rightarrow> server_main K ''0.0.0.0'' (word_of_int p) ''QueryServer'' (\<lambda>v. v) w)
      else Exits 0)"

text \<open>
  In \<^verbatim>\<open>max_connection.cc\<close> the server is a member declared before the loop: it is made first, with
  the address of the loop that follows. The result has the bound for \<^const>\<open>mc_user\<close>.
\<close>

definition max_connection_main :: "string list \<Rightarrow> server_answers \<Rightarrow> net_world \<Rightarrow> (int \<times> srv_world) main_end" where
  "max_connection_main args K w =
     (case (if 1 < length args then atoi (args ! 1) else Some 5) of
        None \<Rightarrow> Dies
      | Some maxConn \<Rightarrow>
          (case Acceptor_ctor (sa_acceptor K) 0 10001 of
             None \<Rightarrow> Dies
           | Some (h, _) \<Rightarrow>
               (case EventLoop_ctor 0 (sa_event K)
                   (TCPServer_ctor ''0.0.0.0'' 10001 0 ''EchoServer'' h False (sa_accepts K) (sa_listen K) (sa_null K) w) of
                  None \<Rightarrow> Dies
                | Some w1 \<Rightarrow>
                    (case server_start K w1 of
                       Exits n \<Rightarrow> Exits n
                     | Dies \<Rightarrow> Dies
                     | Hangs \<Rightarrow> Hangs
                     | Goes w2 \<Rightarrow> Goes (maxConn, w2)))))"

section \<open>The client\<close>

record client_answers =
  ca_event :: fd
  ca_dials :: "(fd option \<times> unit sys_result) list"
  ca_sockerrs :: "errno option sys_result list"

definition no_id :: Empty where
  "no_id = \<lparr>empty_id = None\<rparr>"

text \<open>The result has the message the client sends when it is connected.\<close>

definition query_client_main ::
  "string list \<Rightarrow> client_answers \<Rightarrow> net_world \<Rightarrow> (query_msg \<times> cli_world) main_end" where
  "query_client_main args K w =
     (if 2 < length args then
        (case EventLoop_ctor 0 (ca_event K) w of
           None \<Rightarrow> Dies
         | Some w1 \<Rightarrow>
             (case atoi (args ! 2) of
                None \<Rightarrow> Dies
              | Some p \<Rightarrow>
                  let messageToSend =
                        (if 3 < length args \<and> take 1 (args ! 3) = ''e'' then EmptyMsg no_id else QueryMsg client_query)
                  in Goes (messageToSend, client_connect
                       (TCPClient_ctor (args ! 1) (word_of_int p) ''QueryClient'' False
                         (Connector_ctor 0 (ca_dials K) (ca_sockerrs K) w1)))))
      else Exits 0)"

section \<open>What the arguments lead to\<close>

lemma server_main_Goes:
  assumes "server_main K ip port name setup w = Goes v"
  obtains w1 h where "EventLoop_ctor 0 (sa_event K) w = Some w1"
    "TCPServer_start (sa_loops K) (setup
       (TCPServer_ctor ip port 0 name h False (sa_accepts K) (sa_listen K) (sa_null K) w1)) = Some v" "listening v"
  using assms by (auto simp: server_main_def server_start_def split: option.splits prod.splits if_splits)

lemma port_word: "p < 65536 \<Longrightarrow> uint (word_of_int (int p) :: 16 word) = int p"
  by (subst uint_word_of_int) simp

text \<open>A number that is no port is taken for another one.\<close>

lemma port_wraps: "atoi ''65616'' = Some 65616" "(word_of_int 65616 :: 16 word) = 80"
  by (simp_all add: atoi_def stoi_def is_space_def is_digit_def sign_of_def decimal_def digit_value_def Let_def)

lemma started_pool:
  fixes w :: srv_world
  assumes "TCPServer_start new w = Some v"
  shows "Some (threadPool v) = pool_start new (threadPool w)" "srv_port v = srv_port w"
proof -
  obtain p where p: "pool_start new (threadPool w) = Some p"
    "v = runTask (srv_loop w) Acceptor_listen AcceptorListen (w\<lparr>threadPool := p\<rparr>)"
    using assms by (auto simp: TCPServer_start_def split: option.splits)
  have "threadPool (Acceptor_listen u) = threadPool u \<and> srv_port (Acceptor_listen u) = srv_port u"
    "threadPool (pushTask l f u) = threadPool u \<and> srv_port (pushTask l f u) = srv_port u" for l f and u :: srv_world
  proof -
    have more: "net_world.more (assertInLoopThread l u) = net_world.more u" "net_world.more (enableRecv ch u) = net_world.more u"
      "net_world.more (pushTask l f u) = net_world.more u" for ch and l f and u :: srv_world
      by (rule more_net, simp add: frame chan_op_defs)+
    show "threadPool (pushTask l f u) = threadPool u \<and> srv_port (pushTask l f u) = srv_port u"
      using more_srv [OF more(3)] by simp
    show "threadPool (Acceptor_listen u) = threadPool u \<and> srv_port (Acceptor_listen u) = srv_port u"
      by (simp add: Acceptor_listen_def Let_def more_srv [OF more(1)] more_srv [OF more(2)] split: option.split)
  qed
  then show "Some (threadPool v) = pool_start new (threadPool w)" "srv_port v = srv_port w"
    using p by (simp_all add: runTask_def)
qed

text \<open>The echo server with a number of threads starts that many loops.\<close>

lemma echoserver_threads:
  assumes "echoserver_main [prog, nat_to_string n] K w = Goes v" "n < 2147483648"
  shows "pool_loops (threadPool v) = map (sa_loops K) [0..<n]" "srv_port v = 1234"
proof -
  obtain w1 h where v: "TCPServer_start (sa_loops K) (setThreadNum (int n)
      (TCPServer_ctor ''0.0.0.0'' 1234 0 ''EchoServer'' h False (sa_accepts K) (sa_listen K) (sa_null K) w1)) = Some v"
    using assms by (auto simp: echoserver_main_def atoi_to_string elim: server_main_Goes)
  from started_pool [OF v] show "pool_loops (threadPool v) = map (sa_loops K) [0..<n]" "srv_port v = 1234"
    by (simp_all add: TCPServer_ctor_def setThreadNum_def pool_start_def pool_setThreadNum_def EventLoopThreadPool_ctor_def
        net_world.defs split: if_splits)
qed

section \<open>The query programs\<close>

lemma ctor_blank:
  fixes w :: "'z net_world_scheme"
  assumes "blank w" "EventLoop_ctor l f w = Some w1"
  shows "blank w1"
proof -
  have "ch_events (chan_of c (enableRecv (WakeupChan l) u)) = ch_events (chan_of c u)" for c and u :: "'z net_world_scheme"
    by (simp add: chan_op_defs effect)
  moreover have "conns (enableRecv ch u) = conns u" "trace (enableRecv ch u) = trace u"
    "taskQueue (loops (enableRecv ch u) k) = taskQueue (loops u k)" for ch k and u :: "'z net_world_scheme"
    by (simp_all add: chan_op_defs frame)
  ultimately show ?thesis
    using assms by (auto simp: blank_def EventLoop_ctor_def Let_def split: option.splits)
qed

lemma query_client_started:
  assumes "query_client_main args K w = Goes (m, v)" "blank w"
  shows "\<exists>v0 :: cli_world. blank v0 \<and> v = client_connect (v0\<lparr>self := self v0\<rparr>) \<and> m \<in> {EmptyMsg no_id, QueryMsg client_query}"
proof -
  obtain w1 p where w1: "EventLoop_ctor 0 (ca_event K) w = Some w1" and
    v: "v = client_connect (TCPClient_ctor (args ! 1) p ''QueryClient'' False (Connector_ctor 0 (ca_dials K) (ca_sockerrs K) w1))"
      "m \<in> {EmptyMsg no_id, QueryMsg client_query}"
    using assms(1) by (auto simp: query_client_main_def Let_def split: if_splits option.splits)
  have "blank (TCPClient_ctor (args ! 1) p ''QueryClient'' False (Connector_ctor 0 (ca_dials K) (ca_sockerrs K) w1))"
    using ctor_blank [OF assms(2) w1] by (simp add: TCPClient_ctor_def Connector_ctor_def blank_def net_world.defs cr_world.defs)
  with v show ?thesis by force
qed

lemma query_server_started:
  assumes "query_server_main args K w = Goes v" "blank w"
  shows "\<exists>v0 :: srv_world. blank v0 \<and> TCPServer_start (sa_loops K) (v0\<lparr>self := self v0\<rparr>) = Some v"
proof -
  obtain p where "server_main K ''0.0.0.0'' p ''QueryServer'' (\<lambda>v. v) w = Goes v"
    using assms(1) by (auto simp: query_server_main_def split: if_splits option.splits)
  then obtain w1 h where w1: "EventLoop_ctor 0 (sa_event K) w = Some w1"
    "TCPServer_start (sa_loops K) (TCPServer_ctor ''0.0.0.0'' p 0 ''QueryServer'' h False (sa_accepts K) (sa_listen K) (sa_null K) w1) = Some v"
    by (rule server_main_Goes)
  moreover have "blank (TCPServer_ctor ''0.0.0.0'' p 0 ''QueryServer'' h False (sa_accepts K) (sa_listen K) (sa_null K) w1)"
    using ctor_blank [OF assms(2) w1(1)] by (simp add: TCPServer_ctor_def blank_def net_world.defs)
  ultimately show ?thesis by force
qed

lemma mains_session:
  fixes before before' :: net_world
  assumes "query_client_main args K before = Goes (m, v)" "query_server_main args' K' before' = Goes w"
    and "blank before" "blank before'"
  shows "session P (query_client_app P m 0 close) (query_server_app P close') alive alive' c d (newborn v, newborn w)"
proof -
  let ?A = "query_client_app P m 0 close" and ?B = "query_server_app P close'"
  obtain v0 w0 where v0: "blank v0" "v = client_connect (v0\<lparr>self := self v0\<rparr>)"
    and w0: "blank w0" "TCPServer_start (sa_loops K') (w0\<lparr>self := self w0\<rparr>) = Some w"
    using query_client_started [OF assms(1,3)] query_server_started [OF assms(2,4)] by blast
  have "own_calls (client_owner (codec_env P ?A)) ((party_world (newborn v0 :: (query_msg, unit cli_world_ext cr_world_ext) party))\<lparr>self := self v0\<rparr>) v"
    using v0(2) client_calls.connect by (simp add: newborn_def)
  from session_step.client [OF program_turn.owner [OF this]]
  have "session_step P ?A ?B alive alive' c d (newborn v0, newborn w0) (newborn v, newborn w0)" by (simp add: newborn_def)
  moreover have "own_calls (server_owner (codec_env P ?B)) ((party_world (newborn w0 :: (query_msg, unit srv_world_ext) party))\<lparr>self := self w0\<rparr>) w"
    using server_calls.start [OF w0(2)] by (simp add: newborn_def)
  from session_step.server [OF program_turn.owner [OF this]]
  have "session_step P ?A ?B alive alive' c d (newborn v, newborn w0) (newborn v, newborn w)" by (simp add: newborn_def)
  ultimately have "(session_step P ?A ?B alive alive' c d)\<^sup>*\<^sup>* (newborn v0, newborn w0) (newborn v, newborn w)" by simp
  with v0(1) w0(1) show ?thesis unfolding session_def by blast
qed

lemma session_continues:
  assumes "session P A B alive alive' c d pq" "(session_step P A B alive alive' c d)\<^sup>*\<^sup>* pq pq'"
  shows "session P A B alive alive' c d pq'"
  using assms unfolding session_def by (meson rtranclp_trans)

text \<open>
  The query programs as they are called: whatever the arguments, when both get as far as their
  loop, then from there on the server is handed what the client has taken for sending, in
  order, and nothing else, and the client what the server has.
\<close>

theorem query_programs_deliver:
  fixes before before' :: net_world
  assumes "query_client_main args K before = Goes (m, v)" "query_server_main args' K' before' = Goes w"
    and "blank before" "blank before'" "codec_ok P m" "codec_ok P (AnswerMsg the_answer)"
    and "(session_step P (query_client_app P m 0 (\<lambda>c w. w)) (query_server_app P (\<lambda>c w. w)) alive alive' c d)\<^sup>*\<^sup>*
      (newborn v, newborn w) (p, q)"
  shows "\<exists>later back.
    sends_in c (trace (party_world p)) = map (fillEmptyBuffer P) (party_got q @ later) \<and>
    sends_in d (trace (party_world q)) = map (fillEmptyBuffer P) (party_got p @ back)"
proof -
  have "session P (query_client_app P m 0 (\<lambda>c w. w)) (query_server_app P (\<lambda>c w. w)) alive alive' c d (p, q)"
    by (rule session_continues [OF mains_session [OF assms(1-4)] assms(7)])
  from codec_end_to_end [OF session_linked [OF this client_civil [OF assms(5)] query_civil [OF assms(6)]]]
  show ?thesis by blast
qed

end
