(* ===== verification/RpcOwnership.thy ===== *)
theory RpcOwnership
  imports Rpc "HOL-Library.Multiset"
begin

text \<open>
  Who deletes what: a caller gives \<^verbatim>\<open>RpcChannel::CallMethod\<close> a response object and a closure, and
  the channel owns them until the response has come, or the channel goes. Over every run of
  a channel, in whatever order calls, connections and messages of the peer come, each is
  released exactly once.
\<close>

section \<open>Runs of a channel\<close>

datatype chan_op =
    Call string string bytes nat "nat option"
  | Connected conn_id bool RpcMessage
  | Received "(string \<rightharpoonup> service) option" conn_id RpcMessage

fun run_op :: "chan_op \<Rightarrow> RpcChannel \<Rightarrow> rpc_call list \<times> RpcChannel" where
  "run_op (Call svc method request resp cl) C = CallMethod svc method request resp cl C"
| "run_op (Connected conn up request) C = connectedCallback conn up request C"
| "run_op (Received services conn m) C = onRpcMessage services conn m C"

fun run_ops :: "chan_op list \<Rightarrow> RpcChannel \<Rightarrow> rpc_call list \<times> RpcChannel" where
  "run_ops [] C = ([], C)"
| "run_ops (x # xs) C =
     (case run_op x C of (cs, C1) \<Rightarrow> case run_ops xs C1 of (ds, C2) \<Rightarrow> (cs @ ds, C2))"

text \<open>
  The destructor deletes what is outstanding, in the order of the ids, which are signed. The
  result has the objects it deletes.
\<close>

definition RpcChannel_dtor :: "RpcChannel \<Rightarrow> OutstandingCall list" where
  "RpcChannel_dtor C =
     map (\<lambda>k. the (outstandings C (word_of_int k))) (sorted_list_of_set (sint ` dom (outstandings C)))"

section \<open>What is handed over and released\<close>

definition given_responses :: "chan_op list \<Rightarrow> nat list" where
  "given_responses xs = concat (map (\<lambda>x. case x of Call _ _ _ resp _ \<Rightarrow> [resp] | _ \<Rightarrow> []) xs)"

definition given_closures :: "chan_op list \<Rightarrow> nat list" where
  "given_closures xs = concat (map (\<lambda>x. case x of Call _ _ _ _ (Some cl) \<Rightarrow> [cl] | _ \<Rightarrow> []) xs)"

definition deleted :: "rpc_call list \<Rightarrow> nat list" where
  "deleted cs = concat (map (\<lambda>x. case x of Delete p \<Rightarrow> [p] | _ \<Rightarrow> []) cs)"

text \<open>A closure deletes itself when it is run.\<close>

definition closures_run :: "rpc_call list \<Rightarrow> nat list" where
  "closures_run cs = concat (map (\<lambda>x. case x of Run d \<Rightarrow> [d] | _ \<Rightarrow> []) cs)"

definition closure_list :: "OutstandingCall \<Rightarrow> nat list" where
  "closure_list out = (case done_closure out of Some d \<Rightarrow> [d] | None \<Rightarrow> [])"

definition owned :: "RpcChannel \<Rightarrow> OutstandingCall multiset" where
  "owned C = image_mset (\<lambda>i. the (outstandings C i)) (mset_set (dom (outstandings C)))"

lemma ownership_simps [simp]:
  "given_responses [] = []" "given_closures [] = []" "deleted [] = []" "closures_run [] = []"
  "deleted (cs @ ds) = deleted cs @ deleted ds" "closures_run (cs @ ds) = closures_run cs @ closures_run ds"
  by (simp_all add: given_responses_def given_closures_def deleted_def closures_run_def)

lemma mset_dtor: "mset (RpcChannel_dtor C) = owned C"
proof -
  let ?D = "dom (outstandings C)"
  have inj: "inj_on sint ?D" by (rule inj_on_inverseI [of _ word_of_int]) simp
  have "mset (sorted_list_of_set (sint ` ?D)) = mset_set (sint ` ?D)" by (metis mset_sorted_list_of_multiset sorted_list_of_mset_set)
  also have "\<dots> = image_mset sint (mset_set ?D)" using inj by (simp add: image_mset_mset_set)
  finally show ?thesis by (simp add: RpcChannel_dtor_def owned_def image_mset.compositionality comp_def)
qed

lemma owned_insert:
  assumes "finite (dom m)" "m i = None"
  shows "image_mset (\<lambda>j. the ((m(i \<mapsto> out)) j)) (mset_set (dom (m(i \<mapsto> out)))) =
    add_mset out (image_mset (\<lambda>j. the (m j)) (mset_set (dom m)))"
proof -
  have "i \<notin> dom m" using assms(2) by auto
  then have "mset_set (dom (m(i \<mapsto> out))) = add_mset i (mset_set (dom m))" using assms(1) by simp
  moreover have "image_mset (\<lambda>j. the ((m(i \<mapsto> out)) j)) (mset_set (dom m)) = image_mset (\<lambda>j. the (m j)) (mset_set (dom m))"
    using \<open>i \<notin> dom m\<close> assms(1) by (intro image_mset_cong) auto
  ultimately show ?thesis by simp
qed

lemma owned_remove:
  assumes "finite (dom m)" "m i = Some out"
  shows "image_mset (\<lambda>j. the (m j)) (mset_set (dom m)) =
    add_mset out (image_mset (\<lambda>j. the ((m(i := None)) j)) (mset_set (dom (m(i := None)))))"
  using owned_insert [of "m(i := None)" i out] assms by (simp add: fun_upd_idem)

section \<open>One operation\<close>

definition balanced :: "chan_op list \<Rightarrow> RpcChannel \<Rightarrow> rpc_call list \<Rightarrow> RpcChannel \<Rightarrow> bool" where
  "balanced xs C cs C' \<longleftrightarrow>
     mset (deleted cs) + image_mset response (owned C') = image_mset response (owned C) + mset (given_responses xs) \<and>
     mset (closures_run cs) + (\<Sum>out\<in>#owned C'. mset (closure_list out)) =
       (\<Sum>out\<in>#owned C. mset (closure_list out)) + mset (given_closures xs)"

lemma balanced_op:
  assumes "run_op x C = (cs, C')" "finite (dom (outstandings C))"
    and "given_responses [x] \<noteq> [] \<Longrightarrow> outstandings C (chan_id C) = None"
  shows "balanced [x] C cs C'"
proof (cases x)
  case (Call svc meth request resp cl)
  then have "outstandings C (chan_id C) = None" using assms(3) by (simp add: given_responses_def)
  then have "owned C' = add_mset \<lparr>response = resp, done_closure = cl\<rparr> (owned C)"
    using assms(1) Call owned_insert [OF assms(2)] by (auto simp: CallMethod_def Let_def owned_def)
  moreover have "deleted cs = []" "closures_run cs = []"
    using assms(1) Call by (auto simp: CallMethod_def Let_def deleted_def closures_run_def)
  ultimately show ?thesis
    using Call by (cases cl) (simp_all add: balanced_def given_responses_def given_closures_def closure_list_def)
next
  case (Connected conn up request)
  with assms(1) have "outstandings C' = outstandings C" "deleted cs = []" "closures_run cs = []"
    by (auto simp: connectedCallback_def deleted_def closures_run_def split: if_splits)
  with Connected show ?thesis by (simp add: balanced_def owned_def given_responses_def given_closures_def)
next
  case (Received services conn m)
  have given: "given_responses [x] = []" "given_closures [x] = []"
    using Received by (simp_all add: given_responses_def given_closures_def)
  show ?thesis
  proof (cases "msg_type m = RESPONSE \<and> outstandings C (msg_id m) \<noteq> None")
    case True
    then obtain out where out: "outstandings C (msg_id m) = Some out" by blast
    then have "owned C = add_mset out (owned C')"
      using assms(1) Received True owned_remove [OF assms(2) out] by (auto simp: onRpcMessage_def Let_def owned_def)
    moreover have "deleted cs = [response out]" "closures_run cs = closure_list out"
      using assms(1) Received True out
      by (auto simp: onRpcMessage_def Let_def deleted_def closures_run_def closure_list_def split: option.splits if_splits)
    ultimately show ?thesis using given by (simp add: balanced_def)
  next
    case False
    then have "C' = C" "deleted cs = []" "closures_run cs = []"
      using assms(1) Received
      by (auto simp: onRpcMessage_def Let_def deleted_def closures_run_def split: MessageType.splits option.splits if_splits)
    then show ?thesis using given by (simp add: balanced_def)
  qed
qed

section \<open>Ids\<close>

text \<open>The ids given so far: \<open>n\<close> of them, from \<open>i\<close> on.\<close>

definition ids_from :: "64 word \<Rightarrow> nat \<Rightarrow> RpcChannel \<Rightarrow> bool" where
  "ids_from i n C \<longleftrightarrow> chan_id C = i + of_nat n \<and> dom (outstandings C) \<subseteq> (\<lambda>k. i + of_nat k) ` {..<n}"

lemma ids_fresh:
  assumes "ids_from i n C"
  shows "finite (dom (outstandings C))" "n < 2 ^ 64 \<Longrightarrow> outstandings C (chan_id C) = None"
proof -
  from assms have C: "chan_id C = i + of_nat n" "dom (outstandings C) \<subseteq> (\<lambda>k. i + of_nat k) ` {..<n}"
    by (simp_all add: ids_from_def)
  from C(2) show "finite (dom (outstandings C))" by (rule finite_subset) simp
  show "outstandings C (chan_id C) = None" if "n < 2 ^ 64"
  proof (rule ccontr)
    assume "outstandings C (chan_id C) \<noteq> None"
    then obtain k where k: "k < n" "(of_nat n :: 64 word) = of_nat k" using C by auto
    then have "unat (of_nat n :: 64 word) = unat (of_nat k :: 64 word)" by simp
    with k(1) that show False by (simp add: unat_of_nat take_bit_nat_eq_self)
  qed
qed

lemma ids_step:
  assumes "run_op x C = (cs, C')" "ids_from i n C"
  shows "ids_from i (n + length (given_responses [x])) C'"
proof (cases x)
  case (Call svc meth request resp cl)
  with assms have C': "chan_id C' = i + of_nat (Suc n)" "dom (outstandings C') = insert (i + of_nat n) (dom (outstandings C))"
    by (auto simp: CallMethod_def Let_def ids_from_def)
  show ?thesis
    using C' assms(2) Call by (auto simp: ids_from_def given_responses_def lessThan_Suc)
next
  case (Connected conn up request)
  with assms show ?thesis by (auto simp: connectedCallback_def ids_from_def given_responses_def split: if_splits)
next
  case (Received services conn m)
  with assms show ?thesis
    by (auto simp: onRpcMessage_def Let_def ids_from_def given_responses_def split: MessageType.splits option.splits if_splits)
qed

section \<open>Each object is released once\<close>

lemma balanced_append:
  assumes "balanced xs C cs C1" "balanced ys C1 ds C2"
  shows "balanced (xs @ ys) C (cs @ ds) C2"
  using assms by (simp add: balanced_def given_responses_def given_closures_def ac_simps)

lemma balanced_run:
  "run_ops xs C = (cs, C') \<Longrightarrow> ids_from i n C \<Longrightarrow> n + length (given_responses xs) \<le> 2 ^ 64 \<Longrightarrow> balanced xs C cs C'"
proof (induction xs arbitrary: C cs n)
  case Nil
  then show ?case by (simp add: balanced_def)
next
  case (Cons x xs)
  obtain cs1 C1 ds where run: "run_op x C = (cs1, C1)" "run_ops xs C1 = (ds, C')" "cs = cs1 @ ds"
    using Cons.prems(1) by (auto split: prod.splits)
  have given: "given_responses (x # xs) = given_responses [x] @ given_responses xs" by (simp add: given_responses_def)
  have "n < 2 ^ 64" if "given_responses [x] \<noteq> []" using that Cons.prems(3) by (cases "given_responses [x]") (auto simp: given)
  then have one: "balanced [x] C cs1 C1" using balanced_op [OF run(1)] ids_fresh [OF Cons.prems(2)] by blast
  have "balanced xs C1 ds C'"
    using Cons.prems(3) by (intro Cons.IH [OF run(2) ids_step [OF run(1) Cons.prems(2)]]) (simp add: given)
  from balanced_append [OF one this] run(3) show ?case by simp
qed

text \<open>
  C38. The objects of remote calls are released exactly once: whatever a channel does from its
  making on, in any order of calls, connections coming up and down, and messages of the
  peer, also of wrong, unknown or repeated ids, the response objects it deletes, together with
  those that its destructor deletes, are those the callers have given it, each as often as
  given; and the closures it runs, together with those the destructor deletes, are the
  closures given. This holds as long as the ids have not come round, for 2 to the 64 calls.
\<close>

theorem rpc_objects_released_once:
  assumes "run_ops xs (RpcChannel_ctor conn i) = (cs, C)" "length (given_responses xs) \<le> 2 ^ 64"
  shows "mset (deleted cs @ map response (RpcChannel_dtor C)) = mset (given_responses xs) \<and>
    mset (closures_run cs @ concat (map closure_list (RpcChannel_dtor C))) = mset (given_closures xs)"
proof -
  have "ids_from i 0 (RpcChannel_ctor conn i)" by (simp add: ids_from_def RpcChannel_ctor_def)
  from balanced_run [OF assms(1) this] assms(2) have B: "balanced xs (RpcChannel_ctor conn i) cs C" by simp
  have none: "owned (RpcChannel_ctor conn i) = {#}" by (simp add: owned_def RpcChannel_ctor_def)
  have "mset (deleted cs @ map response (RpcChannel_dtor C)) = mset (given_responses xs)"
    using B by (simp add: balanced_def none mset_dtor)
  moreover have "mset (concat (map closure_list outs)) = (\<Sum>out\<in>#mset outs. mset (closure_list out))" for outs
    by (induction outs) simp_all
  then have "mset (closures_run cs @ concat (map closure_list (RpcChannel_dtor C))) = mset (given_closures xs)"
    using B by (simp add: balanced_def none mset_dtor)
  ultimately show ?thesis by simp
qed

definition two_calls :: "chan_op list" where
  "two_calls = [Call ''S'' ''M'' ''a'' 1 (Some 7), Call ''S'' ''M'' ''b'' 2 (Some 8),
     Received None 5 ((empty_msg RESPONSE 0)\<lparr>msg_response := Some ''x''\<rparr>),
     Received None 5 ((empty_msg RESPONSE 0)\<lparr>msg_response := Some ''x''\<rparr>)]"

text \<open>Two calls, and twice the answer to the first one.\<close>

theorem rpc_objects_released_once_witness:
  "\<exists>cs C. run_ops two_calls (RpcChannel_ctor None 0) = (cs, C) \<and> deleted cs = [1] \<and> closures_run cs = [7] \<and>
     mset (deleted cs @ map response (RpcChannel_dtor C)) = {#1, 2#} \<and>
     mset (closures_run cs @ concat (map closure_list (RpcChannel_dtor C))) = {#7, 8#}"
proof -
  obtain cs C where run: "run_ops two_calls (RpcChannel_ctor None 0) = (cs, C)" by force
  have "deleted cs = [1]" "closures_run cs = [7]"
    using run by (auto simp: two_calls_def CallMethod_def onRpcMessage_def RpcChannel_ctor_def empty_msg_def
        deleted_def closures_run_def)
  moreover have "given_responses two_calls = [1, 2]" "given_closures two_calls = [7, 8]"
    by (simp_all add: two_calls_def given_responses_def given_closures_def)
  ultimately show ?thesis using run rpc_objects_released_once [OF run] by (intro exI [of _ cs] exI [of _ C]) simp
qed

end
