(* ===== verification/Spec2Isabelle.thy ===== *)
theory Spec2Isabelle
  imports ServerFacts TCPClient Timer Rpc ProtobufDispatcher HTTPServer ThreadPool Logger Logging AsyncLogger
    LogSystem HTTPConnections RpcSystem Descriptors MaxConnBench
    MemDB SubPub SimpleServers MaxConnection PingPong EventLoopThread MessageQueue EndToEnd
    TimerPrograms PoolProcess SubPubMain Session MessageLib BenchMain Mains RpcOwnership
begin

text \<open>
  \<^bold>\<open>The program.\<close> Serverlite is a C++ library for TCP servers and clients in the style of a
  reactor: an \<^verbatim>\<open>EventLoop\<close> polls the descriptors registered by its \<^verbatim>\<open>Channel\<close>s, calls their
  callbacks and runs the tasks that other threads have pushed. \<^verbatim>\<open>TCPConnection\<close> buffers what
  it sends and receives on a \<^verbatim>\<open>TCPHandle\<close>; \<^verbatim>\<open>TCPServer\<close> with its \<^verbatim>\<open>Acceptor\<close> and
  \<^verbatim>\<open>EventLoopThreadPool\<close>, and \<^verbatim>\<open>TCPClient\<close> with its \<^verbatim>\<open>Connector\<close>, make and destroy
  connections. On top stand codecs (HTTP, protobuf with type names, protobuf with a tag), an
  RPC channel and server, a thread pool, and a logger with a thread of its own. The directory
  \<^verbatim>\<open>src/examples\<close> holds servers and clients that use all of this.

  \<^bold>\<open>How it is modelled.\<close> A thread runs one callback or task at a time; each such unit is a
  HOL function from a world to a world. The world is a record that every layer extends:
  loops and channels (\<^verbatim>\<open>ev_world\<close>), connections (\<^verbatim>\<open>net_world\<close>), then one server
  (\<^verbatim>\<open>srv_world\<close>), one connector and client (\<^verbatim>\<open>cr_world\<close>, \<^verbatim>\<open>cli_world\<close>) or the timers
  (\<^verbatim>\<open>timer_world\<close>). What the kernel answers to a system call is an argument or a list of
  answers in the world, so a theorem about every world is one about every behaviour of the
  network. An assertion of the code that fails is an entry of the list \<^verbatim>\<open>violations\<close>. What
  the application does in a callback is a list of actions on connections that it computes
  from the world; a callback the library sets itself is the model of the library's code.
  Where threads share state, the critical sections are the steps of an inductive relation,
  and a wait is a step that is not possible yet. \<^verbatim>\<open>size_t\<close> wraps around (\<^verbatim>\<open>sz_add\<close>,
  \<^verbatim>\<open>sz_sub\<close>), \<^verbatim>\<open>int32_t\<close> on the wire is a \<^typ>\<open>32 word\<close>, exceptions are \<^const>\<open>None\<close> or a
  constructor of a result type.

  \<^bold>\<open>Theories, code and what is shown.\<close>

  \<^item> \<open>Prelude\<close>, \<open>CxxString\<close>, \<open>Wire\<close>: shared types and lemmas; the operations of
    \<^verbatim>\<open>std::string\<close> the code uses, \<^verbatim>\<open>to_string\<close> and \<^verbatim>\<open>stoi\<close>; integers in network order,
    error codes, and the locales \<open>framing\<close> and \<open>framing_codec\<close>, the contract of a codec that
    cuts a stream into frames, which both protobuf codecs interpret.
  \<^item> \<open>Channel\<close>, \<open>EventLoop\<close> (\<^verbatim>\<open>Channel.h\<close>, \<^verbatim>\<open>Channel.cc\<close>, \<^verbatim>\<open>EventLoop.h\<close>, \<^verbatim>\<open>EventLoop.cc\<close>):
    interest masks, registration, task queue, wake-up, dispatch and the loop. \<open>LoopReg\<close>: the
    invariant that ties the loop's map and the kernel's interest list to the channels.
    \<open>LoopTask\<close>: one round of tasks, the order of the callbacks of a poll, and the locale
    \<open>loop_client\<close> for properties every callback keeps. \<open>LoopWake\<close>: the pieces of \<^verbatim>\<open>pushTask\<close>,
    \<^verbatim>\<open>quit\<close>, \<^verbatim>\<open>doTask\<close> and \<^verbatim>\<open>loop\<close> that no lock holds together, of any number of threads, interleaved
    from the making of the loop on: no wake-up is lost, tasks run once and in order.
  \<^item> \<open>TCPHandle\<close>, \<open>Descriptors\<close> (\<^verbatim>\<open>TCPHandle.h\<close>, \<^verbatim>\<open>TCPHandle.cc\<close>): what each answer of the
    kernel leads to, addresses and options; the descriptors over the table of the process,
    with the reserve that \<^verbatim>\<open>accept\<close> gives up: nothing leaks, nothing foreign is closed.
  \<^item> \<open>TCPConnection\<close>, \<open>ConnFacts\<close>, \<open>ConnOwner\<close> (\<^verbatim>\<open>TCPConnection.h\<close>, \<^verbatim>\<open>TCPConnection.cc\<close>):
    sending, receiving, shutting down, closing, life cycle. The invariant of the send path: the
    bytes the kernel took, followed by the send buffer, are the data taken for sending. Locales:
    \<open>close_contract\<close> and \<open>owner_inv\<close>, what an owner's close callback promises.
  \<^item> \<open>EventLoopThreadPool\<close>, \<open>EventLoopThread\<close>, \<open>TCPServer\<close>, \<open>ServerFacts\<close>
    (\<^verbatim>\<open>EventLoopThread*.cc\<close>, \<^verbatim>\<open>Acceptor.cc\<close>, \<^verbatim>\<open>TCPServer.cc\<close>): round robin, the hand-over of a
    loop between two threads, the list of connections and their names, the life of a
    connection across loops.
  \<^item> \<open>Connector\<close>, \<open>TCPClient\<close>, \<open>Timer\<close> (\<^verbatim>\<open>Connector.cc\<close>, \<^verbatim>\<open>TCPClient.cc\<close>, \<^verbatim>\<open>Timer.cc\<close>):
    retries and their delays, reconnection, timers on the loop.
  \<^item> \<open>ProtobufCodec\<close>, \<open>ProtobufCodecLite\<close>, \<open>ProtobufDispatcher\<close>, \<open>Rpc\<close>, \<open>RpcSystem\<close>
    (\<^verbatim>\<open>protobuf/\<close>, \<^verbatim>\<open>protorpc/\<close>): framing and parsing, dispatch by type, calls and responses;
    round trips over every cut of the stream, and remote calls from bytes to bytes;
    \<open>RpcOwnership\<close>: the objects of a call are released exactly once. The
    protobuf library and zlib's check sum are the record \<^verbatim>\<open>proto\<close>, an argument; \<open>MessageLib\<close>
    looks closer, at the checks around the serialization with the texts of
    \<^verbatim>\<open>google-inl.h\<close>, and shows when \<^verbatim>\<open>proto\<close> is all there is to know.
  \<^item> \<open>HTTP\<close>, \<open>HTTPServer\<close>, \<open>HTTPConnections\<close> (\<^verbatim>\<open>http/\<close>): messages, the parser and its
    states, routes and answers, and the server over all its connections. The file system is
    an argument.
  \<^item> \<open>ThreadPool\<close>, \<open>PoolProcess\<close> (\<^verbatim>\<open>ThreadPool.cc\<close>): workers and submitters interleaved, and
    stopping; what a task that throws does to the process, joining and destruction.
  \<^item> \<open>Logger\<close>, \<open>Logging\<close>, \<open>AsyncLogger\<close>, \<open>LogSystem\<close> (\<^verbatim>\<open>Logger.cc\<close>, \<^verbatim>\<open>Logging.cc\<close>,
    \<^verbatim>\<open>AsyncLogger.cc\<close>): the line of a statement, files that are changed when they have grown, the
    double buffers, and all of it together from the statement to the file.
  \<^item> Examples: \<open>SimpleServers\<close> (\<^verbatim>\<open>simple_server.cc\<close>, \<^verbatim>\<open>echoserver.cc\<close>), \<open>MaxConnection\<close>,
    \<open>MaxConnBench\<close>, \<open>PingPong\<close> and \<open>BenchMain\<close> (\<^verbatim>\<open>pingpong_bench.cc\<close>, all its rounds), \<open>MessageQueue\<close>, \<open>SubPub\<close> and \<open>SubPubMain\<close> (publish and
    subscribe, and the whole program run), \<open>TimerPrograms\<close> (periodic timers, \<^verbatim>\<open>sing.cc\<close> and
    \<^verbatim>\<open>oneshot.cc\<close>), \<open>MemDB\<close> (a store that refines an abstract one), \<open>QueryServer\<close> (codec, dispatcher and connection on
    both ends), the sudoku service in \<open>RpcSystem\<close>, and \<open>Mains\<close>: what the arguments of the programs lead to.
  \<^item> \<open>Link\<close>, \<open>EndToEnd\<close>: two programs, each with a connection and a codec, and the bytes under
    way between their kernels: every message taken for sending is handed over once, in order,
    whatever the kernels do; and when a connection is reported down before the peer was
    told so itself, the peer has shut down, and all that it had taken before has been handed over.
  \<^item> \<open>Host\<close>, \<open>Program\<close>, \<open>ServerHost\<close>, \<open>ClientHost\<close>, \<open>Session\<close>: whole programs. \<open>Host\<close> says what
    leaves a connection alone and what may wait for it in the queues, with the contract of its
    owner (locale \<open>host\<close>); \<open>Program\<close> has the steps of a program with all its channels, tasks,
    calls and connections, and the locale \<open>owner_program\<close>, whose runs are runs of an end of
    \<open>Link\<close>; \<open>ServerHost\<close> shows it of \<^verbatim>\<open>TCPServer\<close> with acceptor and threads, \<open>ClientHost\<close> of
    \<^verbatim>\<open>TCPClient\<close> with its connector. \<open>Session\<close> joins the two from their start, and runs the query
    client and server; \<open>Mains\<close> shows that their \<^verbatim>\<open>main\<close> functions start a session.

  \<^bold>\<open>Bounds and fuel.\<close> The functions that model loops terminate by a measure on the buffer
  (\<^verbatim>\<open>codec_onMessage\<close>, \<^verbatim>\<open>db_parse\<close>, \<^verbatim>\<open>onServerMessage\<close>) or are partial functions into
  options where the code may spin (\<^verbatim>\<open>http_loop\<close>, \<^verbatim>\<open>client_loop\<close>); there, that they return is a
  theorem of its own, or that they do not. \<^verbatim>\<open>loop_while\<close> takes the list of the polls, so it
  ends with them. No other fuel is used. \<^verbatim>\<open>nextConnId_\<close> has 32 bits, and the names of connections
  are shown different for fewer than 2 to the 31 of them; the counters of \<open>PingPong\<close> are
  undefined beyond an \<^verbatim>\<open>int\<close>, and its sockets take \<open>capacity\<close> messages, a number of the kernel's.

  \<^bold>\<open>Not modelled.\<close> Text that is only printed or logged by the library about itself,
  \<^verbatim>\<open>strerror\<close>, \<^verbatim>\<open>getTCPInfo\<close> and the dotted form of addresses; memory:
  a shared pointer is a name, and where a lifetime matters (\<^verbatim>\<open>tie\<close>, the destructors of \<^verbatim>\<open>TCPServer\<close>, \<^verbatim>\<open>TCPClient\<close> and \<^verbatim>\<open>EventLoopThread\<close>) the model
  says what would be dereferenced; the weak memory order of unlocked flags, which are read and
  written in one step; floating-point rounding in \<^verbatim>\<open>runAfter\<close>, and the width of
  \<^verbatim>\<open>time_t\<close>; the width of the counts \<^verbatim>\<open>memdb.cc\<close> reads from a request; the timer of \<^verbatim>\<open>Connector::retry\<close>,
  of which the list \<open>retries\<close> has the delays (timers are in \<open>Timer\<close>); connections that are reset and
  processes that are killed; the unit tests; and the
  examples that are stubs or have empty callbacks (\<^verbatim>\<open>ttcp.cc\<close>, \<^verbatim>\<open>file_server.cc\<close>,
  \<^verbatim>\<open>simple_client.cc\<close>).

  \<^bold>\<open>Still open.\<close> Worth adding: the descriptors of \<open>Descriptors\<close> joined with the life cycle of
  connections in \<open>ServerFacts\<close>, and the retry timers of \<open>Connector\<close> joined with \<open>Timer\<close>.
\<close>

end
